(* ===== verification/ResDB_Prelude.thy ===== *)
theory ResDB_Prelude
  imports Main "HOL-Library.Word" "HOL-Library.List_Lexorder"
    "HOL-Library.Product_Lexorder" "HOL-Library.Char_ord"
begin

text \<open>
  Shared material of the development: the names of the machine integer types, the reading of
  signed arithmetic, fact collections, and generic lemmas on words, lists and options.

  Conventions used by every theory.
  \<^item> \<open>uint64_t\<close> and \<open>uint32_t\<close> are \<open>64 word\<close> and \<open>32 word\<close>: their arithmetic wraps.
  \<^item> \<open>int64_t\<close> and \<open>int32_t\<close> are \<open>int\<close>; where the code adds or multiplies them the result is
    passed through \<open>i64\<close> or \<open>i32\<close>, the two's complement reading of an overflow.
  \<^item> \<open>std::string\<close> and protobuf \<open>bytes\<close> are \<open>string\<close>, compared lexicographically by bytes.
  \<^item> A result of type \<open>'a option\<close> for an operation that always returns in C++ uses \<open>None\<close> for
    undefined behaviour: a null pointer dereferenced or an index out of range.
\<close>

unbundle bit_operations_syntax

type_synonym uint64 = "64 word"
type_synonym uint32 = "32 word"

named_theorems resdb_simps \<open>unfolding rules of the operations\<close>
named_theorems resdb_inv \<open>preservation of the components' invariants\<close>

section \<open>Signed integers\<close>

definition i64 :: "int \<Rightarrow> int" where
  "i64 x = signed_take_bit 63 x"

definition i32 :: "int \<Rightarrow> int" where
  "i32 x = signed_take_bit 31 x"

lemma i64_id [simp]: "- (2 ^ 63) \<le> x \<Longrightarrow> x < 2 ^ 63 \<Longrightarrow> i64 x = x"
  unfolding i64_def by (rule signed_take_bit_int_eq_self) simp_all

lemma i32_id [simp]: "- (2 ^ 31) \<le> x \<Longrightarrow> x < 2 ^ 31 \<Longrightarrow> i32 x = x"
  unfolding i32_def by (rule signed_take_bit_int_eq_self) simp_all

lemma i64_bounds: "- (2 ^ 63) \<le> i64 x \<and> i64 x < 2 ^ 63"
  unfolding i64_def
  using signed_take_bit_int_greater_eq_minus_exp [of 63 x] signed_take_bit_int_less_exp [of 63 x]
  by simp

section \<open>Unsigned integers\<close>

lemma unat_plus_one: "unat (x :: 'a::len word) < 2 ^ LENGTH('a) - 1 \<Longrightarrow> unat (x + 1) = unat x + 1"
  by (simp add: unat_word_ariths)

lemma unat_add_of_nat:
  assumes "unat (x :: 'a::len word) + n < 2 ^ LENGTH('a)"
  shows "unat (x + of_nat n) = unat x + n"
proof -
  from assms have "n < 2 ^ LENGTH('a)" by linarith
  with assms show ?thesis
    by (simp add: unat_word_ariths unat_of_nat)
qed

lemma less_plus_one_word:
  "unat (x :: 'a::len word) < 2 ^ LENGTH('a) - 1 \<Longrightarrow> y < x + 1 \<longleftrightarrow> y \<le> x"
  by (simp add: word_less_nat_alt word_le_nat_alt unat_plus_one less_Suc_eq_le)

section \<open>Lists\<close>

definition insert_at :: "nat \<Rightarrow> 'a \<Rightarrow> 'a list \<Rightarrow> 'a list" where
  "insert_at n x xs = take n xs @ x # drop n xs"

lemma set_insert_at [simp]: "set (insert_at n x xs) = insert x (set xs)"
  unfolding insert_at_def
  by (metis append_take_drop_id list.simps(15) set_append Un_insert_right)

lemma length_insert_at [simp]: "length (insert_at n x xs) = Suc (length xs)"
  by (simp add: insert_at_def)

lemma sum_list_list_update:
  "i < length xs \<Longrightarrow> sum_list (map f (xs[i := x])) = sum_list (map f xs) - f (xs ! i) + (f x :: int)"
  by (induction xs arbitrary: i) (auto split: nat.splits)

section \<open>Decimal numbers\<close>

text \<open>\<open>std::to_string\<close> on an unsigned number, and on a signed one.\<close>

fun to_string :: "nat \<Rightarrow> string" where
  "to_string n = (if n < 10 then [char_of (48 + n)] else to_string (n div 10) @ [char_of (48 + n mod 10)])"

declare to_string.simps [simp del]

definition to_string_int :: "int \<Rightarrow> string" where
  "to_string_int n = (if n < 0 then CHR ''-'' # to_string (nat (- n)) else to_string (nat n))"

section \<open>Options\<close>

lemma bind_eq_Some: "Option.bind x f = Some y \<longleftrightarrow> (\<exists>z. x = Some z \<and> f z = Some y)"
  by (cases x) auto

end
