(* ===== verification/Std_Map.thy ===== *)
theory Std_Map
  imports ResDB_Prelude
begin

text \<open>
  The ordered container \<open>std::map\<close> that most components keep their state in, as an association
  list sorted by strictly increasing keys: \<open>begin()\<close> is the head, iteration is the list.
  \<open>sm_put\<close> is \<open>m[k] = v\<close>, \<open>sm_insert\<close> is \<open>m.insert({k, v})\<close> (which keeps an existing entry),
  \<open>sm_find\<close> is \<open>find\<close>, \<open>sm_erase\<close> is \<open>erase(k)\<close> and \<open>sm_get d\<close> is a read through \<open>operator[]\<close>,
  where \<open>d\<close> is the value-initialised element. The locale \<open>ordered_map\<close> states the contract the
  components rely on; \<open>std_map\<close> is its interpretation on the list operations.
\<close>

type_synonym ('k, 'v) std_map = "('k \<times> 'v) list"

definition sm_wf :: "('k::linorder, 'v) std_map \<Rightarrow> bool" where
  "sm_wf m \<longleftrightarrow> sorted_wrt (<) (map fst m)"

fun sm_put :: "'k::linorder \<Rightarrow> 'v \<Rightarrow> ('k, 'v) std_map \<Rightarrow> ('k, 'v) std_map" where
  "sm_put k v [] = [(k, v)]"
| "sm_put k v ((k', v') # m) =
     (if k < k' then (k, v) # (k', v') # m
      else if k = k' then (k, v) # m
      else (k', v') # sm_put k v m)"

definition sm_find :: "'k \<Rightarrow> ('k, 'v) std_map \<Rightarrow> 'v option" where
  "sm_find k m = map_of m k"

definition sm_insert :: "'k::linorder \<Rightarrow> 'v \<Rightarrow> ('k, 'v) std_map \<Rightarrow> ('k, 'v) std_map" where
  "sm_insert k v m = (case sm_find k m of None \<Rightarrow> sm_put k v m | Some _ \<Rightarrow> m)"

definition sm_erase :: "'k \<Rightarrow> ('k, 'v) std_map \<Rightarrow> ('k, 'v) std_map" where
  "sm_erase k m = filter (\<lambda>e. fst e \<noteq> k) m"

definition sm_get :: "'v \<Rightarrow> 'k \<Rightarrow> ('k, 'v) std_map \<Rightarrow> 'v" where
  "sm_get d k m = (case sm_find k m of None \<Rightarrow> d | Some v \<Rightarrow> v)"

section \<open>Laws of the list operations\<close>

lemma sm_find_simps [simp]:
  "sm_find k [] = None"
  "sm_find k ((k', v) # m) = (if k = k' then Some v else sm_find k m)"
  by (simp_all add: sm_find_def)

lemma sm_wf_Nil [simp]: "sm_wf []"
  by (simp add: sm_wf_def)

lemma sm_wf_Cons [simp]:
  "sm_wf ((k, v) # m) \<longleftrightarrow> (\<forall>e \<in> set m. k < fst e) \<and> sm_wf m"
  by (simp add: sm_wf_def)

lemma sm_find_put [simp]: "sm_find k' (sm_put k v m) = (if k' = k then Some v else sm_find k' m)"
  by (induction k v m rule: sm_put.induct) auto

lemma keys_put [simp]: "fst ` set (sm_put k v m) = insert k (fst ` set m)"
  by (induction k v m rule: sm_put.induct) auto

lemma ball_keys_put [simp]:
  "(\<forall>e \<in> set (sm_put k v m). P (fst e)) \<longleftrightarrow> P k \<and> (\<forall>e \<in> set m. P (fst e))"
  by (induction k v m rule: sm_put.induct) auto

lemma sm_wf_put [simp, resdb_inv]: "sm_wf m \<Longrightarrow> sm_wf (sm_put k v m)"
  by (induction k v m rule: sm_put.induct) auto

lemma sm_find_insert [simp]:
  "sm_find k' (sm_insert k v m) =
     (if k' = k \<and> sm_find k m = None then Some v else sm_find k' m)"
  by (auto simp: sm_insert_def split: option.splits)

lemma sm_wf_insert [simp, resdb_inv]: "sm_wf m \<Longrightarrow> sm_wf (sm_insert k v m)"
  by (simp add: sm_insert_def split: option.splits)

lemma sm_find_erase [simp]: "sm_find k' (sm_erase k m) = (if k' = k then None else sm_find k' m)"
  by (induction m) (auto simp: sm_erase_def)

lemma sm_wf_filter [simp]: "sm_wf m \<Longrightarrow> sm_wf (filter P m)"
  by (induction m) auto

lemma sm_wf_erase [simp, resdb_inv]: "sm_wf m \<Longrightarrow> sm_wf (sm_erase k m)"
  by (simp add: sm_erase_def)

lemma sm_find_None_iff: "sm_find k m = None \<longleftrightarrow> k \<notin> fst ` set m"
  by (simp add: sm_find_def map_of_eq_None_iff)

lemma sm_find_in_set: "sm_find k m = Some v \<Longrightarrow> (k, v) \<in> set m"
  by (simp add: sm_find_def map_of_SomeD)

lemma sm_wf_distinct: "sm_wf m \<Longrightarrow> distinct (map fst m)"
  by (simp add: sm_wf_def strict_sorted_iff)

lemma sm_find_eq_set: "sm_wf m \<Longrightarrow> sm_find k m = Some v \<longleftrightarrow> (k, v) \<in> set m"
  by (simp add: sm_find_def sm_wf_distinct)

lemma sm_get_put [simp]: "sm_get d k' (sm_put k v m) = (if k' = k then v else sm_get d k' m)"
  by (simp add: sm_get_def)

lemma sm_get_simps [simp]: "sm_get d k [] = d"
  by (simp add: sm_get_def)

text \<open>The first entry carries the least key, which is what \<open>begin()\<close> of an ordered map is.\<close>

lemma sm_hd_least: "sm_wf m \<Longrightarrow> m = (k, v) # m' \<Longrightarrow> sm_find k' m \<noteq> None \<Longrightarrow> k \<le> k'"
  by (fastforce dest: sm_find_in_set split: if_splits)

lemma sm_erase_hd: "sm_wf ((k, v) # m) \<Longrightarrow> sm_erase k ((k, v) # m) = m"
  by (auto simp: sm_erase_def filter_id_conv)

section \<open>The contract and its interpretation\<close>

locale ordered_map =
  fixes wf :: "'m \<Rightarrow> bool"
    and find :: "'k::linorder \<Rightarrow> 'm \<Rightarrow> 'v option"
    and put :: "'k \<Rightarrow> 'v \<Rightarrow> 'm \<Rightarrow> 'm"
    and erase :: "'k \<Rightarrow> 'm \<Rightarrow> 'm"
    and entries :: "'m \<Rightarrow> ('k \<times> 'v) list"
  assumes find_put: "wf m \<Longrightarrow> find k' (put k v m) = (if k' = k then Some v else find k' m)"
    and find_erase: "wf m \<Longrightarrow> find k' (erase k m) = (if k' = k then None else find k' m)"
    and wf_put: "wf m \<Longrightarrow> wf (put k v m)"
    and wf_erase: "wf m \<Longrightarrow> wf (erase k m)"
    and entries_sorted: "wf m \<Longrightarrow> sorted_wrt (<) (map fst (entries m))"
    and entries_find: "wf m \<Longrightarrow> (k, v) \<in> set (entries m) \<longleftrightarrow> find k m = Some v"
begin

lemma wf_puts: "wf m \<Longrightarrow> wf (fold (\<lambda>(k, v). put k v) kvs m)"
  by (induction kvs arbitrary: m) (auto simp: wf_put)

lemma find_puts:
  "wf m \<Longrightarrow> find k (fold (\<lambda>(k, v). put k v) kvs m) =
     (case map_of (rev kvs) k of Some v \<Rightarrow> Some v | None \<Rightarrow> find k m)"
proof (induction kvs arbitrary: m)
  case Nil
  then show ?case by simp
next
  case (Cons kv kvs)
  obtain a b where kv: "kv = (a, b)" by (cases kv)
  from Cons.prems have "wf (put a b m)" by (rule wf_put)
  from Cons.IH [OF this] Cons.prems show ?case
    by (auto simp: kv find_put map_add_def split: option.splits)
qed

lemma entries_by_find:
  assumes "wf m"
  shows "entries m = map (\<lambda>k. (k, the (find k m))) (map fst (entries m))"
proof -
  have "map (\<lambda>e. (fst e, the (find (fst e) m))) (entries m) = map id (entries m)"
    using assms entries_find by (intro map_cong) (auto simp: prod_eq_iff)
  then show ?thesis by (simp add: o_def)
qed

lemma entries_determined:
  assumes "wf m" "wf m'" "\<And>k. find k m = find k m'"
  shows "entries m = entries m'"
proof -
  have "set (entries m) = set (entries m')"
    using assms entries_find by fastforce
  then have keys: "map fst (entries m) = map fst (entries m')"
    using assms(1,2) entries_sorted by (intro strict_sorted_equal) simp_all
  have "entries m = map (\<lambda>k. (k, the (find k m))) (map fst (entries m))"
    using assms(1) by (rule entries_by_find)
  also have "\<dots> = map (\<lambda>k. (k, the (find k m'))) (map fst (entries m'))"
    by (simp only: keys assms(3))
  also have "\<dots> = entries m'"
    using assms(2) by (rule entries_by_find [symmetric])
  finally show ?thesis .
qed

end

interpretation std_map: ordered_map sm_wf sm_find sm_put sm_erase "\<lambda>m. m"
proof unfold_locales
  fix m :: "('a::linorder, 'b) std_map"
  show "sm_wf m \<Longrightarrow> sorted_wrt (<) (map fst m)"
    by (simp add: sm_wf_def)
qed (simp_all add: sm_find_eq_set)

text \<open>Two ordered maps with the same lookups are the same list.\<close>

lemma sm_ext: "sm_wf m \<Longrightarrow> sm_wf m' \<Longrightarrow> (\<And>k. sm_find k m = sm_find k m') \<Longrightarrow> m = m'"
  by (rule std_map.entries_determined)

lemma sm_erase_put: "sm_wf m \<Longrightarrow> sm_find k m = None \<Longrightarrow> sm_erase k (sm_put k v m) = m"
  by (intro sm_ext) auto

end
