(* ===== verification/Messages.thy ===== *)
theory Messages
  imports Std_Map
begin

text \<open>
  The protocol buffer messages the replicas exchange (platform/proto/resdb.proto,
  common/proto/signature_info.proto, platform/proto/replica_info.proto,
  platform/proto/checkpoint_info.proto, platform/proto/viewchange_message.proto) as records with
  the fields the C++ code reads or writes, the \<open>NewRequest\<close> helpers of transaction_utils.cpp, and
  the messages a handler hands to the \<open>ReplicaCommunicator\<close>.

  The wire format is generated code outside the repository: wherever a handler parses or
  serialises a message the codec is an argument of the handler. A request type is one of the declared
  values; other numbers, which the wire format would let through, are not represented.
\<close>

section \<open>Signatures and replicas\<close>

datatype hash_type = HT_NONE | HT_RSA | HT_ED25519 | HT_CMAC_AES | HT_ECDSA

record signature_info =
  sg_hash_type :: hash_type
  sg_node_id :: int
  sg_signature :: string

definition empty_signature :: signature_info where
  "empty_signature = \<lparr>sg_hash_type = HT_NONE, sg_node_id = 0, sg_signature = []\<rparr>"

record replica_info =
  rep_id :: int
  rep_ip :: string
  rep_port :: int

definition empty_replica :: replica_info where
  "empty_replica = \<lparr>rep_id = 0, rep_ip = [], rep_port = 0\<rparr>"

section \<open>Requests\<close>

datatype request_type =
    TYPE_NONE | TYPE_HEART_BEAT | TYPE_CLIENT_REQUEST | TYPE_PRE_PREPARE | TYPE_PREPARE
  | TYPE_COMMIT | TYPE_CLIENT_CERT | TYPE_RESPONSE | TYPE_RECOVERY_DATA | TYPE_RECOVERY_DATA_RESP
  | TYPE_CHECKPOINT | TYPE_QUERY | TYPE_REPLICA_STATE | TYPE_NEW_TXNS | TYPE_GEO_REQUEST
  | TYPE_VIEWCHANGE | TYPE_NEWVIEW | TYPE_CUSTOM_QUERY | TYPE_CUSTOM_CONSENSUS

record request =
  rq_type :: request_type
  rq_data :: string
  rq_current_view :: uint64
  rq_seq :: uint64
  rq_hash :: string
  rq_sender_id :: int
  rq_proxy_id :: int
  rq_need_response :: bool
  rq_ret :: int
  rq_data_signature :: "signature_info option"
  rq_region_id :: int
  rq_committed_certs :: "signature_info list option"
  rq_is_recovery :: bool
  rq_primary_id :: int
  rq_user_type :: int
  rq_uid :: int
  rq_user_seq :: int

definition empty_request :: request where
  "empty_request =
     \<lparr>rq_type = TYPE_NONE, rq_data = [], rq_current_view = 0, rq_seq = 0, rq_hash = [],
      rq_sender_id = 0, rq_proxy_id = 0, rq_need_response = False, rq_ret = 0,
      rq_data_signature = None, rq_region_id = 0, rq_committed_certs = None,
      rq_is_recovery = False, rq_primary_id = 0, rq_user_type = 0, rq_uid = 0, rq_user_seq = 0\<rparr>"

text \<open>Reading an absent sub-message of a protocol buffer gives its default instance.\<close>

definition data_signature :: "request \<Rightarrow> signature_info" where
  "data_signature r = (case rq_data_signature r of None \<Rightarrow> empty_signature | Some s \<Rightarrow> s)"

definition NewRequest :: "request_type \<Rightarrow> request \<Rightarrow> int \<Rightarrow> request" where
  "NewRequest ty r sender = r\<lparr>rq_type := ty, rq_sender_id := sender\<rparr>"

definition NewRegionRequest :: "request_type \<Rightarrow> request \<Rightarrow> int \<Rightarrow> int \<Rightarrow> request" where
  "NewRegionRequest ty r sender region =
     r\<lparr>rq_type := ty, rq_sender_id := sender, rq_region_id := region\<rparr>"

record request_info =
  ri_request :: "request option"
  ri_signature :: signature_info

record user_request =
  ur_request :: request
  ur_signature :: signature_info
  ur_id :: int

record batch_user_request =
  br_user_requests :: "user_request list"
  br_createtime :: uint64
  br_local_id :: uint64
  br_seq :: uint64
  br_committed_certs :: "signature_info list option"
  br_hash :: string
  br_proxy_id :: int

definition empty_batch :: batch_user_request where
  "empty_batch = \<lparr>br_user_requests = [], br_createtime = 0, br_local_id = 0, br_seq = 0,
     br_committed_certs = None, br_hash = [], br_proxy_id = 0\<rparr>"

record batch_user_response =
  rs_response :: "string list"
  rs_proxy_id :: int
  rs_seq :: uint64
  rs_current_view :: uint64
  rs_createtime :: uint64
  rs_local_id :: uint64
  rs_hash :: string
  rs_primary_id :: int

definition empty_response :: batch_user_response where
  "empty_response = \<lparr>rs_response = [], rs_proxy_id = 0, rs_seq = 0, rs_current_view = 0,
     rs_createtime = 0, rs_local_id = 0, rs_hash = [], rs_primary_id = 0\<rparr>"

section \<open>Checkpoints and view changes\<close>

record checkpoint_data =
  cp_seq :: uint64
  cp_hash :: string
  cp_hash_signature :: signature_info
  cp_hashs :: "string list"

record stable_checkpoint =
  sc_seq :: uint64
  sc_hash :: string
  sc_signatures :: "signature_info list"

definition empty_stable_checkpoint :: stable_checkpoint where
  "empty_stable_checkpoint = \<lparr>sc_seq = 0, sc_hash = [], sc_signatures = []\<rparr>"

record prepared_proof =
  pp_request :: request
  pp_signature :: signature_info

record prepared_message =
  pm_seq :: uint64
  pm_proof :: "prepared_proof list"

record viewchange_message =
  vm_view_number :: uint64
  vm_stable_ckpt :: stable_checkpoint
  vm_prepared_msg :: "prepared_message list"

record newview_message =
  nv_view_number :: uint64
  nv_request :: "request list"
  nv_viewchange_messages :: "viewchange_message list"

section \<open>Contexts and the network\<close>

text \<open>
  \<open>Context\<close> carries the signature of the received packet and, for a client connection, the
  channel to answer on, here the channel's number. A null context is \<open>None\<close>. What a handler
  sends is recorded as a list of \<open>out_msg\<close> in the order of the calls.
\<close>

record net_context =
  cx_signature :: signature_info
  cx_client :: "nat option"

datatype out_msg =
    Broadcast request
  | SendTo request int
  | SendSelf request
  | SendClient nat string

text \<open>The guard every commitment handler opens with: a context that carries a signature.\<close>

definition has_signature :: "net_context option \<Rightarrow> bool" where
  "has_signature c = (case c of None \<Rightarrow> False | Some x \<Rightarrow> sg_signature (cx_signature x) \<noteq> [])"

lemma NewRequest_sel [simp]:
  "rq_type (NewRequest ty r i) = ty" "rq_sender_id (NewRequest ty r i) = i"
  "rq_hash (NewRequest ty r i) = rq_hash r" "rq_seq (NewRequest ty r i) = rq_seq r"
  "rq_data (NewRequest ty r i) = rq_data r"
  "rq_current_view (NewRequest ty r i) = rq_current_view r"
  "rq_proxy_id (NewRequest ty r i) = rq_proxy_id r"
  "rq_is_recovery (NewRequest ty r i) = rq_is_recovery r"
  by (simp_all add: NewRequest_def)

end
