(* ===== verification/Signature_Verifier.thy ===== *)
theory Signature_Verifier
  imports Messages
begin

text \<open>
  \<open>SignatureVerifier\<close> (common/crypto/signature_verifier.cpp): the public keys a node has learnt,
  the dispatch on the key's hash type, and the certification of learnt keys by the administrator's
  key. The signature schemes themselves are CryptoPP; they are the record of functions
  \<open>crypto\<close>, an argument of every operation.
\<close>

record key_info =
  ki_key :: string
  ki_hash_type :: hash_type

datatype node_kind = REPLICA | CLIENT

record certificate_key_info =
  ck_key :: key_info
  ck_node_id :: int
  ck_type :: node_kind
  ck_ip :: string
  ck_port :: int

record certificate_key =
  ce_public_key_info :: certificate_key_info
  ce_certificate :: signature_info

text \<open>Primitives: message, key and signature give the verdict; key and message the signature.\<close>

record crypto =
  cr_rsa_verify :: "string \<Rightarrow> string \<Rightarrow> string \<Rightarrow> bool"
  cr_ed25519_verify :: "string \<Rightarrow> string \<Rightarrow> string \<Rightarrow> bool"
  cr_cmac_verify :: "string \<Rightarrow> string \<Rightarrow> string \<Rightarrow> bool"
  cr_ecdsa_verify :: "string \<Rightarrow> string \<Rightarrow> string \<Rightarrow> bool"
  cr_rsa_sign :: "string \<Rightarrow> string \<Rightarrow> string"
  cr_ed25519_sign :: "string \<Rightarrow> string \<Rightarrow> string"
  cr_cmac_sign :: "string \<Rightarrow> string \<Rightarrow> string"
  cr_ecdsa_sign :: "string \<Rightarrow> string \<Rightarrow> string"
  cr_sha256 :: "string \<Rightarrow> string"
  cr_serialize_key :: "certificate_key_info \<Rightarrow> string"

record signature_verifier =
  sv_private_key :: key_info
  sv_node_id :: int
  sv_admin_public_key :: key_info
  sv_keys :: "(int, certificate_key) std_map"

definition CalculateHash :: "crypto \<Rightarrow> string \<Rightarrow> string" where
  "CalculateHash C str = cr_sha256 C str"

definition GetPublicKey :: "signature_verifier \<Rightarrow> int \<Rightarrow> key_info option" where
  "GetPublicKey sv node =
     (case sm_find node (sv_keys sv) of
        None \<Rightarrow> None
      | Some ck \<Rightarrow> Some (ck_key (ce_public_key_info ck)))"

definition GetAllPublicKeys :: "signature_verifier \<Rightarrow> certificate_key list" where
  "GetAllPublicKeys sv = map snd (sv_keys sv)"

definition GetPublicKeysSize :: "signature_verifier \<Rightarrow> nat" where
  "GetPublicKeysSize sv = length (sv_keys sv)"

text \<open>The overload that is given the key: the one dispatch on the scheme.\<close>

definition VerifyWithKey :: "crypto \<Rightarrow> string \<Rightarrow> key_info \<Rightarrow> string \<Rightarrow> bool" where
  "VerifyWithKey C message key signature =
     (if ki_key key = [] \<or> signature = [] then False
      else case ki_hash_type key of
        HT_RSA \<Rightarrow> cr_rsa_verify C message (ki_key key) signature
      | HT_ED25519 \<Rightarrow> cr_ed25519_verify C message (ki_key key) signature
      | HT_CMAC_AES \<Rightarrow> cr_cmac_verify C message (ki_key key) signature
      | HT_ECDSA \<Rightarrow> cr_ecdsa_verify C message (ki_key key) signature
      | HT_NONE \<Rightarrow> True)"

definition VerifyMessage :: "crypto \<Rightarrow> signature_verifier \<Rightarrow> string \<Rightarrow> signature_info \<Rightarrow> bool" where
  "VerifyMessage C sv message info =
     (if sg_signature info = [] then False
      else case GetPublicKey sv (sg_node_id info) of
        None \<Rightarrow> False
      | Some key \<Rightarrow> VerifyWithKey C message key (sg_signature info))"

definition VerifyKey :: "crypto \<Rightarrow> signature_verifier \<Rightarrow> certificate_key_info \<Rightarrow> signature_info \<Rightarrow> bool" where
  "VerifyKey C sv info sign =
     VerifyWithKey C (cr_serialize_key C info) (sv_admin_public_key sv) (sg_signature sign)"

definition AddPublicKey ::
  "crypto \<Rightarrow> signature_verifier \<Rightarrow> certificate_key \<Rightarrow> bool \<Rightarrow> bool \<times> signature_verifier" where
  "AddPublicKey C sv pk need_verify =
     (if need_verify \<and> \<not> VerifyKey C sv (ce_public_key_info pk) (ce_certificate pk)
      then (False, sv)
      else (True, sv\<lparr>sv_keys := sm_put (ck_node_id (ce_public_key_info pk)) pk (sv_keys sv)\<rparr>))"

definition SignMessage :: "crypto \<Rightarrow> signature_verifier \<Rightarrow> string \<Rightarrow> signature_info" where
  "SignMessage C sv message =
     (let key = ki_key (sv_private_key sv);
          info = empty_signature\<lparr>sg_node_id := sv_node_id sv\<rparr>
      in case ki_hash_type (sv_private_key sv) of
           HT_RSA \<Rightarrow> info\<lparr>sg_signature := cr_rsa_sign C key message\<rparr>
         | HT_ED25519 \<Rightarrow> info\<lparr>sg_signature := cr_ed25519_sign C key message\<rparr>
         | HT_CMAC_AES \<Rightarrow> info\<lparr>sg_signature := cr_cmac_sign C key message\<rparr>
         | HT_ECDSA \<Rightarrow> info\<lparr>sg_signature := cr_ecdsa_sign C key message\<rparr>
         | HT_NONE \<Rightarrow> info)"

text \<open>The constructor adds the node's own certificate without verification.\<close>

definition new_verifier :: "crypto \<Rightarrow> key_info \<Rightarrow> int \<Rightarrow> key_info \<Rightarrow> certificate_key \<Rightarrow> signature_verifier" where
  "new_verifier C private node admin own =
     snd (AddPublicKey C \<lparr>sv_private_key = private, sv_node_id = node,
            sv_admin_public_key = admin, sv_keys = []\<rparr> own False)"

section \<open>Who can make a message verify\<close>

definition certified :: "crypto \<Rightarrow> signature_verifier \<Rightarrow> certificate_key \<Rightarrow> bool" where
  "certified C sv pk \<longleftrightarrow> VerifyKey C sv (ce_public_key_info pk) (ce_certificate pk)"

text \<open>Every stored key is the own key or was certified, and is filed under its owner.\<close>

definition verifier_inv :: "crypto \<Rightarrow> certificate_key \<Rightarrow> signature_verifier \<Rightarrow> bool" where
  "verifier_inv C own sv \<longleftrightarrow>
     sm_wf (sv_keys sv) \<and>
     (\<forall>(n, pk) \<in> set (sv_keys sv).
        ck_node_id (ce_public_key_info pk) = n \<and> (pk = own \<or> certified C sv pk))"

lemma certified_frame [simp]: "certified C (sv\<lparr>sv_keys := ks\<rparr>) = certified C sv"
  by (rule ext) (simp add: certified_def VerifyKey_def)

lemma verifier_inv_new: "verifier_inv C own (new_verifier C private node admin own)"
  by (simp add: verifier_inv_def new_verifier_def AddPublicKey_def)

lemma set_put_subset: "set (sm_put k v m) \<subseteq> insert (k, v) (set m)"
  by (induction k v m rule: sm_put.induct) auto

lemma AddPublicKey_inv [resdb_inv]:
  assumes "verifier_inv C own sv"
  shows "verifier_inv C own (snd (AddPublicKey C sv pk True))"
  using assms set_put_subset [of "ck_node_id (ce_public_key_info pk)" pk "sv_keys sv"]
  by (auto simp: verifier_inv_def AddPublicKey_def certified_def VerifyKey_def)

fun learn_keys :: "crypto \<Rightarrow> signature_verifier \<Rightarrow> certificate_key list \<Rightarrow> signature_verifier" where
  "learn_keys C sv [] = sv"
| "learn_keys C sv (pk # pks) = learn_keys C (snd (AddPublicKey C sv pk True)) pks"

lemma learn_keys_inv [resdb_inv]: "verifier_inv C own sv \<Longrightarrow> verifier_inv C own (learn_keys C sv pks)"
  by (induction C sv pks rule: learn_keys.induct) (simp_all add: AddPublicKey_inv)

lemma AddPublicKey_admin [simp]:
  "sv_admin_public_key (snd (AddPublicKey C sv pk b)) = sv_admin_public_key sv"
  by (simp add: AddPublicKey_def)

lemma learn_keys_admin [simp]: "sv_admin_public_key (learn_keys C sv pks) = sv_admin_public_key sv"
  by (induction C sv pks rule: learn_keys.induct) simp_all

text \<open>A replica that learns keys only through verified certificates accepts a message only
  under a key that is its own or that the administrator's key certified, and that key belongs to
  the very node the signature names.\<close>

theorem verified_message_origin:
  assumes "VerifyMessage C (learn_keys C (new_verifier C private node admin own) pks) msg info"
  shows "\<exists>pk. (pk = own \<or>
            VerifyWithKey C (cr_serialize_key C (ce_public_key_info pk)) admin
              (sg_signature (ce_certificate pk)))
          \<and> ck_node_id (ce_public_key_info pk) = sg_node_id info
          \<and> VerifyWithKey C msg (ck_key (ce_public_key_info pk)) (sg_signature info)"
proof -
  let ?sv = "learn_keys C (new_verifier C private node admin own) pks"
  have inv: "verifier_inv C own ?sv"
    by (intro learn_keys_inv verifier_inv_new)
  have adm: "sv_admin_public_key ?sv = admin"
    by (simp add: new_verifier_def)
  from assms obtain pk where pk: "sm_find (sg_node_id info) (sv_keys ?sv) = Some pk"
    and ok: "VerifyWithKey C msg (ck_key (ce_public_key_info pk)) (sg_signature info)"
    by (auto simp: VerifyMessage_def GetPublicKey_def split: if_splits option.splits)
  from inv sm_find_in_set [OF pk]
  have "ck_node_id (ce_public_key_info pk) = sg_node_id info" "pk = own \<or> certified C ?sv pk"
    by (auto simp: verifier_inv_def)
  with ok adm show ?thesis
    by (auto simp: certified_def VerifyKey_def)
qed

definition demo_crypto :: crypto where
  "demo_crypto = \<lparr>cr_rsa_verify = (\<lambda>m k s. s = k @ m), cr_ed25519_verify = (\<lambda>m k s. s = k @ m),
     cr_cmac_verify = (\<lambda>m k s. s = k @ m), cr_ecdsa_verify = (\<lambda>m k s. s = k @ m),
     cr_rsa_sign = (\<lambda>k m. k @ m), cr_ed25519_sign = (\<lambda>k m. k @ m),
     cr_cmac_sign = (\<lambda>k m. k @ m), cr_ecdsa_sign = (\<lambda>k m. k @ m), cr_sha256 = id,
     cr_serialize_key = (\<lambda>i. ki_key (ck_key i))\<rparr>"

definition demo_key :: "int \<Rightarrow> string \<Rightarrow> certificate_key" where
  "demo_key n k = \<lparr>ce_public_key_info = \<lparr>ck_key = \<lparr>ki_key = k, ki_hash_type = HT_ED25519\<rparr>,
     ck_node_id = n, ck_type = REPLICA, ck_ip = [], ck_port = 0\<rparr>,
     ce_certificate = \<lparr>sg_hash_type = HT_RSA, sg_node_id = 0, sg_signature = ''A'' @ k\<rparr>\<rparr>"

theorem verified_message_origin_witness:
  "\<exists>pk. (pk = demo_key 1 ''p'' \<or>
            VerifyWithKey demo_crypto (cr_serialize_key demo_crypto (ce_public_key_info pk))
              \<lparr>ki_key = ''A'', ki_hash_type = HT_RSA\<rparr> (sg_signature (ce_certificate pk)))
          \<and> ck_node_id (ce_public_key_info pk) = 2
          \<and> VerifyWithKey demo_crypto ''m'' (ck_key (ce_public_key_info pk)) ''qm''"
  using verified_message_origin [of demo_crypto "\<lparr>ki_key = ''p'', ki_hash_type = HT_ED25519\<rparr>" 1
      "\<lparr>ki_key = ''A'', ki_hash_type = HT_RSA\<rparr>" "demo_key 1 ''p''" "[demo_key 2 ''q'']" "''m''"
      "\<lparr>sg_hash_type = HT_ED25519, sg_node_id = 2, sg_signature = ''qm''\<rparr>"]
  by (simp add: new_verifier_def AddPublicKey_def VerifyKey_def VerifyWithKey_def VerifyMessage_def
      GetPublicKey_def demo_key_def demo_crypto_def)

end
