(* ===== verification/Config.thy ===== *)
theory Config
  imports Signature_Verifier
begin

text \<open>
  \<open>ResDBConfig\<close> (platform/config/resdb_config.cpp): the replica set of a region, the sizes of the
  quorums derived from it and the tunables with their defaults. The second half states what the
  quorum sizes are good for: the locale \<open>byzantine_quorums\<close> is the contract the ordering protocols
  rely on and \<open>pbft_quorums\<close> its interpretation on \<open>GetMinDataReceiveNum\<close>.
\<close>

record region_info =
  rg_region_id :: int
  rg_replica_info :: "replica_info list"

record config_data =
  cd_region :: "region_info list"
  cd_self_region_id :: int
  cd_enable_viewchange :: bool
  cd_view_change_timeout_ms :: int
  cd_not_need_signature :: bool
  cd_is_performance_running :: bool
  cd_max_process_txn :: int
  cd_client_batch_num :: int
  cd_worker_num :: int
  cd_input_worker_num :: int
  cd_output_worker_num :: int
  cd_tcp_batch_num :: int
  cd_recovery_enabled :: bool
  cd_max_client_complaint_num :: int
  cd_duplicate_check_frequency_useconds :: int

record resdb_config =
  cf_config_data :: config_data
  cf_replicas :: "replica_info list"
  cf_self_info :: replica_info
  cf_node_kind :: node_kind
  cf_checkpoint_water_mark :: int
  cf_is_enable_checkpoint :: bool
  cf_signature_verifier_enabled :: bool
  cf_is_performance_running :: bool
  cf_is_test_mode :: bool
  cf_max_process_txn :: uint32
  cf_client_batch_wait_time_ms :: uint32

section \<open>Construction\<close>

text \<open>The replicas of the first region whose id is the node's own.\<close>

fun self_region_replicas :: "int \<Rightarrow> region_info list \<Rightarrow> replica_info list" where
  "self_region_replicas self [] = []"
| "self_region_replicas self (r # rs) =
     (if rg_region_id r = self then rg_replica_info r else self_region_replicas self rs)"

definition or_default :: "int \<Rightarrow> int \<Rightarrow> int" where
  "or_default d x = (if x = 0 then d else x)"

definition with_defaults :: "config_data \<Rightarrow> config_data" where
  "with_defaults d =
     d\<lparr>cd_view_change_timeout_ms := or_default 60000 (cd_view_change_timeout_ms d),
       cd_client_batch_num := or_default 100 (cd_client_batch_num d),
       cd_worker_num := or_default 64 (cd_worker_num d),
       cd_input_worker_num := or_default 1 (cd_input_worker_num d),
       cd_output_worker_num := or_default 1 (cd_output_worker_num d),
       cd_tcp_batch_num := or_default 100 (cd_tcp_batch_num d)\<rparr>"

definition new_config :: "config_data \<Rightarrow> replica_info \<Rightarrow> node_kind \<Rightarrow> resdb_config" where
  "new_config d self kind =
     \<lparr>cf_config_data = with_defaults d,
      cf_replicas = self_region_replicas (cd_self_region_id d) (cd_region d),
      cf_self_info = self, cf_node_kind = kind, cf_checkpoint_water_mark = 5,
      cf_is_enable_checkpoint = False, cf_signature_verifier_enabled = True,
      cf_is_performance_running = False, cf_is_test_mode = False,
      cf_max_process_txn = 2048, cf_client_batch_wait_time_ms = 100\<rparr>"

text \<open>The two delegating constructors overwrite the replica list with the one given.\<close>

definition new_config_replicas ::
  "replica_info list \<Rightarrow> replica_info \<Rightarrow> node_kind \<Rightarrow> config_data \<Rightarrow> resdb_config" where
  "new_config_replicas reps self kind d = (new_config d self kind)\<lparr>cf_replicas := reps\<rparr>"

definition SetConfigData :: "resdb_config \<Rightarrow> config_data \<Rightarrow> resdb_config" where
  "SetConfigData c d =
     c\<lparr>cf_config_data := d\<lparr>cd_view_change_timeout_ms := or_default 60000 (cd_view_change_timeout_ms d)\<rparr>,
       cf_replicas := self_region_replicas (cd_self_region_id d) (cd_region d)\<rparr>"

section \<open>Quorum sizes\<close>

text \<open>\<open>int f = (replicas_.size() - 1) / 3\<close>: the subtraction and division are on \<open>size_t\<close>, the
  result is narrowed to a 32-bit \<open>int\<close>.\<close>

definition max_faulty :: "resdb_config \<Rightarrow> int" where
  "max_faulty c =
     sint (ucast ((of_nat (length (cf_replicas c)) - 1 :: uint64) div 3) :: uint32)"

definition GetMinDataReceiveNum :: "resdb_config \<Rightarrow> int" where
  "GetMinDataReceiveNum c = (let f = max_faulty c in max (i32 (2 * f + 1)) 1)"

definition GetMinClientReceiveNum :: "resdb_config \<Rightarrow> int" where
  "GetMinClientReceiveNum c = (let f = max_faulty c in max (i32 (f + 1)) 1)"

definition GetMinCheckpointReceiveNum :: "resdb_config \<Rightarrow> int" where
  "GetMinCheckpointReceiveNum c = (let f = max_faulty c in max (i32 (f + 1)) 1)"

definition GetMaxMaliciousReplicaNum :: "resdb_config \<Rightarrow> int" where
  "GetMaxMaliciousReplicaNum c = max (max_faulty c) 0"

definition GetReplicaNum :: "resdb_config \<Rightarrow> nat" where
  "GetReplicaNum c = length (cf_replicas c)"

section \<open>Tunables\<close>

definition IsPerformanceRunning :: "resdb_config \<Rightarrow> bool" where
  "IsPerformanceRunning c \<longleftrightarrow>
     cf_is_performance_running c \<or> cd_is_performance_running (cf_config_data c)"

definition GetMaxProcessTxn :: "resdb_config \<Rightarrow> uint32" where
  "GetMaxProcessTxn c =
     (if cd_max_process_txn (cf_config_data c) \<noteq> 0
      then word_of_int (cd_max_process_txn (cf_config_data c))
      else cf_max_process_txn c)"

definition SetMaxProcessTxn :: "resdb_config \<Rightarrow> uint32 \<Rightarrow> resdb_config" where
  "SetMaxProcessTxn c n =
     c\<lparr>cf_config_data := (cf_config_data c)\<lparr>cd_max_process_txn := sint n\<rparr>,
       cf_max_process_txn := n\<rparr>"

definition GetMaxClientComplaintNum :: "resdb_config \<Rightarrow> uint32" where
  "GetMaxClientComplaintNum c =
     (if cd_max_client_complaint_num (cf_config_data c) \<noteq> 0
      then word_of_int (cd_max_client_complaint_num (cf_config_data c)) else 10)"

definition ClientBatchNum :: "resdb_config \<Rightarrow> uint32" where
  "ClientBatchNum c = word_of_int (cd_client_batch_num (cf_config_data c))"

definition SetClientBatchNum :: "resdb_config \<Rightarrow> uint32 \<Rightarrow> resdb_config" where
  "SetClientBatchNum c n =
     c\<lparr>cf_config_data := (cf_config_data c)\<lparr>cd_client_batch_num := sint n\<rparr>\<rparr>"

definition GetViewchangeCommitTimeout :: "resdb_config \<Rightarrow> uint32" where
  "GetViewchangeCommitTimeout c =
     (if cd_view_change_timeout_ms (cf_config_data c) \<noteq> 0
      then word_of_int (cd_view_change_timeout_ms (cf_config_data c)) else 60000)"

definition SetViewchangeCommitTimeout :: "resdb_config \<Rightarrow> uint64 \<Rightarrow> resdb_config" where
  "SetViewchangeCommitTimeout c t =
     c\<lparr>cf_config_data := (cf_config_data c)\<lparr>cd_view_change_timeout_ms := sint (ucast t :: uint32)\<rparr>\<rparr>"

lemma GetMaxProcessTxn_Set: "GetMaxProcessTxn (SetMaxProcessTxn c n) = n"
  by (simp add: GetMaxProcessTxn_def SetMaxProcessTxn_def)

section \<open>What the sizes are\<close>

lemma max_faulty_eq:
  assumes "0 < length (cf_replicas c)" "length (cf_replicas c) < 2 ^ 31"
  shows "max_faulty c = int ((length (cf_replicas c) - 1) div 3)"
proof -
  let ?n = "length (cf_replicas c)"
  have u: "unat (of_nat ?n - 1 :: uint64) = ?n - 1"
    using assms by (subst unat_sub) (simp_all add: word_le_nat_alt unat_of_nat Suc_le_eq)
  have d: "unat ((of_nat ?n - 1 :: uint64) div 3) = (?n - 1) div 3"
    by (simp add: unat_div u)
  have "(?n - 1) div 3 < 2 ^ 31"
    using assms by linarith
  then have "uint (ucast ((of_nat ?n - 1 :: uint64) div 3) :: uint32) = int ((?n - 1) div 3)"
    by (simp add: unsigned_ucast_eq uint_nat d take_bit_nat_eq_self)
  with \<open>(?n - 1) div 3 < 2 ^ 31\<close> show ?thesis
    unfolding max_faulty_def by (simp add: sint_uint signed_take_bit_int_eq_self)
qed

text \<open>The region has \<open>3 f + 1\<close> replicas with distinct ids.\<close>

definition replica_ids :: "resdb_config \<Rightarrow> int set" where
  "replica_ids c = rep_id ` set (cf_replicas c)"

definition pbft_config :: "resdb_config \<Rightarrow> bool" where
  "pbft_config c \<longleftrightarrow>
     distinct (map rep_id (cf_replicas c)) \<and> length (cf_replicas c) < 2 ^ 30 \<and>
     length (cf_replicas c) mod 3 = 1"

lemma one_mod_three: "(n :: nat) mod 3 = 1 \<Longrightarrow> n = 3 * ((n - 1) div 3) + 1"
  by presburger

lemma pbft_config_bounds:
  assumes "pbft_config c"
  shows "0 < length (cf_replicas c)" "length (cf_replicas c) < 2 ^ 30"
  using assms by (cases "cf_replicas c"; simp add: pbft_config_def)+

lemma pbft_config_size:
  "pbft_config c \<Longrightarrow> length (cf_replicas c) = 3 * nat (GetMaxMaliciousReplicaNum c) + 1"
  "pbft_config c \<Longrightarrow> card (replica_ids c) = length (cf_replicas c)"
proof -
  assume c: "pbft_config c"
  from pbft_config_bounds [OF c] c show "length (cf_replicas c) = 3 * nat (GetMaxMaliciousReplicaNum c) + 1"
    using one_mod_three [of "length (cf_replicas c)"]
    by (simp add: GetMaxMaliciousReplicaNum_def max_faulty_eq pbft_config_def)
  from c show "card (replica_ids c) = length (cf_replicas c)"
    by (metis card_image distinct_card distinct_map length_map list.set_map pbft_config_def
        replica_ids_def)
qed

lemma quorum_sizes:
  assumes "0 < length (cf_replicas c)" "length (cf_replicas c) < 2 ^ 30"
  shows "GetMinDataReceiveNum c = 2 * GetMaxMaliciousReplicaNum c + 1"
    and "GetMinClientReceiveNum c = GetMaxMaliciousReplicaNum c + 1"
    and "GetMinCheckpointReceiveNum c = GetMaxMaliciousReplicaNum c + 1"
    and "0 \<le> GetMaxMaliciousReplicaNum c"
  using assms
  by (simp_all add: GetMinDataReceiveNum_def GetMinClientReceiveNum_def
      GetMinCheckpointReceiveNum_def GetMaxMaliciousReplicaNum_def max_faulty_eq Let_def)

section \<open>What the sizes guarantee\<close>

locale byzantine_quorums =
  fixes ok :: "'c \<Rightarrow> bool"
    and nodes :: "'c \<Rightarrow> 'n set"
    and faults :: "'c \<Rightarrow> nat"
    and quorum :: "'c \<Rightarrow> 'n set \<Rightarrow> bool"
  assumes finite_nodes: "ok c \<Longrightarrow> finite (nodes c)"
    and quorum_nodes: "quorum c Q \<Longrightarrow> Q \<subseteq> nodes c"
    and quorum_meet: "ok c \<Longrightarrow> quorum c P \<Longrightarrow> quorum c Q \<Longrightarrow> faults c < card (P \<inter> Q)"
    and quorum_honest: "ok c \<Longrightarrow> B \<subseteq> nodes c \<Longrightarrow> card B \<le> faults c \<Longrightarrow> quorum c (nodes c - B)"
begin

lemma common_honest:
  assumes "ok c" "quorum c P" "quorum c Q" "B \<subseteq> nodes c" "card B \<le> faults c"
  shows "\<exists>r \<in> P \<inter> Q. r \<notin> B"
proof (rule ccontr)
  assume "\<not> ?thesis"
  then have "P \<inter> Q \<subseteq> B" by blast
  moreover have "finite B"
    using assms(1,4) finite_nodes finite_subset by blast
  ultimately have "card (P \<inter> Q) \<le> card B"
    by (simp add: card_mono)
  with quorum_meet [OF assms(1-3)] assms(5) show False by simp
qed

text \<open>Two certificates cast by quorums, of which every honest voter votes once, agree.\<close>

lemma certificates_agree:
  assumes "ok c" "quorum c P" "quorum c Q" "B \<subseteq> nodes c" "card B \<le> faults c"
    and "\<And>r. r \<in> P \<Longrightarrow> r \<notin> B \<Longrightarrow> voted r x" "\<And>r. r \<in> Q \<Longrightarrow> r \<notin> B \<Longrightarrow> voted r y"
    and "\<And>r x y. r \<notin> B \<Longrightarrow> voted r x \<Longrightarrow> voted r y \<Longrightarrow> x = y"
  shows "x = y"
  using common_honest [OF assms(1-5)] assms(6-8) by blast

end

definition data_quorum :: "resdb_config \<Rightarrow> int set \<Rightarrow> bool" where
  "data_quorum c Q \<longleftrightarrow> Q \<subseteq> replica_ids c \<and> GetMinDataReceiveNum c \<le> int (card Q)"

lemma finite_replica_ids [simp]: "finite (replica_ids c)"
  by (simp add: replica_ids_def)

lemma data_quorum_card:
  assumes "pbft_config c" "data_quorum c Q"
  shows "2 * nat (GetMaxMaliciousReplicaNum c) + 1 \<le> card Q"
  using quorum_sizes [OF pbft_config_bounds [OF assms(1)]] assms(2)
  unfolding data_quorum_def by linarith

lemma data_quorum_meet:
  assumes c: "pbft_config c" and P: "data_quorum c P" and Q: "data_quorum c Q"
  shows "nat (GetMaxMaliciousReplicaNum c) < card (P \<inter> Q)"
proof -
  from P Q have sub: "P \<union> Q \<subseteq> replica_ids c" and fin: "finite P" "finite Q"
    by (auto simp: data_quorum_def intro: finite_subset)
  have "card P + card Q = card (P \<union> Q) + card (P \<inter> Q)"
    using fin by (rule card_Un_Int)
  moreover have "card (P \<union> Q) \<le> card (replica_ids c)"
    using sub by (simp add: card_mono)
  ultimately show ?thesis
    using data_quorum_card [OF c P] data_quorum_card [OF c Q] pbft_config_size [OF c] by linarith
qed

lemma data_quorum_honest:
  assumes c: "pbft_config c" and B: "B \<subseteq> replica_ids c" "card B \<le> nat (GetMaxMaliciousReplicaNum c)"
  shows "data_quorum c (replica_ids c - B)"
proof -
  from B have "card (replica_ids c - B) = card (replica_ids c) - card B"
    by (intro card_Diff_subset) (auto intro: finite_subset)
  then have "2 * nat (GetMaxMaliciousReplicaNum c) + 1 \<le> card (replica_ids c - B)"
    using B(2) pbft_config_size [OF c] by linarith
  then show ?thesis
    using quorum_sizes [OF pbft_config_bounds [OF c]] by (auto simp: data_quorum_def)
qed

interpretation pbft_quorums: byzantine_quorums pbft_config replica_ids
    "\<lambda>c. nat (GetMaxMaliciousReplicaNum c)" data_quorum
  by unfold_locales
    (simp_all add: data_quorum_meet data_quorum_honest, simp add: data_quorum_def)

section \<open>Properties\<close>

text \<open>C35: with \<open>3 f + 1\<close> replicas any two sets of \<open>GetMinDataReceiveNum\<close> replicas share more than
  \<open>f\<close> members, so for at most \<open>f\<close> faulty replicas a correct one is in both.\<close>

theorem data_quorums_share_honest:
  assumes "pbft_config c" "data_quorum c P" "data_quorum c Q"
    and "B \<subseteq> replica_ids c" "int (card B) \<le> GetMaxMaliciousReplicaNum c"
  shows "\<exists>r \<in> P \<inter> Q. r \<notin> B"
  using assms by (intro pbft_quorums.common_honest) auto

definition demo_config :: "int list \<Rightarrow> resdb_config" where
  "demo_config ids =
     \<lparr>cf_config_data = \<lparr>cd_region = [], cd_self_region_id = 0, cd_enable_viewchange = True,
        cd_view_change_timeout_ms = 0, cd_not_need_signature = False,
        cd_is_performance_running = False, cd_max_process_txn = 0, cd_client_batch_num = 100,
        cd_worker_num = 1, cd_input_worker_num = 1, cd_output_worker_num = 1, cd_tcp_batch_num = 1,
        cd_recovery_enabled = True, cd_max_client_complaint_num = 0,
        cd_duplicate_check_frequency_useconds = 0\<rparr>,
      cf_replicas = map (\<lambda>i. \<lparr>rep_id = i, rep_ip = ''ip'', rep_port = 1\<rparr>) ids,
      cf_self_info = \<lparr>rep_id = 1, rep_ip = ''ip'', rep_port = 1\<rparr>, cf_node_kind = REPLICA,
      cf_checkpoint_water_mark = 5, cf_is_enable_checkpoint = True,
      cf_signature_verifier_enabled = True, cf_is_performance_running = False,
      cf_is_test_mode = False, cf_max_process_txn = 2, cf_client_batch_wait_time_ms = 100\<rparr>"

lemma demo_config_4:
  "pbft_config (demo_config [1, 2, 3, 4])" "replica_ids (demo_config [1, 2, 3, 4]) = {1, 2, 3, 4}"
  "GetMinDataReceiveNum (demo_config [1, 2, 3, 4]) = 3" "GetMaxMaliciousReplicaNum (demo_config [1, 2, 3, 4]) = 1"
  by (simp_all add: pbft_config_def demo_config_def replica_ids_def GetMinDataReceiveNum_def
      GetMaxMaliciousReplicaNum_def max_faulty_eq)

theorem data_quorums_share_honest_witness:
  "\<exists>r \<in> {1, 2, 3} \<inter> {2, 3, 4}. r \<notin> {2 :: int}"
  using data_quorums_share_honest [of "demo_config [1, 2, 3, 4]" "{1, 2, 3}" "{2, 3, 4}" "{2}"]
  by (simp add: demo_config_4 data_quorum_def)

text \<open>The quorum size does not give intersection for every replica count: six replicas
  tolerate \<open>f = 1\<close> by the code's arithmetic, and two disjoint sets of replicas both reach
  \<open>GetMinDataReceiveNum\<close>.\<close>

theorem disjoint_data_quorums_of_six:
  "GetReplicaNum (demo_config [1, 2, 3, 4, 5, 6]) \<ge> 3 * nat (GetMaxMaliciousReplicaNum (demo_config [1, 2, 3, 4, 5, 6])) + 1
   \<and> GetMaxMaliciousReplicaNum (demo_config [1, 2, 3, 4, 5, 6]) = 1
   \<and> data_quorum (demo_config [1, 2, 3, 4, 5, 6]) {1, 2, 3} \<and> data_quorum (demo_config [1, 2, 3, 4, 5, 6]) {4, 5, 6}
   \<and> {1, 2, 3} \<inter> {4, 5, 6 :: int} = {}"
proof -
  have "max_faulty (demo_config [1, 2, 3, 4, 5, 6]) = 1"
    by (subst max_faulty_eq) (simp_all add: demo_config_def)
  moreover have "replica_ids (demo_config [1, 2, 3, 4, 5, 6]) = {1, 2, 3, 4, 5, 6}"
    by (simp add: demo_config_def replica_ids_def)
  moreover have "GetReplicaNum (demo_config [1, 2, 3, 4, 5, 6]) = 6"
    by (simp add: GetReplicaNum_def demo_config_def)
  ultimately show ?thesis
    by (simp add: data_quorum_def GetMinDataReceiveNum_def GetMaxMaliciousReplicaNum_def)
qed

end
