(* ===== verification/Executor.thy ===== *)
theory Executor
  imports Config
begin

text \<open>
  \<open>TransactionManager\<close> (executor/common/transaction_manager.cpp), \<open>DuplicateManager\<close>
  (platform/consensus/execution/duplicate_manager.cpp) and \<open>TransactionExecutor\<close>
  (platform/consensus/execution/transaction_executor.cpp). The three threads of the executor are
  the three step functions \<open>OrderMessage_step\<close>, \<open>ExecuteMessage_step\<close> and
  \<open>ExecuteMessageOutOfOrder_step\<close>, one per iteration of the thread's loop; a queue whose \<open>Pop\<close>
  times out is the empty list. The virtual \<open>ExecuteData\<close> of the transaction manager and the codec
  of \<open>BatchUserRequest\<close> are arguments.
\<close>

section \<open>The transaction manager\<close>

record 's txn_manager =
  tm_is_out_of_order :: bool
  tm_need_response :: bool
  tm_ExecuteData :: "string \<Rightarrow> 's \<Rightarrow> string option \<times> 's"

definition base_ExecuteData :: "string \<Rightarrow> 's \<Rightarrow> string option \<times> 's" where
  "base_ExecuteData request s = (Some [], s)"

fun ExecuteBatch_loop ::
  "(string \<Rightarrow> 's \<Rightarrow> string option \<times> 's) \<Rightarrow> user_request list \<Rightarrow> 's \<Rightarrow> string list \<times> 's" where
  "ExecuteBatch_loop ExecuteData [] s = ([], s)"
| "ExecuteBatch_loop ExecuteData (u # us) s =
     (let (response, s1) = ExecuteData (rq_data (ur_request u)) s;
          (rest, s2) = ExecuteBatch_loop ExecuteData us s1
      in ((case response of None \<Rightarrow> [] | Some r \<Rightarrow> r) # rest, s2))"

definition ExecuteBatch ::
  "(string \<Rightarrow> 's \<Rightarrow> string option \<times> 's) \<Rightarrow> batch_user_request \<Rightarrow> 's \<Rightarrow> batch_user_response \<times> 's" where
  "ExecuteBatch ExecuteData request s =
     (let (rs, s1) = ExecuteBatch_loop ExecuteData (br_user_requests request) s
      in (empty_response\<lparr>rs_response := rs\<rparr>, s1))"

section \<open>The duplicate manager\<close>

record duplicate_manager =
  dm_proposed_hash_set :: "string set"
  dm_executed_hash_set :: "string set"
  dm_proposed_queue :: "(string \<times> uint64) list"
  dm_executed_queue :: "(string \<times> uint64) list"
  dm_executed_hash_seq :: "string \<rightharpoonup> uint64"
  dm_frequency_useconds :: uint64
  dm_window_useconds :: uint64

definition new_duplicate_manager :: "int \<Rightarrow> duplicate_manager" where
  "new_duplicate_manager duplicate_check_frequency_useconds =
     \<lparr>dm_proposed_hash_set = {}, dm_executed_hash_set = {}, dm_proposed_queue = [],
      dm_executed_queue = [], dm_executed_hash_seq = Map.empty,
      dm_frequency_useconds =
        (if duplicate_check_frequency_useconds > 0 then of_int duplicate_check_frequency_useconds else 5000000),
      dm_window_useconds = 20000000\<rparr>"

definition CheckIfProposed :: "string \<Rightarrow> duplicate_manager \<Rightarrow> bool" where
  "CheckIfProposed hash d = (hash \<in> dm_proposed_hash_set d)"

definition CheckIfExecuted :: "string \<Rightarrow> duplicate_manager \<Rightarrow> uint64" where
  "CheckIfExecuted hash d =
     (if hash \<in> dm_executed_hash_set d
      then (case dm_executed_hash_seq d hash of None \<Rightarrow> 0 | Some s \<Rightarrow> s) else 0)"

definition AddProposed :: "string \<Rightarrow> uint64 \<Rightarrow> duplicate_manager \<Rightarrow> duplicate_manager" where
  "AddProposed hash now d =
     d\<lparr>dm_proposed_queue := dm_proposed_queue d @ [(hash, now)],
       dm_proposed_hash_set := insert hash (dm_proposed_hash_set d)\<rparr>"

definition AddExecuted :: "string \<Rightarrow> uint64 \<Rightarrow> uint64 \<Rightarrow> duplicate_manager \<Rightarrow> duplicate_manager" where
  "AddExecuted hash seq now d =
     d\<lparr>dm_executed_queue := dm_executed_queue d @ [(hash, now)],
       dm_executed_hash_set := insert hash (dm_executed_hash_set d),
       dm_executed_hash_seq := (dm_executed_hash_seq d)(hash \<mapsto> seq)\<rparr>"

definition CheckAndAddProposed :: "string \<Rightarrow> uint64 \<Rightarrow> duplicate_manager \<Rightarrow> bool \<times> duplicate_manager" where
  "CheckAndAddProposed hash now d =
     (if hash \<in> dm_proposed_hash_set d then (True, d) else (False, AddProposed hash now d))"

definition CheckAndAddExecuted ::
  "string \<Rightarrow> uint64 \<Rightarrow> uint64 \<Rightarrow> duplicate_manager \<Rightarrow> bool \<times> duplicate_manager" where
  "CheckAndAddExecuted hash seq now d =
     (if hash \<in> dm_executed_hash_set d then (True, d) else (False, AddExecuted hash seq now d))"

definition EraseProposed :: "string \<Rightarrow> duplicate_manager \<Rightarrow> duplicate_manager" where
  "EraseProposed hash d = d\<lparr>dm_proposed_hash_set := dm_proposed_hash_set d - {hash}\<rparr>"

definition EraseExecuted :: "string \<Rightarrow> duplicate_manager \<Rightarrow> duplicate_manager" where
  "EraseExecuted hash d =
     d\<lparr>dm_executed_hash_set := dm_executed_hash_set d - {hash},
       dm_executed_hash_seq := (dm_executed_hash_seq d)(hash := None)\<rparr>"

text \<open>The two inner loops of \<open>UpdateRecentHash\<close>, and one iteration of the outer one at \<open>time\<close>.\<close>

fun expire_proposed :: "uint64 \<Rightarrow> uint64 \<Rightarrow> (string \<times> uint64) list \<Rightarrow> string set \<Rightarrow> (string \<times> uint64) list \<times> string set" where
  "expire_proposed window time [] hs = ([], hs)"
| "expire_proposed window time ((h, t) # q) hs =
     (if t + window < time then expire_proposed window time q (hs - {h}) else ((h, t) # q, hs))"

fun expire_executed ::
  "uint64 \<Rightarrow> uint64 \<Rightarrow> (string \<times> uint64) list \<Rightarrow> string set \<Rightarrow> (string \<rightharpoonup> uint64)
     \<Rightarrow> (string \<times> uint64) list \<times> string set \<times> (string \<rightharpoonup> uint64)" where
  "expire_executed window time [] hs sq = ([], hs, sq)"
| "expire_executed window time ((h, t) # q) hs sq =
     (if t + window < time then expire_executed window time q (hs - {h}) (sq(h := None))
      else ((h, t) # q, hs, sq))"

definition UpdateRecentHash_step :: "uint64 \<Rightarrow> duplicate_manager \<Rightarrow> duplicate_manager" where
  "UpdateRecentHash_step time d =
     (let (pq, ps) = expire_proposed (dm_window_useconds d) time (dm_proposed_queue d) (dm_proposed_hash_set d);
          (eq, es, sq) = expire_executed (dm_window_useconds d) time (dm_executed_queue d)
                           (dm_executed_hash_set d) (dm_executed_hash_seq d)
      in d\<lparr>dm_proposed_queue := pq, dm_proposed_hash_set := ps, dm_executed_queue := eq,
           dm_executed_hash_set := es, dm_executed_hash_seq := sq\<rparr>)"

section \<open>The executor\<close>

record 's executor =
  te_next_execute_seq :: uint64
  te_candidates :: "(uint64, request) std_map"
  te_commit_queue :: "request list"
  te_execute_queue :: "request list"
  te_execute_OOO_queue :: "request list"
  te_manager :: "'s txn_manager option"
  te_db :: 's
  te_duplicate_manager :: "duplicate_manager option"

definition new_executor :: "'s txn_manager option \<Rightarrow> 's \<Rightarrow> 's executor" where
  "new_executor tm db =
     \<lparr>te_next_execute_seq = 1, te_candidates = [], te_commit_queue = [], te_execute_queue = [],
      te_execute_OOO_queue = [], te_manager = tm, te_db = db, te_duplicate_manager = None\<rparr>"

definition is_out_of_order :: "'s executor \<Rightarrow> bool" where
  "is_out_of_order e = (case te_manager e of None \<Rightarrow> False | Some tm \<Rightarrow> tm_is_out_of_order tm)"

definition NeedResponse :: "'s executor \<Rightarrow> bool" where
  "NeedResponse e = (case te_manager e of None \<Rightarrow> True | Some tm \<Rightarrow> tm_need_response tm)"

definition GetMaxPendingExecutedSeq :: "'s executor \<Rightarrow> uint64" where
  "GetMaxPendingExecutedSeq e = te_next_execute_seq e - 1"

definition SetDuplicateManager :: "duplicate_manager \<Rightarrow> 's executor \<Rightarrow> 's executor" where
  "SetDuplicateManager d e = e\<lparr>te_duplicate_manager := Some d\<rparr>"

definition executor_Commit :: "request \<Rightarrow> 's executor \<Rightarrow> 's executor" where
  "executor_Commit message e =
     (if is_out_of_order e
      then e\<lparr>te_execute_OOO_queue := te_execute_OOO_queue e @ [message],
             te_commit_queue := te_commit_queue e @ [message]\<rparr>
      else e\<lparr>te_commit_queue := te_commit_queue e @ [message]\<rparr>)"

definition AddNewData :: "request \<Rightarrow> 's executor \<Rightarrow> 's executor" where
  "AddNewData message e = e\<lparr>te_candidates := sm_insert (rq_seq message) message (te_candidates e)\<rparr>"

text \<open>\<open>pre\<close> is the effect of \<open>pre_exec_func_\<close> on the request, if one is set.\<close>

definition GetNextData :: "(request \<Rightarrow> request) option \<Rightarrow> 's executor \<Rightarrow> request option \<times> 's executor" where
  "GetNextData pre e =
     (case te_candidates e of
        [] \<Rightarrow> (None, e)
      | (k, m) # cs \<Rightarrow>
          if k \<noteq> te_next_execute_seq e then (None, e)
          else (Some (case pre of None \<Rightarrow> m | Some f \<Rightarrow> f m), e\<lparr>te_candidates := cs\<rparr>))"

text \<open>The inner loop of \<open>OrderMessage\<close>; the list holds the arguments of \<open>seq_update_notify_func_\<close>.\<close>

function order_loop :: "(request \<Rightarrow> request) option \<Rightarrow> 's executor \<Rightarrow> 's executor \<times> uint64 list" where
  "order_loop pre e =
     (case GetNextData pre e of
        (None, _) \<Rightarrow> (e, [])
      | (Some m, e1) \<Rightarrow>
          let e2 = e1\<lparr>te_execute_queue := te_execute_queue e1 @ [m],
                      te_next_execute_seq := te_next_execute_seq e1 + 1\<rparr>;
              (e3, notes) = order_loop pre e2
          in (e3, te_next_execute_seq e2 # notes))"
  by pat_completeness auto
termination
  by (relation "measure (\<lambda>(_, e). length (te_candidates e))")
    (auto simp: GetNextData_def split: list.splits if_splits)

definition OrderMessage_step :: "(request \<Rightarrow> request) option \<Rightarrow> 's executor \<Rightarrow> 's executor \<times> uint64 list" where
  "OrderMessage_step pre e =
     (case te_commit_queue e of
        [] \<Rightarrow> order_loop pre e
      | message # q \<Rightarrow>
          let e1 = e\<lparr>te_commit_queue := q\<rparr>
          in if te_next_execute_seq e1 > rq_seq message then (e1, [])
             else order_loop pre (AddNewData message e1))"

text \<open>\<open>parse\<close> is the message \<open>ParseFromString\<close> leaves behind; its result is only logged.\<close>

definition batch_of :: "(string \<Rightarrow> batch_user_request) \<Rightarrow> request \<Rightarrow> batch_user_request" where
  "batch_of parse request =
     (let b = (parse (rq_data request))\<lparr>br_seq := rq_seq request, br_hash := rq_hash request,
                                       br_proxy_id := i32 (rq_proxy_id request)\<rparr>
      in case rq_committed_certs request of None \<Rightarrow> b | Some cs \<Rightarrow> b\<lparr>br_committed_certs := Some cs\<rparr>)"

definition Execute ::
  "(string \<Rightarrow> batch_user_request) \<Rightarrow> uint64 \<Rightarrow> request \<Rightarrow> bool \<Rightarrow> 's executor
     \<Rightarrow> 's executor \<times> (request \<times> batch_user_response)" where
  "Execute parse now request need_execute e =
     (let batch = batch_of parse request;
          (response, db) = (case te_manager e of
             Some tm \<Rightarrow> if need_execute then ExecuteBatch (tm_ExecuteData tm) batch (te_db e)
                        else (empty_response, te_db e)
           | None \<Rightarrow> (empty_response, te_db e));
          dm = map_option (AddExecuted (br_hash batch) (br_seq batch) now) (te_duplicate_manager e)
      in (e\<lparr>te_db := db, te_duplicate_manager := dm\<rparr>,
          (request, response\<lparr>rs_proxy_id := br_proxy_id batch, rs_createtime := br_createtime batch,
                             rs_local_id := br_local_id batch, rs_hash := br_hash batch\<rparr>)))"

definition OnlyExecute :: "(string \<Rightarrow> batch_user_request) \<Rightarrow> request \<Rightarrow> 's executor \<Rightarrow> 's executor" where
  "OnlyExecute parse request e =
     (case te_manager e of
        None \<Rightarrow> e
      | Some tm \<Rightarrow> e\<lparr>te_db := snd (ExecuteBatch (tm_ExecuteData tm) (batch_of parse request) (te_db e))\<rparr>)"

definition ExecuteMessage_step ::
  "(string \<Rightarrow> batch_user_request) \<Rightarrow> uint64 \<Rightarrow> 's executor
     \<Rightarrow> 's executor \<times> (request \<times> batch_user_response) option" where
  "ExecuteMessage_step parse now e =
     (case te_execute_queue e of
        [] \<Rightarrow> (e, None)
      | message # q \<Rightarrow>
          let (e1, r) = Execute parse now message (\<not> is_out_of_order e) (e\<lparr>te_execute_queue := q\<rparr>)
          in (e1, Some r))"

definition ExecuteMessageOutOfOrder_step :: "(string \<Rightarrow> batch_user_request) \<Rightarrow> 's executor \<Rightarrow> 's executor" where
  "ExecuteMessageOutOfOrder_step parse e =
     (case te_execute_OOO_queue e of
        [] \<Rightarrow> e
      | message # q \<Rightarrow> OnlyExecute parse message (e\<lparr>te_execute_OOO_queue := q\<rparr>))"

section \<open>The contract between a transaction manager and the executor\<close>

text \<open>
  A transaction manager keeps an invariant \<open>ok\<close> of its state in \<open>ExecuteData\<close>; then batches and the
  executor's threads keep it. The index stands for the arguments of the manager (codecs, storage).
\<close>

locale txn_interface =
  fixes ok :: "'k \<Rightarrow> 's \<Rightarrow> bool" and ExecuteData :: "'k \<Rightarrow> string \<Rightarrow> 's \<Rightarrow> string option \<times> 's"
  assumes ExecuteData_ok: "ok k s \<Longrightarrow> ok k (snd (ExecuteData k d s))"
begin

lemma ExecuteBatch_loop_ok:
  "ok k s \<Longrightarrow> ok k (snd (ExecuteBatch_loop (ExecuteData k) us s)) \<and>
     length (fst (ExecuteBatch_loop (ExecuteData k) us s)) = length us"
proof (induction us arbitrary: s)
  case (Cons u us)
  obtain r s1 where e: "ExecuteData k (rq_data (ur_request u)) s = (r, s1)" by fastforce
  have "ok k s1" using ExecuteData_ok [OF Cons.prems, of "rq_data (ur_request u)"] e by simp
  then show ?case using Cons.IH [of s1] e by (auto split: prod.splits)
qed simp

lemma ExecuteBatch_ok:
  "ok k s \<Longrightarrow> ok k (snd (ExecuteBatch (ExecuteData k) b s)) \<and>
     length (rs_response (fst (ExecuteBatch (ExecuteData k) b s))) = length (br_user_requests b)"
  using ExecuteBatch_loop_ok [of k s "br_user_requests b"]
  by (auto simp: ExecuteBatch_def split: prod.splits)

lemma Execute_ok:
  assumes "ok k (te_db e)" "te_manager e = Some tm" "tm_ExecuteData tm = ExecuteData k"
    "Execute parse now request need_execute e = (e', out)"
  shows "ok k (te_db e') \<and> te_manager e' = te_manager e"
  using assms ExecuteBatch_ok [OF assms(1), of "batch_of parse request"]
  by (auto simp: Execute_def Let_def split: prod.splits if_splits)

lemma OnlyExecute_ok:
  assumes "ok k (te_db e)" "te_manager e = Some tm" "tm_ExecuteData tm = ExecuteData k"
  shows "ok k (te_db (OnlyExecute parse request e))"
  using assms ExecuteBatch_ok [OF assms(1), of "batch_of parse request"] by (simp add: OnlyExecute_def)

end

end
