(* ===== verification/Storage.thy ===== *)
theory Storage
  imports Std_Map "HOL-Library.Char_ord" "HOL-Library.List_Lexorder"
begin

text \<open>
  The storage layer (chain/storage): the virtual interface \<open>Storage\<close> as a record of operations, its
  two implementations \<open>MemoryDB\<close> (memory_db.cpp) and \<open>ResLevelDB\<close> (leveldb.cpp), and \<open>ChainState\<close>
  without its request type. The order in which an \<open>unordered_map\<close> is iterated, the LevelDB library
  and the codec of \<open>ValueHistory\<close> are arguments; \<open>leveldb_ok\<close> and \<open>history_codec_ok\<close> state their
  documented behaviour. The locale \<open>versioned_store\<close> is the contract of the versioned interface;
  both implementations interpret it.
\<close>

type_synonym versions = "(string \<times> int) list"

section \<open>The interface\<close>

record 's storage_ops =
  st_SetValue :: "string \<Rightarrow> string \<Rightarrow> 's \<Rightarrow> int \<times> 's"
  st_GetValue :: "string \<Rightarrow> 's \<Rightarrow> string"
  st_GetAllValues :: "'s \<Rightarrow> string"
  st_GetRange :: "string \<Rightarrow> string \<Rightarrow> 's \<Rightarrow> string"
  st_SetValueWithVersion :: "string \<Rightarrow> string \<Rightarrow> int \<Rightarrow> 's \<Rightarrow> int \<times> 's"
  st_GetValueWithVersion :: "string \<Rightarrow> int \<Rightarrow> 's \<Rightarrow> string \<times> int"
  st_GetAllItems :: "'s \<Rightarrow> (string, string \<times> int) std_map"
  st_GetKeyRange :: "string \<Rightarrow> string \<Rightarrow> 's \<Rightarrow> (string, string \<times> int) std_map"
  st_GetHistory :: "string \<Rightarrow> int \<Rightarrow> int \<Rightarrow> 's \<Rightarrow> versions"
  st_GetTopHistory :: "string \<Rightarrow> int \<Rightarrow> 's \<Rightarrow> versions"

text \<open>The loop that joins values into \<open>[v1,v2,...]\<close>.\<close>

fun append_values :: "bool \<Rightarrow> string list \<Rightarrow> string" where
  "append_values first [] = '']''"
| "append_values first (v # vs) = (if first then [] else '','') @ v @ append_values False vs"

definition values_string :: "string list \<Rightarrow> string" where
  "values_string vs = ''['' @ append_values True vs"

text \<open>The backward searches through a version list, on the reversed list.\<close>

fun find_version :: "int \<Rightarrow> versions \<Rightarrow> (string \<times> int) option" where
  "find_version version [] = None"
| "find_version version ((v, n) # r) =
     (if n = version then Some (v, n) else if n < version then None else find_version version r)"

fun history_loop :: "int \<Rightarrow> int \<Rightarrow> versions \<Rightarrow> versions" where
  "history_loop min_version max_version [] = []"
| "history_loop min_version max_version ((v, n) # r) =
     (if n < min_version then []
      else (if n \<le> max_version then [(v, n)] else []) @ history_loop min_version max_version r)"

section \<open>MemoryDB\<close>

record memory_db =
  md_kv_map :: "(string, string) std_map"
  md_kv_map_with_v :: "(string, versions) std_map"

definition new_memory_db :: memory_db where
  "new_memory_db = \<lparr>md_kv_map = [], md_kv_map_with_v = []\<rparr>"

text \<open>\<open>ord\<close> is the iteration order of \<open>std::unordered_map\<close>.\<close>

type_synonym iter_order = "(string \<times> string) list \<Rightarrow> (string \<times> string) list"

definition mdb_SetValue :: "string \<Rightarrow> string \<Rightarrow> memory_db \<Rightarrow> int \<times> memory_db" where
  "mdb_SetValue key value d = (0, d\<lparr>md_kv_map := sm_put key value (md_kv_map d)\<rparr>)"

definition mdb_GetAllValues :: "iter_order \<Rightarrow> memory_db \<Rightarrow> string" where
  "mdb_GetAllValues ord d = values_string (map snd (ord (md_kv_map d)))"

definition mdb_GetRange :: "iter_order \<Rightarrow> string \<Rightarrow> string \<Rightarrow> memory_db \<Rightarrow> string" where
  "mdb_GetRange ord min_key max_key d =
     values_string (map snd (filter (\<lambda>kv. min_key \<le> fst kv \<and> fst kv \<le> max_key) (ord (md_kv_map d))))"

definition mdb_GetValue :: "string \<Rightarrow> memory_db \<Rightarrow> string" where
  "mdb_GetValue key d = (case sm_find key (md_kv_map d) of Some v \<Rightarrow> v | None \<Rightarrow> [])"

definition mdb_SetValueWithVersion :: "string \<Rightarrow> string \<Rightarrow> int \<Rightarrow> memory_db \<Rightarrow> int \<times> memory_db" where
  "mdb_SetValueWithVersion key value version d =
     (let it = sm_find key (md_kv_map_with_v d)
      in if (it = None \<and> version \<noteq> 0) \<or> (it \<noteq> None \<and> snd (last (the it)) \<noteq> version) then (-2, d)
         else (0, d\<lparr>md_kv_map_with_v :=
                sm_put key (sm_get [] key (md_kv_map_with_v d) @ [(value, i32 (version + 1))])
                  (md_kv_map_with_v d)\<rparr>))"

definition mdb_GetValueWithVersion :: "string \<Rightarrow> int \<Rightarrow> memory_db \<Rightarrow> string \<times> int" where
  "mdb_GetValueWithVersion key version d =
     (case sm_find key (md_kv_map_with_v d) of
        None \<Rightarrow> ([], 0)
      | Some h \<Rightarrow> if h = [] then ([], 0)
                  else (case find_version version (rev h) of Some x \<Rightarrow> x | None \<Rightarrow> last h))"

definition mdb_GetAllItems :: "memory_db \<Rightarrow> (string, string \<times> int) std_map" where
  "mdb_GetAllItems d = map (\<lambda>(k, h). (k, last h)) (md_kv_map_with_v d)"

definition mdb_GetKeyRange :: "string \<Rightarrow> string \<Rightarrow> memory_db \<Rightarrow> (string, string \<times> int) std_map" where
  "mdb_GetKeyRange min_key max_key d =
     map (\<lambda>(k, h). (k, last h))
       (filter (\<lambda>kv. min_key \<le> fst kv \<and> fst kv \<le> max_key) (md_kv_map_with_v d))"

definition mdb_GetHistory :: "string \<Rightarrow> int \<Rightarrow> int \<Rightarrow> memory_db \<Rightarrow> versions" where
  "mdb_GetHistory key min_version max_version d =
     (case sm_find key (md_kv_map_with_v d) of
        None \<Rightarrow> []
      | Some h \<Rightarrow> history_loop min_version max_version (rev h))"

fun mdb_top_loop :: "nat \<Rightarrow> nat \<Rightarrow> versions \<Rightarrow> versions" where
  "mdb_top_loop limit n [] = []"
| "mdb_top_loop limit n (x # r) = x # (if limit \<le> Suc n then [] else mdb_top_loop limit (Suc n) r)"

definition mdb_GetTopHistory :: "string \<Rightarrow> int \<Rightarrow> memory_db \<Rightarrow> versions" where
  "mdb_GetTopHistory key top_number d =
     (case sm_find key (md_kv_map_with_v d) of
        None \<Rightarrow> []
      | Some h \<Rightarrow> mdb_top_loop (unat (of_int top_number :: uint64)) 0 (rev h))"

definition memory_storage :: "iter_order \<Rightarrow> memory_db storage_ops" where
  "memory_storage ord =
     \<lparr>st_SetValue = mdb_SetValue, st_GetValue = mdb_GetValue, st_GetAllValues = mdb_GetAllValues ord,
      st_GetRange = mdb_GetRange ord, st_SetValueWithVersion = mdb_SetValueWithVersion,
      st_GetValueWithVersion = mdb_GetValueWithVersion, st_GetAllItems = mdb_GetAllItems,
      st_GetKeyRange = mdb_GetKeyRange, st_GetHistory = mdb_GetHistory,
      st_GetTopHistory = mdb_GetTopHistory\<rparr>"

section \<open>ResLevelDB\<close>

text \<open>
  The LevelDB library: \<open>Get\<close> (\<open>None\<close> is a status other than ok), \<open>Write\<close> of a batch, the entries an
  iterator visits from a key on, and \<open>WriteBatch::ApproximateSize\<close>.
\<close>

record 'd leveldb =
  ld_Get :: "'d \<Rightarrow> string \<Rightarrow> string option"
  ld_Write :: "'d \<Rightarrow> (string \<times> string) list \<Rightarrow> 'd option"
  ld_SeekToFirst :: "'d \<Rightarrow> (string \<times> string) list"
  ld_Seek :: "'d \<Rightarrow> string \<Rightarrow> (string \<times> string) list"
  ld_ApproximateSize :: "(string \<times> string) list \<Rightarrow> nat"

record history_codec =
  hc_Parse :: "string \<Rightarrow> versions option"
  hc_Serialize :: "versions \<Rightarrow> string"

record 'd res_leveldb =
  rl_db :: 'd
  rl_batch :: "(string \<times> string) list"
  rl_write_batch_size :: uint32

definition rldb_SetValue :: "'d leveldb \<Rightarrow> string \<Rightarrow> string \<Rightarrow> 'd res_leveldb \<Rightarrow> int \<times> 'd res_leveldb" where
  "rldb_SetValue L key value s =
     (let s1 = s\<lparr>rl_batch := rl_batch s @ [(key, value)]\<rparr>
      in if unat (rl_write_batch_size s1) \<le> ld_ApproximateSize L (rl_batch s1)
         then case ld_Write L (rl_db s1) (rl_batch s1) of
                Some db \<Rightarrow> (0, s1\<lparr>rl_db := db, rl_batch := []\<rparr>)
              | None \<Rightarrow> (-1, s1)
         else (0, s1))"

definition rldb_Flush :: "'d leveldb \<Rightarrow> 'd res_leveldb \<Rightarrow> bool \<times> 'd res_leveldb" where
  "rldb_Flush L s =
     (case ld_Write L (rl_db s) (rl_batch s) of
        Some db \<Rightarrow> (True, s\<lparr>rl_db := db, rl_batch := []\<rparr>)
      | None \<Rightarrow> (False, s))"

definition rldb_GetValue :: "'d leveldb \<Rightarrow> string \<Rightarrow> 'd res_leveldb \<Rightarrow> string" where
  "rldb_GetValue L key s = (case ld_Get L (rl_db s) key of Some v \<Rightarrow> v | None \<Rightarrow> [])"

definition rldb_GetAllValues :: "'d leveldb \<Rightarrow> 'd res_leveldb \<Rightarrow> string" where
  "rldb_GetAllValues L s = values_string (map snd (ld_SeekToFirst L (rl_db s)))"

definition rldb_GetRange :: "'d leveldb \<Rightarrow> string \<Rightarrow> string \<Rightarrow> 'd res_leveldb \<Rightarrow> string" where
  "rldb_GetRange L min_key max_key s =
     values_string (map snd (takeWhile (\<lambda>kv. fst kv \<le> max_key) (ld_Seek L (rl_db s) min_key)))"

definition rldb_SetValueWithVersion ::
  "'d leveldb \<Rightarrow> history_codec \<Rightarrow> string \<Rightarrow> string \<Rightarrow> int \<Rightarrow> 'd res_leveldb \<Rightarrow> int \<times> 'd res_leveldb" where
  "rldb_SetValueWithVersion L C key value version s =
     (case hc_Parse C (rldb_GetValue L key s) of
        None \<Rightarrow> (-2, s)
      | Some history \<Rightarrow>
          let last_v = (if 0 < length history then snd (last history) else 0)
          in if last_v \<noteq> version then (-2, s)
             else rldb_SetValue L key (hc_Serialize C (history @ [(value, i32 (version + 1))])) s)"

definition rldb_GetValueWithVersion ::
  "'d leveldb \<Rightarrow> history_codec \<Rightarrow> string \<Rightarrow> int \<Rightarrow> 'd res_leveldb \<Rightarrow> string \<times> int" where
  "rldb_GetValueWithVersion L C key version s =
     (case hc_Parse C (rldb_GetValue L key s) of
        None \<Rightarrow> ([], 0)
      | Some history \<Rightarrow>
          if history = [] then ([], 0)
          else case (if version > 0 then find_version version (rev history) else None) of
                 Some x \<Rightarrow> x
               | None \<Rightarrow> last history)"

text \<open>The body of the loops over the iterator: entries that do not parse or are empty are skipped.\<close>

fun rldb_items :: "history_codec \<Rightarrow> (string \<times> string) list \<Rightarrow> (string, string \<times> int) std_map \<Rightarrow> (string, string \<times> int) std_map" where
  "rldb_items C [] resp = resp"
| "rldb_items C ((k, v) # es) resp =
     (case hc_Parse C v of
        None \<Rightarrow> rldb_items C es resp
      | Some history \<Rightarrow> if history = [] then rldb_items C es resp
                        else rldb_items C es (sm_insert k (last history) resp))"

definition rldb_GetAllItems :: "'d leveldb \<Rightarrow> history_codec \<Rightarrow> 'd res_leveldb \<Rightarrow> (string, string \<times> int) std_map" where
  "rldb_GetAllItems L C s = rldb_items C (ld_SeekToFirst L (rl_db s)) []"

definition rldb_GetKeyRange ::
  "'d leveldb \<Rightarrow> history_codec \<Rightarrow> string \<Rightarrow> string \<Rightarrow> 'd res_leveldb \<Rightarrow> (string, string \<times> int) std_map" where
  "rldb_GetKeyRange L C min_key max_key s =
     rldb_items C (takeWhile (\<lambda>kv. fst kv \<le> max_key) (ld_Seek L (rl_db s) min_key)) []"

definition rldb_GetHistory ::
  "'d leveldb \<Rightarrow> history_codec \<Rightarrow> string \<Rightarrow> int \<Rightarrow> int \<Rightarrow> 'd res_leveldb \<Rightarrow> versions" where
  "rldb_GetHistory L C key min_version max_version s =
     (case hc_Parse C (rldb_GetValue L key s) of
        None \<Rightarrow> []
      | Some history \<Rightarrow> history_loop min_version max_version (rev history))"

definition rldb_GetTopHistory ::
  "'d leveldb \<Rightarrow> history_codec \<Rightarrow> string \<Rightarrow> int \<Rightarrow> 'd res_leveldb \<Rightarrow> versions" where
  "rldb_GetTopHistory L C key top_number s =
     (case hc_Parse C (rldb_GetValue L key s) of
        None \<Rightarrow> []
      | Some history \<Rightarrow> take (unat (of_int top_number :: uint64)) (rev history))"

definition leveldb_storage :: "'d leveldb \<Rightarrow> history_codec \<Rightarrow> 'd res_leveldb storage_ops" where
  "leveldb_storage L C =
     \<lparr>st_SetValue = rldb_SetValue L, st_GetValue = rldb_GetValue L, st_GetAllValues = rldb_GetAllValues L,
      st_GetRange = rldb_GetRange L, st_SetValueWithVersion = rldb_SetValueWithVersion L C,
      st_GetValueWithVersion = rldb_GetValueWithVersion L C, st_GetAllItems = rldb_GetAllItems L C,
      st_GetKeyRange = rldb_GetKeyRange L C, st_GetHistory = rldb_GetHistory L C,
      st_GetTopHistory = rldb_GetTopHistory L C\<rparr>"

section \<open>The contract of the versioned interface\<close>

definition last_version :: "versions \<Rightarrow> int" where
  "last_version h = (if h = [] then 0 else snd (last h))"

text \<open>The specification: per key the list of accepted values, the \<open>n\<close>-th with version \<open>n\<close>; a write
  succeeds when it names the current version.\<close>

type_synonym vspec = "string \<Rightarrow> string list"

definition spec_set :: "string \<Rightarrow> string \<Rightarrow> int \<Rightarrow> vspec \<Rightarrow> int \<times> vspec" where
  "spec_set key val version A =
     (if version = int (length (A key)) then (0, A(key := A key @ [val])) else (-2, A))"

fun run_sets :: "(string \<Rightarrow> string \<Rightarrow> int \<Rightarrow> 's \<Rightarrow> int \<times> 's) \<Rightarrow> (string \<times> string \<times> int) list \<Rightarrow> 's \<Rightarrow> int list \<times> 's" where
  "run_sets setv [] s = ([], s)"
| "run_sets setv ((key, val, version) # ws) s =
     (let (ret, s1) = setv key val version s; (rets, s2) = run_sets setv ws s1 in (ret # rets, s2))"

definition numbered :: "string list \<Rightarrow> versions" where
  "numbered vs = map (\<lambda>i. (vs ! i, int i + 1)) [0 ..< length vs]"

lemma numbered_snoc: "numbered (vs @ [v]) = numbered vs @ [(v, int (length vs) + 1)]"
  by (simp add: numbered_def nth_append)

lemma length_numbered [simp]: "length (numbered vs) = length vs"
  by (simp add: numbered_def)

lemma last_version_numbered: "last_version (numbered vs) = int (length vs)"
proof (cases vs rule: rev_cases)
  case Nil
  then show ?thesis by (simp add: last_version_def numbered_def)
next
  case (snoc ys y)
  then show ?thesis by (simp add: last_version_def numbered_snoc)
qed

locale versioned_store =
  fixes ok :: "'k \<Rightarrow> 's \<Rightarrow> bool" and hist :: "'k \<Rightarrow> 's \<Rightarrow> string \<Rightarrow> versions"
    and setv :: "'k \<Rightarrow> string \<Rightarrow> string \<Rightarrow> int \<Rightarrow> 's \<Rightarrow> int \<times> 's"
  assumes set_hit: "ok k s \<Longrightarrow> version = last_version (hist k s key) \<Longrightarrow>
      \<exists>s'. setv k key val version s = (0, s') \<and> ok k s' \<and>
        hist k s' = (hist k s)(key := hist k s key @ [(val, i32 (version + 1))])"
    and set_miss: "ok k s \<Longrightarrow> version \<noteq> last_version (hist k s key) \<Longrightarrow> setv k key val version s = (-2, s)"
begin

lemma set_refines:
  assumes "ok k s" "hist k s = numbered \<circ> A" "int (length (A key)) < 2 ^ 31 - 1"
    "setv k key val version s = (ret, s')"
  shows "ok k s' \<and> (\<exists>A'. spec_set key val version A = (ret, A') \<and> hist k s' = numbered \<circ> A')"
proof (cases "version = int (length (A key))")
  case True
  then have lv: "version = last_version (hist k s key)" by (simp add: assms(2) last_version_numbered)
  then have s': "ret = 0" "ok k s'" "hist k s' = (hist k s)(key := hist k s key @ [(val, i32 (version + 1))])"
    using set_hit [OF assms(1) lv, of val] assms(4) by auto
  have "i32 (version + 1) = int (length (A key)) + 1" using True assms(3) by simp
  then have "hist k s' = numbered \<circ> A(key := A key @ [val])"
    using s'(3) assms(2) by (auto simp: numbered_snoc)
  then show ?thesis using True s' by (simp add: spec_set_def)
next
  case False
  then have "version \<noteq> last_version (hist k s key)" by (simp add: assms(2) last_version_numbered)
  then show ?thesis using set_miss [OF assms(1)] assms False by (simp add: spec_set_def)
qed

lemma spec_length: "spec_set key val version A = (ret, A') \<Longrightarrow> length (A' x) \<le> Suc (length (A x))"
  by (auto simp: spec_set_def split: if_splits)

lemma run_refines:
  assumes "ok k s" "hist k s = numbered \<circ> A" "\<forall>key. int (length (A key)) + int (length ws) < 2 ^ 31"
    "run_sets (setv k) ws s = (rets, s')"
  shows "ok k s' \<and> (\<exists>A'. run_sets spec_set ws A = (rets, A') \<and> hist k s' = numbered \<circ> A')"
  using assms
proof (induction ws arbitrary: s A rets)
  case (Cons w ws)
  obtain key val version where w: "w = (key, val, version)" by (cases w) auto
  obtain ret s1 where st: "setv k key val version s = (ret, s1)" by fastforce
  obtain rets' where r: "run_sets (setv k) ws s1 = (rets', s')" "rets = ret # rets'"
    using Cons.prems(4) st w by (auto split: prod.splits)
  have "int (length (A key)) < 2 ^ 31 - 1" using Cons.prems(3) [rule_format, of key] by simp
  then obtain A1 where A1: "ok k s1" "spec_set key val version A = (ret, A1)" "hist k s1 = numbered \<circ> A1"
    using set_refines [OF Cons.prems(1,2) _ st] by blast
  have "\<forall>x. int (length (A1 x)) + int (length ws) < 2 ^ 31"
  proof
    fix x
    show "int (length (A1 x)) + int (length ws) < 2 ^ 31"
      using Cons.prems(3) [rule_format, of x] spec_length [OF A1(2), of x] by simp
  qed
  then obtain A' where "ok k s'" "run_sets spec_set ws A1 = (rets', A')" "hist k s' = numbered \<circ> A'"
    using Cons.IH [OF A1(1,3) _ r(1)] by blast
  then show ?case using w A1(2) r(2) by auto
qed auto

end

section \<open>MemoryDB fulfils the contract\<close>

definition mdb_ok :: "unit \<Rightarrow> memory_db \<Rightarrow> bool" where
  "mdb_ok u d \<longleftrightarrow> sm_wf (md_kv_map_with_v d) \<and> (\<forall>k. sm_find k (md_kv_map_with_v d) \<noteq> Some [])"

definition mdb_hist :: "unit \<Rightarrow> memory_db \<Rightarrow> string \<Rightarrow> versions" where
  "mdb_hist u d key = sm_get [] key (md_kv_map_with_v d)"

interpretation memory_versions: versioned_store mdb_ok mdb_hist "\<lambda>_. mdb_SetValueWithVersion"
proof
  fix u s key val and version :: int
  assume ok: "mdb_ok u s"
  show "\<exists>s'. mdb_SetValueWithVersion key val version s = (0, s') \<and> mdb_ok u s' \<and>
      mdb_hist u s' = (mdb_hist u s)(key := mdb_hist u s key @ [(val, i32 (version + 1))])"
    if "version = last_version (mdb_hist u s key)"
  proof (cases "sm_find key (md_kv_map_with_v s)")
    case None
    then show ?thesis using that ok
      by (auto simp: mdb_SetValueWithVersion_def mdb_ok_def mdb_hist_def last_version_def sm_get_def Let_def)
  next
    case (Some h)
    then show ?thesis using that ok
      by (auto simp: mdb_SetValueWithVersion_def mdb_ok_def mdb_hist_def last_version_def sm_get_def Let_def)
  qed
  show "mdb_SetValueWithVersion key val version s = (- 2, s)"
    if "version \<noteq> last_version (mdb_hist u s key)"
    using that ok by (cases "sm_find key (md_kv_map_with_v s)")
      (auto simp: mdb_SetValueWithVersion_def mdb_ok_def mdb_hist_def last_version_def sm_get_def Let_def
        split: if_splits)
qed

section \<open>ResLevelDB fulfils the contract when every write is flushed\<close>

definition leveldb_ok :: "'d leveldb \<Rightarrow> bool" where
  "leveldb_ok L \<longleftrightarrow>
     (\<forall>d. sm_wf (ld_SeekToFirst L d)
        \<and> (\<forall>k. ld_Get L d k = sm_find k (ld_SeekToFirst L d)
              \<and> ld_Seek L d k = filter (\<lambda>e. k \<le> fst e) (ld_SeekToFirst L d)))
   \<and> (\<forall>d b. \<exists>d'. ld_Write L d b = Some d'
        \<and> ld_SeekToFirst L d' = fold (\<lambda>(k, v). sm_put k v) b (ld_SeekToFirst L d))
   \<and> (\<forall>b. b \<noteq> [] \<longrightarrow> 1 \<le> ld_ApproximateSize L b)"

definition history_codec_ok :: "history_codec \<Rightarrow> bool" where
  "history_codec_ok C \<longleftrightarrow> hc_Parse C [] = Some [] \<and> (\<forall>h. hc_Parse C (hc_Serialize C h) = Some h)"

definition rldb_ok :: "'d leveldb \<times> history_codec \<Rightarrow> 'd res_leveldb \<Rightarrow> bool" where
  "rldb_ok = (\<lambda>(L, C) s. leveldb_ok L \<and> history_codec_ok C \<and> rl_batch s = []
     \<and> unat (rl_write_batch_size s) \<le> 1
     \<and> (\<forall>k v. sm_find k (ld_SeekToFirst L (rl_db s)) = Some v \<longrightarrow> hc_Parse C v \<noteq> None))"

definition rldb_hist :: "'d leveldb \<times> history_codec \<Rightarrow> 'd res_leveldb \<Rightarrow> string \<Rightarrow> versions" where
  "rldb_hist = (\<lambda>(L, C) s key. the (hc_Parse C (rldb_GetValue L key s)))"

lemma rldb_parse:
  assumes "rldb_ok (L, C) s"
  shows "hc_Parse C (rldb_GetValue L key s) = Some (rldb_hist (L, C) s key)"
proof (cases "sm_find key (ld_SeekToFirst L (rl_db s))")
  case None
  then show ?thesis using assms
    by (simp add: rldb_ok_def rldb_GetValue_def rldb_hist_def leveldb_ok_def history_codec_ok_def)
next
  case (Some v)
  then show ?thesis using assms
    by (simp add: rldb_ok_def rldb_GetValue_def rldb_hist_def leveldb_ok_def)
qed

lemma rldb_SetValue_flushes:
  assumes "leveldb_ok L" "rl_batch s = []" "unat (rl_write_batch_size s) \<le> 1"
  obtains db where "rldb_SetValue L key v s = (0, s\<lparr>rl_db := db\<rparr>)"
    "ld_SeekToFirst L db = sm_put key v (ld_SeekToFirst L (rl_db s))"
proof -
  obtain db where db: "ld_Write L (rl_db s) [(key, v)] = Some db"
    "ld_SeekToFirst L db = sm_put key v (ld_SeekToFirst L (rl_db s))"
    using assms(1) unfolding leveldb_ok_def by (metis (mono_tags, lifting) case_prod_conv fold_simps)
  have "1 \<le> ld_ApproximateSize L [(key, v)]" using assms(1) by (simp add: leveldb_ok_def)
  then have "unat (rl_write_batch_size s) \<le> ld_ApproximateSize L [(key, v)]" using assms(3) by linarith
  then have "rldb_SetValue L key v s = (0, s\<lparr>rl_db := db\<rparr>)"
    using assms(2) db(1) by (simp add: rldb_SetValue_def)
  then show ?thesis using db(2) that by blast
qed

interpretation leveldb_versions: versioned_store rldb_ok rldb_hist "\<lambda>(L, C). rldb_SetValueWithVersion L C"
proof
  fix p :: "'d leveldb \<times> history_codec" and s :: "'d res_leveldb" and key val and version :: int
  obtain L C where p: "p = (L, C)" by (cases p)
  assume "rldb_ok p s"
  then have ok: "rldb_ok (L, C) s" by (simp add: p)
  note parse = rldb_parse [OF ok, of key]
  show "\<exists>s'. (case p of (L, C) \<Rightarrow> rldb_SetValueWithVersion L C) key val version s = (0, s') \<and> rldb_ok p s' \<and>
      rldb_hist p s' = (rldb_hist p s)(key := rldb_hist p s key @ [(val, i32 (version + 1))])"
    if "version = last_version (rldb_hist p s key)"
  proof -
    let ?h = "rldb_hist (L, C) s key @ [(val, i32 (version + 1))]"
    have l: "leveldb_ok L" "rl_batch s = []" "unat (rl_write_batch_size s) \<le> 1"
      and C: "hc_Parse C (hc_Serialize C ?h) = Some ?h"
      using ok by (auto simp: rldb_ok_def history_codec_ok_def)
    obtain db where db: "rldb_SetValue L key (hc_Serialize C ?h) s = (0, s\<lparr>rl_db := db\<rparr>)"
      "ld_SeekToFirst L db = sm_put key (hc_Serialize C ?h) (ld_SeekToFirst L (rl_db s))"
      by (rule rldb_SetValue_flushes [OF l])
    have "rldb_SetValueWithVersion L C key val version s = (0, s\<lparr>rl_db := db\<rparr>)"
      using that parse db(1) by (simp add: rldb_SetValueWithVersion_def last_version_def p Let_def)
    moreover have "rldb_ok (L, C) (s\<lparr>rl_db := db\<rparr>)"
      using ok db(2) C by (auto simp: rldb_ok_def)
    moreover have "rldb_GetValue L k (s\<lparr>rl_db := db\<rparr>) =
        (if k = key then hc_Serialize C ?h else rldb_GetValue L k s)" for k
      using l(1) db(2) by (simp add: rldb_GetValue_def leveldb_ok_def)
    then have "rldb_hist (L, C) (s\<lparr>rl_db := db\<rparr>) = (rldb_hist (L, C) s)(key := ?h)"
      using C by (auto simp: rldb_hist_def)
    ultimately show ?thesis unfolding p by auto
  qed
  show "(case p of (L, C) \<Rightarrow> rldb_SetValueWithVersion L C) key val version s = (- 2, s)"
    if "version \<noteq> last_version (rldb_hist p s key)"
    using that parse by (auto simp: rldb_SetValueWithVersion_def last_version_def p)
qed

section \<open>Reading versions\<close>

lemma find_version_numbered:
  "find_version n (rev (numbered vs)) =
     (if 1 \<le> n \<and> n \<le> int (length vs) then Some (vs ! nat (n - 1), n) else None)"
proof (induction vs rule: rev_induct)
  case Nil
  then show ?case by (simp add: numbered_def)
next
  case (snoc v vs)
  have "n = int (length vs) + 1 \<Longrightarrow> nat (n - 1) = length vs" by simp
  moreover have "nat (n - 1) < length vs" if "1 \<le> n" "n \<le> int (length vs)" using that by simp
  ultimately show ?case using snoc by (auto simp: numbered_snoc nth_append)
qed

lemma history_loop_all:
  assumes "\<forall>x\<in>set h. lo \<le> snd x \<and> snd x \<le> hi"
  shows "history_loop lo hi h = h"
  using assms by (induction lo hi h rule: history_loop.induct) auto

lemma numbered_bounds: "x \<in> set (numbered vs) \<Longrightarrow> 1 \<le> snd x \<and> snd x \<le> int (length vs)"
  by (auto simp: numbered_def)

lemma last_numbered: "vs \<noteq> [] \<Longrightarrow> last (numbered vs) = (last vs, int (length vs))"
  by (cases vs rule: rev_cases) (simp_all add: numbered_snoc)

lemma mdb_find_hist:
  assumes "mdb_ok () d"
  shows "sm_find key (md_kv_map_with_v d) = (if mdb_hist () d key = [] then None else Some (mdb_hist () d key))"
  using assms by (cases "sm_find key (md_kv_map_with_v d)") (auto simp: mdb_ok_def mdb_hist_def sm_get_def)

text \<open>C26: The versioned interface of \<open>MemoryDB\<close> refines optimistic concurrency control: any sequence of
  writes returns the codes of the specification, in which a write succeeds exactly when it names
  the current version; reading the current version, any earlier version or the whole history
  afterwards returns the accepted values, numbered from 1.\<close>

theorem memory_db_refines_versions:
  assumes "run_sets mdb_SetValueWithVersion ws new_memory_db = (rets, d)" "int (length ws) < 2 ^ 31"
  shows "\<exists>A. run_sets spec_set ws (\<lambda>_. []) = (rets, A) \<and>
     (\<forall>key. mdb_GetValueWithVersion key 0 d =
              (if A key = [] then ([], 0) else (last (A key), int (length (A key))))
          \<and> (\<forall>n. 1 \<le> n \<and> n \<le> int (length (A key)) \<longrightarrow>
                mdb_GetValueWithVersion key n d = (A key ! nat (n - 1), n))
          \<and> mdb_GetHistory key 1 (int (length (A key))) d = rev (numbered (A key)))"
proof -
  have init: "mdb_ok () new_memory_db" "mdb_hist () new_memory_db = numbered \<circ> (\<lambda>_. [])"
    by (auto simp: mdb_ok_def mdb_hist_def new_memory_db_def numbered_def)
  obtain A where A: "mdb_ok () d" "run_sets spec_set ws (\<lambda>_. []) = (rets, A)" "mdb_hist () d = numbered \<circ> A"
    using memory_versions.run_refines [OF init _ assms(1)] assms(2) by auto
  have f: "sm_find key (md_kv_map_with_v d) = (if A key = [] then None else Some (numbered (A key)))" for key
    using mdb_find_hist [OF A(1), of key] A(3) by (auto simp: numbered_def)
  have ne: "numbered (A key) \<noteq> []" if "A key \<noteq> []" for key using that by (simp add: numbered_def)
  have "mdb_GetHistory key 1 (int (length (A key))) d = rev (numbered (A key))" for key
    using numbered_bounds [of _ "A key"]
    by (auto simp: mdb_GetHistory_def f history_loop_all) (simp add: numbered_def)
  moreover have "mdb_GetValueWithVersion key 0 d =
      (if A key = [] then ([], 0) else (last (A key), int (length (A key))))" for key
    using ne [of key] by (simp add: mdb_GetValueWithVersion_def f find_version_numbered last_numbered)
  moreover have "mdb_GetValueWithVersion key n d = (A key ! nat (n - 1), n)"
    if "1 \<le> n" "n \<le> int (length (A key))" for key n
    using ne [of key] that by (auto simp: mdb_GetValueWithVersion_def f find_version_numbered)
  ultimately show ?thesis using A(2) by auto
qed

theorem memory_db_refines_versions_witness:
  "\<exists>A. run_sets spec_set [(''k'', ''a'', 0), (''k'', ''b'', 0), (''k'', ''c'', 1)] (\<lambda>_. []) = ([0, -2, 0], A) \<and>
     mdb_GetValueWithVersion ''k'' 0
       (snd (run_sets mdb_SetValueWithVersion [(''k'', ''a'', 0), (''k'', ''b'', 0), (''k'', ''c'', 1)] new_memory_db))
     = (last (A ''k''), 2)"
proof -
  let ?ws = "[(''k'', ''a'', 0), (''k'', ''b'', 0), (''k'', ''c'', 1)] :: (string \<times> string \<times> int) list"
  obtain d where r: "run_sets mdb_SetValueWithVersion ?ws new_memory_db = ([0, -2, 0], d)"
    by (simp add: mdb_SetValueWithVersion_def new_memory_db_def sm_get_def)
  obtain A where A: "run_sets spec_set ?ws (\<lambda>_. []) = ([0, -2, 0], A)"
    "mdb_GetValueWithVersion ''k'' 0 d = (if A ''k'' = [] then ([], 0) else (last (A ''k''), int (length (A ''k''))))"
    using memory_db_refines_versions [OF r] by auto
  have "A ''k'' = [''a'', ''c'']" using A(1) by (auto simp: spec_set_def)
  then show ?thesis using A unfolding r by (intro exI [of _ A]) simp
qed

section \<open>The two backends agree\<close>

lemma takeWhile_sorted:
  fixes es :: "(string \<times> 'v) list"
  assumes "sm_wf es"
  shows "takeWhile (\<lambda>e. fst e \<le> hi) (filter (\<lambda>e. lo \<le> fst e) es) = filter (\<lambda>e. lo \<le> fst e \<and> fst e \<le> hi) es"
  using assms
proof (induction es)
  case (Cons e es)
  obtain k v where e: "e = (k, v)" by (cases e)
  show ?case
  proof (cases "lo \<le> k \<and> \<not> k \<le> hi")
    case True
    then have "filter (\<lambda>e. lo \<le> fst e \<and> fst e \<le> hi) es = []"
      using Cons.prems e by (fastforce simp: filter_empty_conv)
    then show ?thesis using True e by simp
  next
    case False
    then show ?thesis using Cons e by auto
  qed
qed simp

lemma rldb_items_find:
  assumes "sm_wf es" "sm_wf resp" "\<forall>k. sm_find k es \<noteq> None \<longrightarrow> sm_find k resp = None"
  shows "sm_wf (rldb_items C es resp) \<and> (\<forall>k. sm_find k (rldb_items C es resp) =
      (case sm_find k es of
         None \<Rightarrow> sm_find k resp
       | Some v \<Rightarrow> (case hc_Parse C v of None \<Rightarrow> None | Some h \<Rightarrow> if h = [] then None else Some (last h))))"
  using assms
proof (induction C es resp rule: rldb_items.induct)
  case (2 C k' v es resp)
  have new: "sm_find k' es = None" using "2.prems"(1) by (force simp: sm_find_None_iff)
  have wf: "sm_wf es" using "2.prems"(1) by simp
  have resp: "sm_find k' resp = None" "\<forall>x. sm_find x es \<noteq> None \<longrightarrow> sm_find x resp = None"
    using "2.prems"(3) by (auto split: if_splits)
  show ?case
  proof (cases "hc_Parse C v")
    case None
    then show ?thesis using "2.IH"(1) wf "2.prems"(2) resp new by auto
  next
    case (Some h)
    then show ?thesis using "2.IH"(2,3) [OF Some] wf "2.prems"(2) resp new
      by (cases "h = []") (auto cong: option.case_cong)
  qed
qed auto

lemma sm_find_map_last: "sm_find k (map (\<lambda>(k, h). (k, last h)) m) = map_option last (sm_find k m)"
  by (induction m) auto

lemma sm_wf_map_snd: "sm_wf m \<Longrightarrow> sm_wf (map (\<lambda>(k, h). (k, f h)) m)"
  by (simp add: sm_wf_def comp_def case_prod_beta)

lemma sm_find_filter_key: "sm_find k (filter (\<lambda>e. P (fst e)) m) = (if P k then sm_find k m else None)"
  by (induction m) auto

text \<open>The databases the two backends hold after the same versioned writes.\<close>

definition same_versions :: "'d leveldb \<Rightarrow> history_codec \<Rightarrow> memory_db \<Rightarrow> 'd res_leveldb \<Rightarrow> bool" where
  "same_versions L C d s \<longleftrightarrow> mdb_ok () d \<and> rldb_ok (L, C) s \<and> mdb_hist () d = rldb_hist (L, C) s
     \<and> (\<exists>A. mdb_hist () d = numbered \<circ> A)"

lemma rldb_find_items:
  assumes "same_versions L C d s" "es = filter (\<lambda>e. P (fst e)) (ld_SeekToFirst L (rl_db s))"
  shows "rldb_items C es [] = map (\<lambda>(k, h). (k, last h)) (filter (\<lambda>e. P (fst e)) (md_kv_map_with_v d))"
proof (rule sm_ext)
  have ok: "rldb_ok (L, C) s" "mdb_ok () d" and h: "mdb_hist () d = rldb_hist (L, C) s"
    using assms(1) by (auto simp: same_versions_def)
  have L: "sm_wf (ld_SeekToFirst L (rl_db s))" "\<And>k. ld_Get L (rl_db s) k = sm_find k (ld_SeekToFirst L (rl_db s))"
    using ok by (auto simp: rldb_ok_def leveldb_ok_def)
  then have wf: "sm_wf es" by (simp add: assms(2))
  have items: "sm_wf (rldb_items C es []) \<and> (\<forall>k. sm_find k (rldb_items C es []) = (case sm_find k es of
         None \<Rightarrow> None
       | Some v \<Rightarrow> (case hc_Parse C v of None \<Rightarrow> None | Some h \<Rightarrow> if h = [] then None else Some (last h))))"
    using rldb_items_find [OF wf, of "[]" C] by (simp cong: option.case_cong)
  then show "sm_wf (rldb_items C es [])" by blast
  show "sm_wf (map (\<lambda>(k, h). (k, last h)) (filter (\<lambda>e. P (fst e)) (md_kv_map_with_v d)))"
    using ok(2) by (intro sm_wf_map_snd) (simp add: mdb_ok_def)
  show "sm_find k (rldb_items C es []) =
      sm_find k (map (\<lambda>(k, h). (k, last h)) (filter (\<lambda>e. P (fst e)) (md_kv_map_with_v d)))" for k
  proof (cases "sm_find k (ld_SeekToFirst L (rl_db s))")
    case None
    then have "rldb_hist (L, C) s k = []"
      using ok(1) L(2) by (simp add: rldb_hist_def rldb_GetValue_def rldb_ok_def history_codec_ok_def)
    then show ?thesis using None mdb_find_hist [OF ok(2), of k] items
      by (auto simp: h sm_find_map_last sm_find_filter_key assms(2))
  next
    case (Some v)
    then have "hc_Parse C v = Some (rldb_hist (L, C) s k)"
      using rldb_parse [OF ok(1), of k] L(2) by (simp add: rldb_GetValue_def)
    then show ?thesis using Some mdb_find_hist [OF ok(2), of k] items
      by (auto simp: h sm_find_map_last sm_find_filter_key assms(2))
  qed
qed

lemma mdb_top_loop_take: "n < limit \<Longrightarrow> mdb_top_loop limit n xs = take (limit - n) xs"
proof (induction limit n xs rule: mdb_top_loop.induct)
  case (2 limit n x r)
  then have "limit - n = Suc (limit - Suc n)" by simp
  then show ?case using 2 by (auto simp: not_le)
qed simp

lemma same_reads:
  assumes sv: "same_versions L C d s"
  shows "rldb_GetValueWithVersion L C key n s = mdb_GetValueWithVersion key n d"
    and "rldb_GetHistory L C key lo hi s = mdb_GetHistory key lo hi d"
    and "1 \<le> t \<Longrightarrow> t < 2 ^ 31 \<Longrightarrow> rldb_GetTopHistory L C key t s = mdb_GetTopHistory key t d"
    and "rldb_GetAllItems L C s = mdb_GetAllItems d"
    and "rldb_GetKeyRange L C a b s = mdb_GetKeyRange a b d"
proof -
  have ok: "rldb_ok (L, C) s" "mdb_ok () d" and h: "mdb_hist () d = rldb_hist (L, C) s"
    using sv by (auto simp: same_versions_def)
  note p = rldb_parse [OF ok(1)] and f = mdb_find_hist [OF ok(2), unfolded h]
  obtain A where A: "rldb_hist (L, C) s = numbered \<circ> A" using sv h by (auto simp: same_versions_def)
  show "rldb_GetValueWithVersion L C key n s = mdb_GetValueWithVersion key n d"
    by (simp add: rldb_GetValueWithVersion_def mdb_GetValueWithVersion_def p f A find_version_numbered)
  show "rldb_GetHistory L C key lo hi s = mdb_GetHistory key lo hi d"
    by (simp add: rldb_GetHistory_def mdb_GetHistory_def p f)
  show "rldb_GetTopHistory L C key t s = mdb_GetTopHistory key t d" if "1 \<le> t" "t < 2 ^ 31"
  proof -
    have "0 < unat (of_int t :: uint64)" using that by (simp add: unat_eq_nat_uint uint_word_of_int)
    then show ?thesis by (simp add: rldb_GetTopHistory_def mdb_GetTopHistory_def p f mdb_top_loop_take)
  qed
  show "rldb_GetAllItems L C s = mdb_GetAllItems d"
    using rldb_find_items [OF sv, of _ "\<lambda>_. True"] by (simp add: rldb_GetAllItems_def mdb_GetAllItems_def)
  show "rldb_GetKeyRange L C a b s = mdb_GetKeyRange a b d"
    using rldb_find_items [OF sv, of _ "\<lambda>k. a \<le> k \<and> k \<le> b"] takeWhile_sorted [of "ld_SeekToFirst L (rl_db s)" b a] ok(1)
    by (simp add: rldb_GetKeyRange_def mdb_GetKeyRange_def rldb_ok_def leveldb_ok_def)
qed

text \<open>C27: \<open>MemoryDB\<close> and \<open>ResLevelDB\<close> are interchangeable behind the versioned interface as long as the
  write batch is flushed at every write: the same writes return the same codes, and afterwards
  every versioned read, the key ranges, the full listing, the histories and the positive top
  histories return the same results.\<close>

theorem backends_agree:
  assumes L: "leveldb_ok L" "history_codec_ok C"
    and s: "rl_batch s = []" "unat (rl_write_batch_size s) \<le> 1" "ld_SeekToFirst L (rl_db s) = []"
    and ws: "int (length ws) < 2 ^ 31"
    and r: "run_sets mdb_SetValueWithVersion ws new_memory_db = (rets, d)"
      "run_sets (rldb_SetValueWithVersion L C) ws s = (rets', s')"
  shows "rets' = rets
     \<and> (\<forall>key n. rldb_GetValueWithVersion L C key n s' = mdb_GetValueWithVersion key n d)
     \<and> (\<forall>key lo hi. rldb_GetHistory L C key lo hi s' = mdb_GetHistory key lo hi d)
     \<and> (\<forall>key t. 1 \<le> t \<and> t < 2 ^ 31 \<longrightarrow> rldb_GetTopHistory L C key t s' = mdb_GetTopHistory key t d)
     \<and> rldb_GetAllItems L C s' = mdb_GetAllItems d
     \<and> (\<forall>a b. rldb_GetKeyRange L C a b s' = mdb_GetKeyRange a b d)"
proof -
  have 1: "mdb_ok () new_memory_db" "mdb_hist () new_memory_db = numbered \<circ> (\<lambda>_. [])"
    by (auto simp: mdb_ok_def mdb_hist_def new_memory_db_def numbered_def)
  have 2: "rldb_ok (L, C) s" using L s by (simp add: rldb_ok_def)
  have "ld_Get L (rl_db s) key = None" for key using L(1) s(3) by (simp add: leveldb_ok_def)
  then have 3: "rldb_hist (L, C) s = numbered \<circ> (\<lambda>_. [])"
    using L by (auto simp: rldb_hist_def rldb_GetValue_def history_codec_ok_def numbered_def)
  obtain A where A: "mdb_ok () d" "run_sets spec_set ws (\<lambda>_. []) = (rets, A)" "mdb_hist () d = numbered \<circ> A"
    using memory_versions.run_refines [OF 1 _ r(1)] ws by auto
  obtain A' where A': "rldb_ok (L, C) s'" "run_sets spec_set ws (\<lambda>_. []) = (rets', A')"
    "rldb_hist (L, C) s' = numbered \<circ> A'"
    using leveldb_versions.run_refines [OF 2 3 _, of ws rets' s'] r(2) ws by auto
  have "same_versions L C d s'" using A A' by (auto simp: same_versions_def)
  from same_reads [OF this] show ?thesis using A(2) A'(2) by auto
qed

text \<open>A concrete library and codec: LevelDB as an ordered map, and a history as a text in which the
  characters of a value are escaped and the version is written in unary.\<close>

definition demo_leveldb :: "(string, string) std_map leveldb" where
  "demo_leveldb = \<lparr>ld_Get = (\<lambda>d k. sm_find k (if sm_wf d then d else [])),
     ld_Write = (\<lambda>d b. Some (fold (\<lambda>(k, v). sm_put k v) b (if sm_wf d then d else []))),
     ld_SeekToFirst = (\<lambda>d. if sm_wf d then d else []),
     ld_Seek = (\<lambda>d k. filter (\<lambda>e. k \<le> fst e) (if sm_wf d then d else [])),
     ld_ApproximateSize = (\<lambda>b. 12 + length b)\<rparr>"

fun enc_value :: "string \<Rightarrow> string" where
  "enc_value [] = [CHR ''e'']"
| "enc_value (c # cs) = CHR ''c'' # c # enc_value cs"

fun dec_value :: "string \<Rightarrow> (string \<times> string) option" where
  "dec_value (t # c # r) =
     (if t = CHR ''e'' then Some ([], c # r)
      else map_option (\<lambda>(v, r'). (c # v, r')) (dec_value r))"
| "dec_value [t] = (if t = CHR ''e'' then Some ([], []) else None)"
| "dec_value [] = None"

definition enc_version :: "int \<Rightarrow> string" where
  "enc_version n = (if n < 0 then CHR ''-'' else CHR ''+'') # replicate (nat \<bar>n\<bar>) CHR ''1'' @ [CHR ''.'']"

fun dec_unary :: "string \<Rightarrow> nat \<times> string" where
  "dec_unary (c # r) = (if c = CHR ''1'' then (let (n, r') = dec_unary r in (Suc n, r')) else (0, r))"
| "dec_unary [] = (0, [])"

fun enc_history :: "versions \<Rightarrow> string" where
  "enc_history [] = []"
| "enc_history ((v, n) # h) = enc_value v @ enc_version n @ enc_history h"

fun dec_history :: "nat \<Rightarrow> string \<Rightarrow> versions option" where
  "dec_history f [] = Some []"
| "dec_history 0 (c # r) = None"
| "dec_history (Suc f) (c # r) =
     (case dec_value (c # r) of
        Some (v, sg # r1) \<Rightarrow>
          (let (n, r2) = dec_unary r1
           in map_option (Cons (v, if sg = CHR ''-'' then - int n else int n)) (dec_history f r2))
      | _ \<Rightarrow> None)"

definition demo_codec :: history_codec where
  "demo_codec = \<lparr>hc_Parse = (\<lambda>s. dec_history (length s) s), hc_Serialize = enc_history\<rparr>"

lemma dec_enc_value: "dec_value (enc_value v @ r) = Some (v, r)"
  by (induction v) (auto split: list.split simp: neq_Nil_conv, metis append_Nil dec_value.simps(1,2) list.exhaust)

lemma dec_enc_unary: "dec_unary (replicate n CHR ''1'' @ CHR ''.'' # r) = (n, r)"
  by (induction n) auto

lemma dec_enc_history: "length h \<le> f \<Longrightarrow> dec_history f (enc_history h) = Some h"
proof (induction h arbitrary: f)
  case (Cons x h)
  obtain v n where x: "x = (v, n)" by (cases x)
  obtain f' where f: "f = Suc f'" using Cons.prems by (cases f) auto
  have ne: "enc_history (x # h) \<noteq> []" by (cases v) (auto simp: x)
  then obtain c r where cr: "enc_history (x # h) = c # r" by (cases "enc_history (x # h)") auto
  have "dec_value (c # r) = Some (v, enc_version n @ enc_history h)"
    unfolding cr [symmetric] x by (simp add: dec_enc_value)
  then show ?case unfolding cr f using Cons.IH [of f'] Cons.prems f
    by (simp add: x enc_version_def dec_enc_unary)
qed simp

lemma enc_history_length: "length h \<le> length (enc_history h)"
proof (induction h)
  case (Cons x h)
  obtain v n where x: "x = (v, n)" by (cases x)
  have "1 \<le> length (enc_value v)" by (cases v) auto
  then show ?case using Cons by (simp add: x)
qed simp

lemma demo_backend_ok: "leveldb_ok demo_leveldb" "history_codec_ok demo_codec"
proof -
  have "sm_wf (fold (\<lambda>(k, v). sm_put k v) b d)" if "sm_wf d" for b and d :: "(string, string) std_map"
    using that by (induction b arbitrary: d) auto
  then show "leveldb_ok demo_leveldb" by (auto simp: leveldb_ok_def demo_leveldb_def)
  show "history_codec_ok demo_codec"
    using dec_enc_history enc_history_length by (simp add: history_codec_ok_def demo_codec_def)
qed

theorem backends_agree_witness:
  "let ws = [(''k'', ''a'', 0), (''k'', ''b'', 1)];
       s = \<lparr>rl_db = [], rl_batch = [], rl_write_batch_size = 1\<rparr>;
       (rets, d) = run_sets mdb_SetValueWithVersion ws new_memory_db;
       (rets', s') = run_sets (rldb_SetValueWithVersion demo_leveldb demo_codec) ws s
   in rets' = rets \<and> rldb_GetAllItems demo_leveldb demo_codec s' = mdb_GetAllItems d"
proof -
  let ?ws = "[(''k'', ''a'', 0), (''k'', ''b'', 1)] :: (string \<times> string \<times> int) list"
  let ?s = "\<lparr>rl_db = [] :: (string, string) std_map, rl_batch = [], rl_write_batch_size = 1\<rparr>"
  obtain rets d where r1: "run_sets mdb_SetValueWithVersion ?ws new_memory_db = (rets, d)" by fastforce
  obtain rets' s' where r2: "run_sets (rldb_SetValueWithVersion demo_leveldb demo_codec) ?ws ?s = (rets', s')" by fastforce
  have "ld_SeekToFirst demo_leveldb (rl_db ?s) = []" by (simp add: demo_leveldb_def)
  then show ?thesis unfolding Let_def r1 r2 prod.case
    using backends_agree [OF demo_backend_ok _ _ _ _ r1 r2] by simp
qed

text \<open>With a write batch that is not flushed at every write, \<open>ResLevelDB\<close> loses updates: \<open>GetValue\<close>
  does not see the pending batch, so two writes that both name version 0 are both accepted, and
  after the flush only the second one exists.\<close>

theorem pending_batch_loses_update:
  "let s0 = \<lparr>rl_db = [], rl_batch = [], rl_write_batch_size = 100\<rparr>;
       (rets, s1) = run_sets (rldb_SetValueWithVersion demo_leveldb demo_codec) [(''k'', ''a'', 0), (''k'', ''b'', 0)] s0;
       (ok, s2) = rldb_Flush demo_leveldb s1
   in rets = [0, 0] \<and> ok \<and> rldb_GetHistory demo_leveldb demo_codec ''k'' 0 9 s2 = [(''b'', 1)]"
  by (simp add: rldb_SetValueWithVersion_def rldb_SetValue_def rldb_Flush_def rldb_GetHistory_def rldb_GetValue_def
      demo_leveldb_def demo_codec_def enc_version_def)

text \<open>Asked for the top 0 versions of a key that has one, \<open>MemoryDB\<close> returns one version and
  \<open>ResLevelDB\<close> none.\<close>

theorem top_zero_differs:
  "let d = snd (mdb_SetValueWithVersion ''k'' ''a'' 0 new_memory_db);
       s = snd (rldb_SetValueWithVersion demo_leveldb demo_codec ''k'' ''a'' 0
                  \<lparr>rl_db = [], rl_batch = [], rl_write_batch_size = 1\<rparr>)
   in mdb_GetTopHistory ''k'' 0 d = [(''a'', 1)] \<and> rldb_GetTopHistory demo_leveldb demo_codec ''k'' 0 s = []"
  by (simp add: mdb_SetValueWithVersion_def new_memory_db_def mdb_GetTopHistory_def sm_get_def
      rldb_SetValueWithVersion_def rldb_SetValue_def rldb_GetTopHistory_def rldb_GetValue_def
      demo_leveldb_def demo_codec_def enc_version_def)

end
