(* ===== verification/Kv_Executor.thy ===== *)
theory Kv_Executor
  imports Executor Storage
begin

text \<open>
  \<open>KVExecutor\<close> (executor/kv/kv_executor.cpp), the key-value transaction manager: one command per
  user request, dispatched on the virtual \<open>Storage\<close> it was built with. The codecs of \<open>KVRequest\<close> and
  \<open>KVResponse\<close> are arguments.
\<close>

datatype kv_cmd =
    KV_NONE | KV_SET | KV_GET | KV_GETALLVALUES | KV_GETRANGE | KV_SET_WITH_VERSION
  | KV_GET_WITH_VERSION | KV_GET_ALL_ITEMS | KV_GET_KEY_RANGE | KV_GET_HISTORY | KV_GET_TOP

record kv_request =
  kq_cmd :: kv_cmd
  kq_key :: string
  kq_value :: string
  kq_version :: int
  kq_min_key :: string
  kq_max_key :: string
  kq_min_version :: int
  kq_max_version :: int
  kq_top_number :: int

record kv_item =
  it_key :: string
  it_value :: string
  it_version :: int

record kv_response =
  kr_value :: string
  kr_value_info :: "(string \<times> int) option"
  kr_items :: "kv_item list option"

definition empty_kv_response :: kv_response where
  "empty_kv_response = \<lparr>kr_value = [], kr_value_info = None, kr_items = None\<rparr>"

definition kv_map_items :: "(string, string \<times> int) std_map \<Rightarrow> kv_item list" where
  "kv_map_items ret = map (\<lambda>(k, v, n). \<lparr>it_key = k, it_value = v, it_version = n\<rparr>) ret"

definition kv_version_items :: "string \<Rightarrow> versions \<Rightarrow> kv_item list" where
  "kv_version_items key ret = map (\<lambda>(v, n). \<lparr>it_key = key, it_value = v, it_version = n\<rparr>) ret"

definition kv_command :: "'s storage_ops \<Rightarrow> kv_request \<Rightarrow> 's \<Rightarrow> kv_response \<times> 's" where
  "kv_command S q s =
     (case kq_cmd q of
        KV_SET \<Rightarrow> (empty_kv_response, snd (st_SetValue S (kq_key q) (kq_value q) s))
      | KV_GET \<Rightarrow> (empty_kv_response\<lparr>kr_value := st_GetValue S (kq_key q) s\<rparr>, s)
      | KV_GETALLVALUES \<Rightarrow> (empty_kv_response\<lparr>kr_value := st_GetAllValues S s\<rparr>, s)
      | KV_GETRANGE \<Rightarrow> (empty_kv_response\<lparr>kr_value := st_GetRange S (kq_key q) (kq_value q) s\<rparr>, s)
      | KV_SET_WITH_VERSION \<Rightarrow>
          (empty_kv_response, snd (st_SetValueWithVersion S (kq_key q) (kq_value q) (kq_version q) s))
      | KV_GET_WITH_VERSION \<Rightarrow>
          (empty_kv_response\<lparr>kr_value_info := Some (st_GetValueWithVersion S (kq_key q) (kq_version q) s)\<rparr>, s)
      | KV_GET_ALL_ITEMS \<Rightarrow> (empty_kv_response\<lparr>kr_items := Some (kv_map_items (st_GetAllItems S s))\<rparr>, s)
      | KV_GET_KEY_RANGE \<Rightarrow>
          (empty_kv_response\<lparr>kr_items := Some (kv_map_items (st_GetKeyRange S (kq_min_key q) (kq_max_key q) s))\<rparr>, s)
      | KV_GET_HISTORY \<Rightarrow>
          (empty_kv_response\<lparr>kr_items := Some (kv_version_items (kq_key q)
             (st_GetHistory S (kq_key q) (kq_min_version q) (kq_max_version q) s))\<rparr>, s)
      | KV_GET_TOP \<Rightarrow>
          (empty_kv_response\<lparr>kr_items := Some (kv_version_items (kq_key q)
             (st_GetTopHistory S (kq_key q) (kq_top_number q) s))\<rparr>, s)
      | KV_NONE \<Rightarrow> (empty_kv_response, s))"

record kv_codec =
  kc_parse :: "string \<Rightarrow> kv_request option"
  kc_serialize :: "kv_response \<Rightarrow> string option"

definition kv_ExecuteData :: "kv_codec \<Rightarrow> 's storage_ops \<Rightarrow> string \<Rightarrow> 's \<Rightarrow> string option \<times> 's" where
  "kv_ExecuteData K S request s =
     (case kc_parse K request of
        None \<Rightarrow> (None, s)
      | Some q \<Rightarrow> let (r, s1) = kv_command S q s in (kc_serialize K r, s1))"

definition kv_manager :: "kv_codec \<Rightarrow> 's storage_ops \<Rightarrow> 's txn_manager" where
  "kv_manager K S = \<lparr>tm_is_out_of_order = False, tm_need_response = True, tm_ExecuteData = kv_ExecuteData K S\<rparr>"

section \<open>Every transaction keeps the database well-formed\<close>

definition kv_memory_ok :: "kv_codec \<times> iter_order \<Rightarrow> memory_db \<Rightarrow> bool" where
  "kv_memory_ok k d \<longleftrightarrow> sm_wf (md_kv_map d) \<and> mdb_ok () d"

lemma mdb_SetValueWithVersion_ok: "mdb_ok () d \<Longrightarrow> mdb_ok () (snd (mdb_SetValueWithVersion key v n d))"
  by (auto simp: mdb_ok_def mdb_SetValueWithVersion_def Let_def)

interpretation kv_memory: txn_interface kv_memory_ok "\<lambda>(K, ord). kv_ExecuteData K (memory_storage ord)"
proof
  fix k :: "kv_codec \<times> iter_order" and s d
  assume ok: "kv_memory_ok k s"
  obtain K ord where k: "k = (K, ord)" by (cases k)
  have "kv_memory_ok k (snd (kv_command (memory_storage ord) q s))" for q
    using ok mdb_SetValueWithVersion_ok [of s "kq_key q" "kq_value q" "kq_version q"]
    by (auto simp: kv_command_def memory_storage_def kv_memory_ok_def mdb_SetValue_def
        mdb_SetValueWithVersion_def mdb_ok_def Let_def split: kv_cmd.splits)
  then show "kv_memory_ok k (snd ((case k of (K, ord) \<Rightarrow> kv_ExecuteData K (memory_storage ord)) d s))"
    using ok by (auto simp: k kv_ExecuteData_def split: option.splits prod.splits) (metis snd_conv)
qed

section \<open>Reads see the writes before them\<close>

text \<open>The specification of the unversioned commands: the value of the last \<open>SET\<close> of the key.\<close>

fun kv_spec :: "kv_request list \<Rightarrow> (string \<Rightarrow> string) \<Rightarrow> kv_response list \<times> (string \<Rightarrow> string)" where
  "kv_spec [] m = ([], m)"
| "kv_spec (q # qs) m =
     (let (r, m1) = (if kq_cmd q = KV_SET then (empty_kv_response, m(kq_key q := kq_value q))
                     else (empty_kv_response\<lparr>kr_value := m (kq_key q)\<rparr>, m));
          (rs, m2) = kv_spec qs m1
      in (r # rs, m2))"

definition kv_user :: "(kv_request \<Rightarrow> string) \<Rightarrow> kv_request \<Rightarrow> user_request" where
  "kv_user enc q = \<lparr>ur_request = empty_request\<lparr>rq_data := enc q\<rparr>, ur_signature = empty_signature, ur_id = 0\<rparr>"

lemma kv_loop_refines:
  assumes "\<forall>q\<in>set qs. kq_cmd q \<in> {KV_SET, KV_GET} \<and> kc_parse K (enc q) = Some q"
    and "\<forall>r. kc_serialize K r = Some (ser r)" and "\<forall>k. mdb_GetValue k d = m k"
  shows "\<exists>d'. ExecuteBatch_loop (kv_ExecuteData K (memory_storage ord)) (map (kv_user enc) qs) d
           = (map ser (fst (kv_spec qs m)), d') \<and> (\<forall>k. mdb_GetValue k d' = snd (kv_spec qs m) k)"
  using assms(1,3)
proof (induction qs arbitrary: d m)
  case (Cons q qs)
  have step: "kv_ExecuteData K (memory_storage ord) (enc q) d =
      (if kq_cmd q = KV_SET then (Some (ser empty_kv_response), snd (mdb_SetValue (kq_key q) (kq_value q) d))
       else (Some (ser (empty_kv_response\<lparr>kr_value := m (kq_key q)\<rparr>)), d))"
    using Cons.prems assms(2) by (auto simp: kv_ExecuteData_def kv_command_def memory_storage_def)
  have data: "rq_data (ur_request (kv_user enc q)) = enc q" by (simp add: kv_user_def)
  show ?case
  proof (cases "kq_cmd q = KV_SET")
    case True
    have upd: "\<forall>k. mdb_GetValue k (snd (mdb_SetValue (kq_key q) (kq_value q) d)) = (m(kq_key q := kq_value q)) k"
      using Cons.prems(2) by (simp add: mdb_GetValue_def mdb_SetValue_def)
    have qs: "\<forall>q\<in>set qs. kq_cmd q \<in> {KV_SET, KV_GET} \<and> kc_parse K (enc q) = Some q"
      using Cons.prems(1) by simp
    obtain d' where "ExecuteBatch_loop (kv_ExecuteData K (memory_storage ord)) (map (kv_user enc) qs)
        (snd (mdb_SetValue (kq_key q) (kq_value q) d)) = (map ser (fst (kv_spec qs (m(kq_key q := kq_value q)))), d')"
      "\<forall>k. mdb_GetValue k d' = snd (kv_spec qs (m(kq_key q := kq_value q))) k"
      using Cons.IH [OF qs upd] by blast
    then show ?thesis using True step by (auto simp: data split: prod.split)
  next
    case False
    obtain d' where "ExecuteBatch_loop (kv_ExecuteData K (memory_storage ord)) (map (kv_user enc) qs) d
        = (map ser (fst (kv_spec qs m)), d')" "\<forall>k. mdb_GetValue k d' = snd (kv_spec qs m) k"
      using Cons.IH [OF _ Cons.prems(2)] Cons.prems(1) by auto
    then show ?thesis using False step by (auto simp: data split: prod.split)
  qed
qed auto

text \<open>C28: A batch of \<open>SET\<close> and \<open>GET\<close> transactions executed through the transaction manager on an empty
  \<open>MemoryDB\<close> answers every \<open>GET\<close> with the value of the last \<open>SET\<close> of that key before it (the empty
  string if there is none), for every codec that decodes the requests of the batch.\<close>

theorem kv_batch_reads_last_write:
  assumes "\<forall>q\<in>set qs. kq_cmd q \<in> {KV_SET, KV_GET} \<and> kc_parse K (enc q) = Some q"
    and "\<forall>r. kc_serialize K r = Some (ser r)" and "br_user_requests b = map (kv_user enc) qs"
  shows "rs_response (fst (ExecuteBatch (tm_ExecuteData (kv_manager K (memory_storage ord))) b new_memory_db))
           = map ser (fst (kv_spec qs (\<lambda>_. [])))"
proof -
  have "\<forall>k. mdb_GetValue k new_memory_db = (\<lambda>_. []) k" by (simp add: mdb_GetValue_def new_memory_db_def)
  from kv_loop_refines [OF assms(1,2) this, of ord] show ?thesis
    by (auto simp: ExecuteBatch_def kv_manager_def assms(3))
qed

definition demo_kv :: "kv_cmd \<Rightarrow> string \<Rightarrow> kv_request" where
  "demo_kv c v = \<lparr>kq_cmd = c, kq_key = ''x'', kq_value = v, kq_version = 0, kq_min_key = [], kq_max_key = [],
     kq_min_version = 0, kq_max_version = 0, kq_top_number = 0\<rparr>"

definition demo_kv_codec :: kv_codec where
  "demo_kv_codec = \<lparr>kc_parse = (\<lambda>s. if s = ''get'' then Some (demo_kv KV_GET []) else Some (demo_kv KV_SET s)),
     kc_serialize = (\<lambda>r. Some (kr_value r))\<rparr>"

theorem kv_batch_reads_last_write_witness:
  "rs_response (fst (ExecuteBatch (tm_ExecuteData (kv_manager demo_kv_codec (memory_storage id)))
      (empty_batch\<lparr>br_user_requests := map (kv_user (\<lambda>q. if kq_cmd q = KV_GET then ''get'' else kq_value q))
         [demo_kv KV_GET [], demo_kv KV_SET ''1'', demo_kv KV_GET [], demo_kv KV_SET ''2'', demo_kv KV_GET []]\<rparr>)
      new_memory_db)) = [[], [], ''1'', [], ''2'']"
  by (subst kv_batch_reads_last_write [where ser = kr_value and enc = "\<lambda>q. if kq_cmd q = KV_GET then ''get'' else kq_value q"
        and qs = "[demo_kv KV_GET [], demo_kv KV_SET ''1'', demo_kv KV_GET [], demo_kv KV_SET ''2'', demo_kv KV_GET []]"])
    (simp_all add: demo_kv_codec_def demo_kv_def empty_kv_response_def)

text \<open>Whatever bytes the user requests of a batch contain, executing the batch gives exactly one
  response per request and keeps the in-memory database well-formed.\<close>

theorem kv_batch_total:
  assumes "sm_wf (md_kv_map d)" "mdb_ok () d"
  shows "length (rs_response (fst (ExecuteBatch (tm_ExecuteData (kv_manager K (memory_storage ord))) b d)))
           = length (br_user_requests b)
       \<and> sm_wf (md_kv_map (snd (ExecuteBatch (tm_ExecuteData (kv_manager K (memory_storage ord))) b d)))
       \<and> mdb_ok () (snd (ExecuteBatch (tm_ExecuteData (kv_manager K (memory_storage ord))) b d))"
  using kv_memory.ExecuteBatch_ok [of "(K, ord)" d b] assms by (simp add: kv_memory_ok_def kv_manager_def)

theorem kv_batch_total_witness:
  "length (rs_response (fst (ExecuteBatch (tm_ExecuteData (kv_manager demo_kv_codec (memory_storage id)))
      (empty_batch\<lparr>br_user_requests := map (kv_user kq_value) [demo_kv KV_SET ''1'', demo_kv KV_SET ''get'']\<rparr>)
      new_memory_db))) = 2"
  using kv_batch_total [of new_memory_db demo_kv_codec id
      "empty_batch\<lparr>br_user_requests := map (kv_user kq_value) [demo_kv KV_SET ''1'', demo_kv KV_SET ''get'']\<rparr>"]
  by (simp add: new_memory_db_def mdb_ok_def)

end
