(* ===== verification/Utxo.thy ===== *)
theory Utxo
  imports Std_Map
begin

text \<open>
  The UTXO application (executor/utxo): \<open>TxMempool\<close>, \<open>Wallet\<close>, \<open>Transaction\<close> and the two executors.
  A transaction spends outputs of earlier ones and adds its own; the wallet has a balance for every
  address.

  \<open>ecdsa message key signature\<close> is \<open>utils::ECDSAVerifyString\<close>, and the protobuf codecs are arguments.
  \<open>None\<close> is undefined behaviour (a negative index into the outputs, the last element of an empty map)
  or a failed assertion.
\<close>

section \<open>Messages\<close>

record utxo_in =
  ui_prev_id :: int
  ui_out_idx :: int

record utxo_out =
  uo_address :: string
  uo_value :: int
  uo_spent :: bool
  uo_pub_key :: string

record utxo =
  ut_in :: "utxo_in list"
  ut_out :: "utxo_out list"
  ut_sig :: string
  ut_address :: string
  ut_transaction_id :: int

datatype utxo_error = ID_INVALID | ID_SPENT | ADDRESS_INVALID | INPUT_INVALID | KEY_INVALID

section \<open>The pool of transactions\<close>

record tx_mempool =
  tp_txs :: "(int, utxo) std_map"
  tp_id :: int

definition new_tx_mempool :: tx_mempool where
  "new_tx_mempool = \<lparr>tp_txs = [], tp_id = 0\<rparr>"

definition AddUTXO :: "utxo \<Rightarrow> tx_mempool \<Rightarrow> int \<times> tx_mempool" where
  "AddUTXO u p = (tp_id p, p\<lparr>tp_txs := sm_put (tp_id p) u (tp_txs p), tp_id := i64 (tp_id p + 1)\<rparr>)"

definition GetUTXO :: "int \<Rightarrow> int \<Rightarrow> string \<Rightarrow> tx_mempool \<Rightarrow> (utxo_error + utxo_out) option" where
  "GetUTXO i out_idx address p =
     (case sm_find i (tp_txs p) of
        None \<Rightarrow> Some (Inl ID_INVALID)
      | Some u \<Rightarrow>
          if int (length (ut_out u)) \<le> out_idx then Some (Inl ID_INVALID)
          else if out_idx < 0 then None
          else let out = ut_out u ! nat out_idx
               in if uo_spent out then Some (Inl ID_SPENT)
                  else if uo_address out \<noteq> address then Some (Inl ADDRESS_INVALID)
                  else Some (Inr out))"

definition GetUTXOOutValue :: "int \<Rightarrow> int \<Rightarrow> string \<Rightarrow> tx_mempool \<Rightarrow> int option" where
  "GetUTXOOutValue i out_idx address p =
     (case sm_find i (tp_txs p) of
        None \<Rightarrow> Some (-1)
      | Some u \<Rightarrow>
          if int (length (ut_out u)) \<le> out_idx then Some (-1)
          else if out_idx < 0 then None
          else let out = ut_out u ! nat out_idx
               in if uo_spent out then Some (-1)
                  else if uo_address out \<noteq> address then Some (-1)
                  else Some (uo_value out))"

definition mark_output :: "nat \<Rightarrow> utxo \<Rightarrow> utxo" where
  "mark_output n u = u\<lparr>ut_out := (ut_out u)[n := (ut_out u ! n)\<lparr>uo_spent := True\<rparr>]\<rparr>"

definition MarkSpend :: "int \<Rightarrow> int \<Rightarrow> string \<Rightarrow> tx_mempool \<Rightarrow> (int \<times> tx_mempool) option" where
  "MarkSpend i out_idx address p =
     (case sm_find i (tp_txs p) of
        None \<Rightarrow> Some (-1, p)
      | Some u \<Rightarrow>
          if int (length (ut_out u)) \<le> out_idx then Some (-1, p)
          else if out_idx < 0 then None
          else Some (uo_value (ut_out u ! nat out_idx),
                     p\<lparr>tp_txs := sm_put i (mark_output (nat out_idx) u) (tp_txs p)\<rparr>))"

text \<open>The loop of \<open>GetUTXO(end_idx, num)\<close>, from \<open>end_idx\<close> down to the first number that is not stored.\<close>

fun last_utxos :: "nat \<Rightarrow> int \<Rightarrow> (int, utxo) std_map \<Rightarrow> utxo list" where
  "last_utxos 0 i txs = []"
| "last_utxos (Suc n) i txs =
     (case sm_find i txs of
        None \<Rightarrow> []
      | Some u \<Rightarrow> u\<lparr>ut_transaction_id := i\<rparr> # last_utxos n (i64 (i - 1)) txs)"

definition GetUTXO_list :: "int \<Rightarrow> int \<Rightarrow> tx_mempool \<Rightarrow> utxo list option" where
  "GetUTXO_list end_idx num p =
     (if end_idx = -1 \<and> tp_txs p = [] then None
      else Some (rev (last_utxos (nat num) (if end_idx = -1 then fst (last (tp_txs p)) else end_idx) (tp_txs p))))"

section \<open>The wallet\<close>

type_synonym wallet = "(string, int) std_map"

definition wallet_AddCoin :: "string \<Rightarrow> int \<Rightarrow> wallet \<Rightarrow> int \<times> wallet" where
  "wallet_AddCoin address value w = (0, sm_put address (i64 (sm_get 0 address w + value)) w)"

definition GetCoin :: "string \<Rightarrow> wallet \<Rightarrow> int \<times> wallet" where
  "GetCoin address w = (sm_get 0 address w, sm_put address (sm_get 0 address w) w)"

section \<open>Transactions\<close>

record transaction =
  tr_mempool :: tx_mempool
  tr_wallet :: wallet

fun add_outputs :: "utxo_out list \<Rightarrow> wallet \<Rightarrow> int \<times> wallet" where
  "add_outputs [] w = (0, w)"
| "add_outputs (out # outs) w =
     (let (ret, w1) = wallet_AddCoin (uo_address out) (uo_value out) w
      in if ret \<noteq> 0 then (-1, w1) else add_outputs outs w1)"

fun genesis :: "utxo list \<Rightarrow> transaction \<Rightarrow> transaction option" where
  "genesis [] t = Some t"
| "genesis (u # us) t =
     (let (_, p) = AddUTXO u (tr_mempool t); (ret, w) = add_outputs (ut_out u) (tr_wallet t)
      in if ret \<noteq> 0 then None else genesis us \<lparr>tr_mempool = p, tr_wallet = w\<rparr>)"

definition new_transaction :: "utxo list \<Rightarrow> wallet \<Rightarrow> transaction option" where
  "new_transaction genesis_transactions w = genesis genesis_transactions \<lparr>tr_mempool = new_tx_mempool, tr_wallet = w\<rparr>"

text \<open>The outputs that the inputs name, up to the first that is not there.\<close>

fun read_inputs :: "utxo_in list \<Rightarrow> string \<Rightarrow> tx_mempool \<Rightarrow> (utxo_error + utxo_out list) option" where
  "read_inputs [] address p = Some (Inr [])"
| "read_inputs (x # xs) address p =
     (case GetUTXO (ui_prev_id x) (ui_out_idx x) address p of
        None \<Rightarrow> None
      | Some (Inl e) \<Rightarrow> Some (Inl e)
      | Some (Inr out) \<Rightarrow>
          (case read_inputs xs address p of
             None \<Rightarrow> None
           | Some (Inl e) \<Rightarrow> Some (Inl e)
           | Some (Inr outs) \<Rightarrow> Some (Inr (out # outs))))"

definition first_key :: "utxo_out list \<Rightarrow> string" where
  "first_key outs = fold (\<lambda>out key. if key = [] then uo_pub_key out else key) outs []"

definition verify_nonce :: "utxo_in list \<Rightarrow> int" where
  "verify_nonce xs = fold (\<lambda>x n. i64 (n + ui_prev_id x)) xs 0"

definition GetInput ::
  "(string \<Rightarrow> string \<Rightarrow> string \<Rightarrow> bool) \<Rightarrow> utxo \<Rightarrow> transaction \<Rightarrow> (utxo_error + utxo_out list) option" where
  "GetInput ecdsa u t =
     (if ut_in u = [] \<and> ut_address u = ''0000'' then Some (Inr [])
      else case read_inputs (ut_in u) (ut_address u) (tr_mempool t) of
             None \<Rightarrow> None
           | Some (Inl e) \<Rightarrow> Some (Inl e)
           | Some (Inr outs) \<Rightarrow>
               if outs = [] then Some (Inl INPUT_INVALID)
               else if ut_sig u = [] then Some (Inl INPUT_INVALID)
               else if \<not> ecdsa (ut_address u @ to_string_int (verify_nonce (ut_in u))) (first_key outs) (ut_sig u)
               then Some (Inl KEY_INVALID)
               else if \<exists>out \<in> set outs. uo_pub_key out \<noteq> first_key outs then Some (Inl KEY_INVALID)
               else Some (Inr outs))"

definition VerifyUTXO :: "utxo \<Rightarrow> utxo_out list \<Rightarrow> bool" where
  "VerifyUTXO u ins =
     (0 < fold (\<lambda>out v. i64 (v - uo_value out)) (ut_out u) (fold (\<lambda>out v. i64 (v + uo_value out)) ins 0))"

fun spend_inputs :: "utxo_in list \<Rightarrow> string \<Rightarrow> int \<Rightarrow> tx_mempool \<Rightarrow> (int \<times> tx_mempool) option" where
  "spend_inputs [] address total_value p = Some (total_value, p)"
| "spend_inputs (x # xs) address total_value p =
     (case MarkSpend (ui_prev_id x) (ui_out_idx x) address p of
        None \<Rightarrow> None
      | Some (value, p1) \<Rightarrow> if value < 0 then None else spend_inputs xs address (i64 (total_value + value)) p1)"

definition Transaction_AddCoin :: "utxo \<Rightarrow> transaction \<Rightarrow> (int \<times> transaction) option" where
  "Transaction_AddCoin u t =
     (case spend_inputs (ut_in u) (ut_address u) 0 (tr_mempool t) of
        None \<Rightarrow> None
      | Some (total_value, p) \<Rightarrow>
          let (ret, w) = wallet_AddCoin (ut_address u) (i64 (- total_value)) (tr_wallet t)
          in if ret \<noteq> 0 then Some (-1, \<lparr>tr_mempool = p, tr_wallet = w\<rparr>)
             else let (ret1, w1) = add_outputs (ut_out u) w
                  in Some (if ret1 \<noteq> 0 then -1 else 0, \<lparr>tr_mempool = p, tr_wallet = w1\<rparr>))"

definition AddTransaction ::
  "(string \<Rightarrow> string \<Rightarrow> string \<Rightarrow> bool) \<Rightarrow> utxo \<Rightarrow> transaction \<Rightarrow> (int \<times> transaction) option" where
  "AddTransaction ecdsa u t =
     (case GetInput ecdsa u t of
        None \<Rightarrow> None
      | Some (Inl e) \<Rightarrow> Some (-1, t)
      | Some (Inr ins) \<Rightarrow>
          if \<not> VerifyUTXO u ins then Some (-1, t)
          else case Transaction_AddCoin u t of
                 None \<Rightarrow> None
               | Some (ret, t1) \<Rightarrow>
                   if ret \<noteq> 0 then Some (-1, t1)
                   else let (i, p) = AddUTXO u (tr_mempool t1) in Some (i, t1\<lparr>tr_mempool := p\<rparr>))"

definition AddTransaction_str ::
  "(string \<Rightarrow> string \<Rightarrow> string \<Rightarrow> bool) \<Rightarrow> (string \<Rightarrow> utxo option) \<Rightarrow> string \<Rightarrow> transaction \<Rightarrow> (int \<times> transaction) option" where
  "AddTransaction_str ecdsa parse s t =
     (case parse s of None \<Rightarrow> Some (-1, t) | Some u \<Rightarrow> AddTransaction ecdsa u t)"

section \<open>The executors\<close>

record utxo_query =
  uq_query_transaction :: bool
  uq_end_id :: int
  uq_num :: int
  uq_address :: string

record utxo_query_response =
  ur_utxos :: "utxo list"
  ur_value :: int

definition utxo_ExecuteData ::
  "(string \<Rightarrow> string \<Rightarrow> string \<Rightarrow> bool) \<Rightarrow> (string \<Rightarrow> utxo option) \<Rightarrow> (int \<Rightarrow> string) \<Rightarrow> string \<Rightarrow> transaction
     \<Rightarrow> (string option \<times> transaction) option" where
  "utxo_ExecuteData ecdsa parse ser client_request t =
     (case parse client_request of
        None \<Rightarrow> Some (None, t)
      | Some u \<Rightarrow> map_option (\<lambda>(ret, t1). (Some (ser ret), t1)) (AddTransaction ecdsa u t))"

definition utxo_Query ::
  "(string \<Rightarrow> utxo_query option) \<Rightarrow> (utxo_query_response \<Rightarrow> string) \<Rightarrow> string \<Rightarrow> transaction
     \<Rightarrow> (string option \<times> transaction) option" where
  "utxo_Query parse ser request_str t =
     (case parse request_str of
        None \<Rightarrow> Some (None, t)
      | Some q \<Rightarrow>
          if uq_query_transaction q
          then map_option (\<lambda>us. (Some (ser \<lparr>ur_utxos = us, ur_value = 0\<rparr>), t))
                 (GetUTXO_list (uq_end_id q) (uq_num q) (tr_mempool t))
          else let (v, w) = GetCoin (uq_address q) (tr_wallet t)
               in Some (Some (ser \<lparr>ur_utxos = [], ur_value = v\<rparr>), t\<lparr>tr_wallet := w\<rparr>))"

section \<open>Outputs\<close>

text \<open>The output that an input names.\<close>

definition output_at :: "tx_mempool \<Rightarrow> utxo_in \<Rightarrow> utxo_out option" where
  "output_at p x =
     (case sm_find (ui_prev_id x) (tp_txs p) of
        None \<Rightarrow> None
      | Some u \<Rightarrow> if 0 \<le> ui_out_idx x \<and> ui_out_idx x < int (length (ut_out u))
                 then Some (ut_out u ! nat (ui_out_idx x)) else None)"

text \<open>The pool has transactions under the numbers it has given out only.\<close>

definition mempool_wf :: "tx_mempool \<Rightarrow> bool" where
  "mempool_wf p \<longleftrightarrow> sm_wf (tp_txs p) \<and> 0 \<le> tp_id p \<and> (\<forall>k \<in> fst ` set (tp_txs p). 0 \<le> k \<and> k < tp_id p)"

lemma GetUTXO_Inr:
  "GetUTXO (ui_prev_id x) (ui_out_idx x) a p = Some (Inr out)
     \<longleftrightarrow> output_at p x = Some out \<and> \<not> uo_spent out \<and> uo_address out = a"
  by (auto simp: GetUTXO_def output_at_def Let_def split: option.splits if_splits)

lemma read_inputs_Inr:
  "read_inputs xs a p = Some (Inr outs) \<Longrightarrow>
     map (output_at p) xs = map Some outs \<and> (\<forall>out \<in> set outs. \<not> uo_spent out \<and> uo_address out = a)"
proof (induction xs arbitrary: outs)
  case (Cons x xs)
  obtain out outs' where o: "GetUTXO (ui_prev_id x) (ui_out_idx x) a p = Some (Inr out)" "read_inputs xs a p = Some (Inr outs')" "outs = out # outs'"
    using Cons.prems by (auto split: option.splits sum.splits)
  show ?case using Cons.IH [OF o(2)] o(1,3) by (simp add: GetUTXO_Inr)
qed simp

lemma MarkSpend_output:
  assumes "MarkSpend (ui_prev_id x) (ui_out_idx x) a p = Some (v, p')" "0 \<le> v"
  obtains out where "output_at p x = Some out" "v = uo_value out" "tp_id p' = tp_id p"
    "fst ` set (tp_txs p') = fst ` set (tp_txs p)" "sm_wf (tp_txs p) \<Longrightarrow> sm_wf (tp_txs p')"
    "\<And>y. output_at p' y = (if y = x then Some (out\<lparr>uo_spent := True\<rparr>) else output_at p y)"
proof -
  obtain u where u: "sm_find (ui_prev_id x) (tp_txs p) = Some u" "0 \<le> ui_out_idx x" "ui_out_idx x < int (length (ut_out u))"
    and v: "v = uo_value (ut_out u ! nat (ui_out_idx x))"
    and p': "p' = p\<lparr>tp_txs := sm_put (ui_prev_id x) (mark_output (nat (ui_out_idx x)) u) (tp_txs p)\<rparr>"
    using assms by (auto simp: MarkSpend_def split: option.splits if_splits)
  have eq: "y = x \<longleftrightarrow> ui_prev_id y = ui_prev_id x \<and> ui_out_idx y = ui_out_idx x" for y by (cases x; cases y) auto
  have "ui_prev_id x \<in> fst ` set (tp_txs p)" using sm_find_in_set [OF u(1)] by force
  then have keys: "fst ` set (tp_txs p') = fst ` set (tp_txs p)" using p' by auto
  have out: "output_at p x = Some (ut_out u ! nat (ui_out_idx x))" using u by (simp add: output_at_def)
  have outs: "output_at p' y = (if y = x then Some ((ut_out u ! nat (ui_out_idx x))\<lparr>uo_spent := True\<rparr>) else output_at p y)" for y
    using u p' by (auto simp: output_at_def mark_output_def eq nth_list_update nat_eq_iff)
  show thesis by (rule that [OF out v _ keys _ outs]) (simp_all add: p')
qed

lemma spend_inputs_output:
  assumes "spend_inputs xs a n p = Some (tv, p')"
  shows "tp_id p' = tp_id p \<and> fst ` set (tp_txs p') = fst ` set (tp_txs p) \<and> (sm_wf (tp_txs p) \<longrightarrow> sm_wf (tp_txs p'))
    \<and> (\<forall>x \<in> set xs. output_at p x \<noteq> None)
    \<and> (\<forall>y. output_at p' y = (if y \<in> set xs then map_option (uo_spent_update (\<lambda>_. True)) (output_at p y) else output_at p y))"
  using assms
proof (induction xs arbitrary: n p)
  case (Cons x xs)
  obtain v p1 where v: "MarkSpend (ui_prev_id x) (ui_out_idx x) a p = Some (v, p1)" "0 \<le> v"
    and rest: "spend_inputs xs a (i64 (n + v)) p1 = Some (tv, p')"
    using Cons.prems by (auto split: option.splits if_splits)
  obtain out where out: "output_at p x = Some out" "tp_id p1 = tp_id p" "fst ` set (tp_txs p1) = fst ` set (tp_txs p)"
    "sm_wf (tp_txs p) \<Longrightarrow> sm_wf (tp_txs p1)"
    "\<And>y. output_at p1 y = (if y = x then Some (out\<lparr>uo_spent := True\<rparr>) else output_at p y)"
    using MarkSpend_output [OF v] by metis
  show ?case using Cons.IH [OF rest] out by (auto split: if_splits)
qed simp

section \<open>One transaction\<close>

lemma add_outputs_ret [simp]: "fst (add_outputs outs w) = 0"
  by (induction outs arbitrary: w) (simp_all add: wallet_AddCoin_def)

lemma Transaction_AddCoin_eq:
  "Transaction_AddCoin u t =
     map_option (\<lambda>(tv, p). (0, \<lparr>tr_mempool = p,
         tr_wallet = snd (add_outputs (ut_out u) (snd (wallet_AddCoin (ut_address u) (i64 (- tv)) (tr_wallet t))))\<rparr>))
       (spend_inputs (ut_in u) (ut_address u) 0 (tr_mempool t))"
  by (simp add: Transaction_AddCoin_def wallet_AddCoin_def case_prod_beta split: option.split)

lemma AddTransaction_cases:
  assumes "AddTransaction ecdsa u t = Some (r, t')"
  obtains (rejected) "r = -1" "t' = t"
  | (accepted) ins tv p where "GetInput ecdsa u t = Some (Inr ins)" "VerifyUTXO u ins"
      "spend_inputs (ut_in u) (ut_address u) 0 (tr_mempool t) = Some (tv, p)" "r = tp_id p"
      "tr_mempool t' = snd (AddUTXO u p)"
      "tr_wallet t' = snd (add_outputs (ut_out u) (snd (wallet_AddCoin (ut_address u) (i64 (- tv)) (tr_wallet t))))"
proof (cases "\<exists>ins. GetInput ecdsa u t = Some (Inr ins) \<and> VerifyUTXO u ins")
  case False
  then have "r = -1 \<and> t' = t" using assms by (auto simp: AddTransaction_def split: option.splits sum.splits if_splits)
  then show thesis using rejected by simp
next
  case True
  then obtain ins where ins: "GetInput ecdsa u t = Some (Inr ins)" "VerifyUTXO u ins" by blast
  obtain tv p where sp: "spend_inputs (ut_in u) (ut_address u) 0 (tr_mempool t) = Some (tv, p)"
    using assms ins by (cases "spend_inputs (ut_in u) (ut_address u) 0 (tr_mempool t)") (auto simp: AddTransaction_def Transaction_AddCoin_eq)
  show thesis using assms ins sp by (intro accepted [OF ins sp]) (auto simp: AddTransaction_def Transaction_AddCoin_eq AddUTXO_def)
qed

lemma GetInput_Inr:
  assumes "GetInput ecdsa u t = Some (Inr ins)"
  shows "map (output_at (tr_mempool t)) (ut_in u) = map Some ins
    \<and> (\<forall>out \<in> set ins. \<not> uo_spent out \<and> uo_address out = ut_address u \<and> uo_pub_key out = first_key ins)
    \<and> (ut_in u \<noteq> [] \<longrightarrow> ecdsa (ut_address u @ to_string_int (verify_nonce (ut_in u))) (first_key ins) (ut_sig u))"
proof (cases "ut_in u = [] \<and> ut_address u = ''0000''")
  case True
  then show ?thesis using assms by (simp add: GetInput_def)
next
  case False
  then have "read_inputs (ut_in u) (ut_address u) (tr_mempool t) = Some (Inr ins)"
    "ecdsa (ut_address u @ to_string_int (verify_nonce (ut_in u))) (first_key ins) (ut_sig u)"
    "\<forall>out \<in> set ins. uo_pub_key out = first_key ins"
    using assms unfolding GetInput_def by (auto split: option.splits sum.splits if_splits)
  then show ?thesis using read_inputs_Inr by fastforce
qed

lemma AddUTXO_output:
  assumes "mempool_wf p" "tp_id p < 2 ^ 63 - 1"
  shows "mempool_wf (snd (AddUTXO u p))" "tp_id (snd (AddUTXO u p)) = tp_id p + 1"
    "output_at p x \<noteq> None \<Longrightarrow> output_at (snd (AddUTXO u p)) x = output_at p x"
proof -
  show id: "tp_id (snd (AddUTXO u p)) = tp_id p + 1" using assms by (simp add: AddUTXO_def mempool_wf_def)
  have "\<forall>k \<in> fst ` set (tp_txs (snd (AddUTXO u p))). 0 \<le> k \<and> k < tp_id p + 1"
    using assms(1) unfolding AddUTXO_def mempool_wf_def snd_conv tx_mempool.simps keys_put by auto
  then show "mempool_wf (snd (AddUTXO u p))" using assms id by (simp add: mempool_wf_def) (simp add: AddUTXO_def)
  have "sm_find (tp_id p) (tp_txs p) = None" using assms(1) by (force simp: mempool_wf_def sm_find_None_iff)
  then show "output_at (snd (AddUTXO u p)) x = output_at p x" if "output_at p x \<noteq> None"
    using that by (auto simp: output_at_def AddUTXO_def)
qed

lemma AddTransaction_spent:
  assumes step: "AddTransaction ecdsa u t = Some (r, t')"
    and wf: "mempool_wf (tr_mempool t)" "tp_id (tr_mempool t) < 2 ^ 63 - 1"
  shows "mempool_wf (tr_mempool t') \<and> tp_id (tr_mempool t') \<le> tp_id (tr_mempool t) + 1
    \<and> (\<forall>x out. output_at (tr_mempool t) x = Some out \<and> uo_spent out \<longrightarrow> output_at (tr_mempool t') x = Some out)
    \<and> (r \<noteq> -1 \<longrightarrow> (\<forall>x \<in> set (ut_in u). \<exists>out. output_at (tr_mempool t) x = Some out \<and> \<not> uo_spent out
          \<and> output_at (tr_mempool t') x = Some (out\<lparr>uo_spent := True\<rparr>)))"
  using step
proof (cases rule: AddTransaction_cases)
  case rejected
  then show ?thesis using wf by simp
next
  case (accepted ins tv p)
  note sp = spend_inputs_output [OF accepted(3)]
  have p: "mempool_wf p" "tp_id p < 2 ^ 63 - 1" using sp wf by (simp_all add: mempool_wf_def)
  note add = AddUTXO_output [OF p]
  have kept: "output_at (tr_mempool t') x = output_at p x" if "output_at p x \<noteq> None" for x
    using add(3) [OF that] accepted(5) by simp
  have "output_at (tr_mempool t') x = Some out" if "output_at (tr_mempool t) x = Some out" "uo_spent out" for x out
  proof -
    have "output_at p x = Some out" using sp that by auto
    then show ?thesis using kept by simp
  qed
  moreover have "\<exists>out. output_at (tr_mempool t) x = Some out \<and> \<not> uo_spent out
      \<and> output_at (tr_mempool t') x = Some (out\<lparr>uo_spent := True\<rparr>)" if x: "x \<in> set (ut_in u)" for x
  proof -
    have "output_at (tr_mempool t) x \<in> Some ` set ins" using GetInput_Inr [OF accepted(1)] x by (metis image_eqI image_set)
    then obtain out where out: "output_at (tr_mempool t) x = Some out" "\<not> uo_spent out" using GetInput_Inr [OF accepted(1)] by auto
    then have "output_at p x = Some (out\<lparr>uo_spent := True\<rparr>)" using sp x by simp
    then show ?thesis using kept out by simp
  qed
  ultimately show ?thesis using AddUTXO_output(1,2) [OF p, of u] accepted(5) sp by simp
qed

section \<open>Runs\<close>

fun tx_run :: "(string \<Rightarrow> string \<Rightarrow> string \<Rightarrow> bool) \<Rightarrow> utxo list \<Rightarrow> transaction \<Rightarrow> (int list \<times> transaction) option" where
  "tx_run ecdsa [] t = Some ([], t)"
| "tx_run ecdsa (u # us) t =
     Option.bind (AddTransaction ecdsa u t) (\<lambda>(r, t1). map_option (\<lambda>(rs, t2). (r # rs, t2)) (tx_run ecdsa us t1))"

lemma tx_run_Cons:
  assumes "tx_run ecdsa (u # us) t = Some (rs, t')"
  obtains r t1 rs1 where "AddTransaction ecdsa u t = Some (r, t1)" "tx_run ecdsa us t1 = Some (rs1, t')" "rs = r # rs1"
  using assms by (auto simp: bind_eq_Some_conv)

lemma length_tx_run: "tx_run ecdsa us t = Some (rs, t') \<Longrightarrow> length rs = length us"
  by (induction us arbitrary: t rs) (auto elim!: tx_run_Cons simp del: tx_run.simps(2))

text \<open>A transaction with a spent input is rejected.\<close>

lemma spent_rejected:
  assumes "tx_run ecdsa us t = Some (rs, t')" "mempool_wf (tr_mempool t)" "tp_id (tr_mempool t) + int (length us) < 2 ^ 63"
    and "output_at (tr_mempool t) x = Some out" "uo_spent out" "j < length us" "x \<in> set (ut_in (us ! j))"
  shows "rs ! j = -1"
  using assms
proof (induction us arbitrary: t rs j)
  case (Cons u us)
  obtain r t1 rs1 where st: "AddTransaction ecdsa u t = Some (r, t1)" and run: "tx_run ecdsa us t1 = Some (rs1, t')" and rs: "rs = r # rs1"
    using Cons.prems(1) by (rule tx_run_Cons)
  note sp = AddTransaction_spent [OF st Cons.prems(2)]
  have b: "tp_id (tr_mempool t) < 2 ^ 63 - 1" using Cons.prems(3) by simp
  show ?case
  proof (cases j)
    case 0
    then have "x \<in> set (ut_in u)" using Cons.prems(7) by simp
    then have "r = -1" using sp [OF b] Cons.prems(4,5) by auto
    then show ?thesis using rs 0 by simp
  next
    case (Suc k)
    have "rs1 ! k = -1" using sp [OF b] Cons.prems(3-7) Suc by (intro Cons.IH [OF run]) auto
    then show ?thesis using rs Suc by simp
  qed
qed simp

section \<open>Unspent values\<close>

text \<open>The unspent outputs of the pool that satisfy a test, summed up.\<close>

definition out_sum :: "(utxo_out \<Rightarrow> bool) \<Rightarrow> utxo_out list \<Rightarrow> int" where
  "out_sum P outs = sum_list (map (\<lambda>out. if \<not> uo_spent out \<and> P out then uo_value out else 0) outs)"

definition unspent :: "(utxo_out \<Rightarrow> bool) \<Rightarrow> tx_mempool \<Rightarrow> int" where
  "unspent P p = sum_list (map (\<lambda>e. out_sum P (ut_out (snd e))) (tp_txs p))"

lemma sum_put:
  fixes f :: "'k::linorder \<times> 'v \<Rightarrow> int"
  assumes "sm_wf m"
  shows "sum_list (map f (sm_put k v m)) = sum_list (map f m) - (case sm_find k m of None \<Rightarrow> 0 | Some v' \<Rightarrow> f (k, v')) + f (k, v)"
  using assms
proof (induction k v m rule: sm_put.induct)
  case (2 k v k' v' m)
  have "sm_find k m = None" if "k < k'" using that 2(2) by (force simp: sm_find_None_iff)
  then show ?case using 2 by auto
qed simp

lemma out_sum_Cons [simp]:
  "out_sum P [] = 0" "out_sum P (out # outs) = (if \<not> uo_spent out \<and> P out then uo_value out else 0) + out_sum P outs"
  by (simp_all add: out_sum_def)

lemma unspent_MarkSpend:
  assumes "MarkSpend (ui_prev_id x) (ui_out_idx x) a p = Some (v, p')" "0 \<le> v" "output_at p x = Some out" "sm_wf (tp_txs p)"
  shows "unspent P p' = unspent P p - (if \<not> uo_spent out \<and> P out then uo_value out else 0)"
proof -
  obtain u where u: "sm_find (ui_prev_id x) (tp_txs p) = Some u" "nat (ui_out_idx x) < length (ut_out u)"
    and out: "out = ut_out u ! nat (ui_out_idx x)"
    and p': "p' = p\<lparr>tp_txs := sm_put (ui_prev_id x) (mark_output (nat (ui_out_idx x)) u) (tp_txs p)\<rparr>"
    using assms(1-3) by (auto simp: MarkSpend_def output_at_def split: option.splits if_splits)
  have "out_sum P (ut_out (mark_output (nat (ui_out_idx x)) u)) = out_sum P (ut_out u) - (if \<not> uo_spent out \<and> P out then uo_value out else 0)"
    using u(2) by (simp add: mark_output_def out_sum_def sum_list_list_update out)
  then show ?thesis using u(1) by (simp add: unspent_def p' sum_put [OF assms(4)])
qed

lemma i64_add [simp]: "i64 (i64 a + b) = i64 (a + b)" "i64 (b + i64 a) = i64 (b + a)" "i64 (i64 a - b) = i64 (a - b)" "i64 (i64 a) = i64 a"
proof -
  show idem: "i64 (i64 a) = i64 a" for a by (simp add: i64_def)
  have add: "i64 (i64 a + i64 b) = i64 (a + b)" for a b unfolding i64_def by (rule signed_take_bit_add)
  show l: "i64 (i64 a + b) = i64 (a + b)" for a b using add [of "i64 a" b] add [of a b] idem by simp
  show "i64 (b + i64 a) = i64 (b + a)" using l [of a b] by (simp add: add.commute)
  show "i64 (i64 a - b) = i64 (a - b)" using l [of a "- b"] by simp
qed

text \<open>Spending distinct unspent outputs of one address.\<close>

lemma spend_inputs_sum:
  assumes "spend_inputs xs a n p = Some (tv, p')" "map (output_at p) xs = map Some ins" "distinct xs"
    and "\<forall>out \<in> set ins. \<not> uo_spent out" "sm_wf (tp_txs p)"
  shows "i64 tv = i64 (n + sum_list (map uo_value ins)) \<and> unspent P p' = unspent P p - out_sum P ins"
  using assms
proof (induction xs arbitrary: n p ins)
  case (Cons x xs)
  obtain out ins' where ins: "ins = out # ins'" "output_at p x = Some out" using Cons.prems(2) by (cases ins) auto
  obtain v p1 where v: "MarkSpend (ui_prev_id x) (ui_out_idx x) a p = Some (v, p1)" "0 \<le> v"
    and rest: "spend_inputs xs a (i64 (n + v)) p1 = Some (tv, p')"
    using Cons.prems(1) by (auto split: option.splits if_splits)
  obtain out' where o: "output_at p x = Some out'" "v = uo_value out'" "sm_wf (tp_txs p) \<Longrightarrow> sm_wf (tp_txs p1)"
    "\<And>y. output_at p1 y = (if y = x then Some (out'\<lparr>uo_spent := True\<rparr>) else output_at p y)"
    using MarkSpend_output [OF v] by metis
  have "map (output_at p1) xs = map (output_at p) xs" using Cons.prems(3) o(4) by auto
  moreover have "map (output_at p) xs = map Some ins'" using Cons.prems(2) ins by simp
  ultimately have "map (output_at p1) xs = map Some ins'" by (rule trans)
  then have IH: "i64 tv = i64 (i64 (n + v) + sum_list (map uo_value ins')) \<and> unspent P p' = unspent P p1 - out_sum P ins'"
    using Cons.prems ins o(3) by (intro Cons.IH [OF rest]) auto
  have "unspent P p1 = unspent P p - (if P out then uo_value out else 0)"
    using unspent_MarkSpend [OF v ins(2) Cons.prems(5), of P] Cons.prems(4) ins(1) by simp
  then show ?case using IH ins o(1,2) Cons.prems(4) by (simp add: add.assoc)
qed simp

lemma unspent_AddUTXO:
  assumes "mempool_wf p"
  shows "unspent P (snd (AddUTXO u p)) = unspent P p + out_sum P (ut_out u)"
proof -
  have "sm_find (tp_id p) (tp_txs p) = None" using assms by (force simp: mempool_wf_def sm_find_None_iff)
  then show ?thesis using assms by (simp add: unspent_def AddUTXO_def sum_put mempool_wf_def)
qed

lemma add_outputs_get:
  "i64 (sm_get 0 a (snd (add_outputs outs w))) = i64 (sm_get 0 a w + sum_list (map uo_value (filter (\<lambda>out. uo_address out = a) outs)))"
proof (induction outs arbitrary: w)
  case (Cons out outs)
  have "add_outputs (out # outs) w = add_outputs outs (snd (wallet_AddCoin (uo_address out) (uo_value out) w))"
    by (simp add: wallet_AddCoin_def)
  then show ?case using Cons.IH by (simp add: wallet_AddCoin_def add.assoc)
qed simp

section \<open>Properties\<close>

text \<open>C17: no output is spent twice. In any sequence of transactions, two that are accepted have no input
  in common; the numbers of the transactions are below the greatest \<open>int64_t\<close>.\<close>

theorem no_double_spend:
  assumes "tx_run ecdsa us t = Some (rs, t')" "mempool_wf (tr_mempool t)" "tp_id (tr_mempool t) + int (length us) < 2 ^ 63"
    and "i < j" "j < length us" "rs ! i \<noteq> -1" "rs ! j \<noteq> -1"
  shows "set (ut_in (us ! i)) \<inter> set (ut_in (us ! j)) = {}"
  using assms
proof (induction us arbitrary: t rs i j)
  case (Cons u us)
  obtain r t1 rs1 where st: "AddTransaction ecdsa u t = Some (r, t1)" and run: "tx_run ecdsa us t1 = Some (rs1, t')" and rs: "rs = r # rs1"
    using Cons.prems(1) by (rule tx_run_Cons)
  have b: "tp_id (tr_mempool t) < 2 ^ 63 - 1" using Cons.prems(3) by simp
  note sp = AddTransaction_spent [OF st Cons.prems(2) b]
  have wf1: "mempool_wf (tr_mempool t1)" "tp_id (tr_mempool t1) + int (length us) < 2 ^ 63" using sp Cons.prems(3) by auto
  obtain k where k: "j = Suc k" "k < length us" using Cons.prems(4,5) by (cases j) auto
  show ?case
  proof (cases i)
    case 0
    have "False" if x: "x \<in> set (ut_in u)" "x \<in> set (ut_in (us ! k))" for x
    proof -
      obtain out where "output_at (tr_mempool t1) x = Some (out\<lparr>uo_spent := True\<rparr>)" using sp x(1) 0 Cons.prems(6) rs by auto
      then have "rs1 ! k = -1" using spent_rejected [OF run wf1, of x] x(2) k(2) by simp
      then show False using Cons.prems(7) rs k by simp
    qed
    then show ?thesis using 0 k by auto
  next
    case (Suc l)
    then show ?thesis using Cons.IH [OF run wf1, of l k] Cons.prems(4,6,7) rs k by simp
  qed
qed simp

text \<open>A balance is right when the wallet has what the pool has unspent at the address.\<close>

definition balanced :: "transaction \<Rightarrow> bool" where
  "balanced t \<longleftrightarrow> (\<forall>a. sm_get 0 a (tr_wallet t) = i64 (unspent (\<lambda>out. uo_address out = a) (tr_mempool t)))"

definition plain :: "utxo \<Rightarrow> bool" where
  "plain u \<longleftrightarrow> distinct (ut_in u) \<and> (\<forall>out \<in> set (ut_out u). \<not> uo_spent out)"

lemma out_sum_plain: "\<forall>out \<in> set outs. \<not> uo_spent out \<Longrightarrow> out_sum P outs = sum_list (map uo_value (filter P outs))"
  by (induction outs) auto

lemma wallet_range: "\<forall>a. i64 (sm_get 0 a w) = sm_get 0 a w \<Longrightarrow> i64 (sm_get 0 a (snd (add_outputs outs w))) = sm_get 0 a (snd (add_outputs outs w))"
proof (induction outs arbitrary: w)
  case (Cons out outs)
  have "add_outputs (out # outs) w = add_outputs outs (snd (wallet_AddCoin (uo_address out) (uo_value out) w))"
    by (simp add: wallet_AddCoin_def)
  then show ?case using Cons by (simp add: wallet_AddCoin_def)
qed simp

lemma AddTransaction_balanced:
  assumes "AddTransaction ecdsa u t = Some (r, t')" "mempool_wf (tr_mempool t)" "tp_id (tr_mempool t) < 2 ^ 63 - 1" "plain u" "balanced t"
  shows "balanced t'"
  using assms(1)
proof (cases rule: AddTransaction_cases)
  case (accepted ins tv p)
  note ins = GetInput_Inr [OF accepted(1)]
  have wf: "sm_wf (tp_txs (tr_mempool t))" using assms(2) by (simp add: mempool_wf_def)
  have p: "mempool_wf p" using spend_inputs_output [OF accepted(3)] assms(2) by (simp add: mempool_wf_def)
  let ?w = "snd (wallet_AddCoin (ut_address u) (i64 (- tv)) (tr_wallet t))"
  have "sm_get 0 a (tr_wallet t') = i64 (unspent (\<lambda>out. uo_address out = a) (tr_mempool t'))" for a
  proof -
    let ?P = "\<lambda>out. uo_address out = a"
    have sp: "i64 tv = i64 (sum_list (map uo_value ins))" "unspent ?P p = unspent ?P (tr_mempool t) - out_sum ?P ins"
      using spend_inputs_sum [OF accepted(3), of ins ?P] ins assms(4) wf by (auto simp: plain_def)
    have here: "out_sum ?P ins = (if a = ut_address u then sum_list (map uo_value ins) else 0)"
      using ins by (auto simp: out_sum_plain filter_id_conv filter_empty_conv)
    have neg: "i64 (n - tv) = i64 (n - sum_list (map uo_value ins))" for n
      using i64_add(2) [of "n - tv" tv] sp(1) by (metis add_diff_cancel_left' diff_add_cancel i64_add(2,3))
    have range: "\<forall>b. i64 (sm_get 0 b ?w) = sm_get 0 b ?w" using assms(5) by (simp add: wallet_AddCoin_def balanced_def)
    have "sm_get 0 a (tr_wallet t') = i64 (sm_get 0 a ?w + sum_list (map uo_value (filter ?P (ut_out u))))"
      using wallet_range [OF range, of a "ut_out u"] add_outputs_get [of a "ut_out u" ?w] accepted(6) by simp
    moreover have "sm_get 0 a ?w = i64 (unspent ?P p)"
      using assms(5) sp(2) here neg by (simp add: wallet_AddCoin_def balanced_def)
    moreover have "unspent ?P (tr_mempool t') = unspent ?P p + sum_list (map uo_value (filter ?P (ut_out u)))"
      using unspent_AddUTXO [OF p, of ?P u] accepted(5) assms(4) by (simp add: out_sum_plain plain_def)
    ultimately show ?thesis by simp
  qed
  then show ?thesis by (simp add: balanced_def)
qed (use assms(5) in simp)

lemma genesis_balanced:
  assumes "genesis us t = Some t'" "mempool_wf (tr_mempool t)" "tp_id (tr_mempool t) + int (length us) < 2 ^ 63" "balanced t"
    and "\<forall>u \<in> set us. \<forall>out \<in> set (ut_out u). \<not> uo_spent out"
  shows "mempool_wf (tr_mempool t') \<and> tp_id (tr_mempool t') = tp_id (tr_mempool t) + int (length us) \<and> balanced t'"
  using assms
proof (induction us arbitrary: t)
  case (Cons u us)
  let ?t = "\<lparr>tr_mempool = snd (AddUTXO u (tr_mempool t)), tr_wallet = snd (add_outputs (ut_out u) (tr_wallet t))\<rparr>"
  have rest: "genesis us ?t = Some t'"
    using Cons.prems(1) add_outputs_ret [of "ut_out u" "tr_wallet t"] by (simp add: case_prod_beta split: if_splits)
  have b: "tp_id (tr_mempool t) < 2 ^ 63 - 1" using Cons.prems(3) by simp
  note add = AddUTXO_output(1,2) [OF Cons.prems(2) b, of u]
  have range: "\<forall>b. i64 (sm_get 0 b (tr_wallet t)) = sm_get 0 b (tr_wallet t)" using Cons.prems(4) by (simp add: balanced_def)
  have "balanced ?t"
    using unspent_AddUTXO [OF Cons.prems(2)] Cons.prems(4,5) wallet_range [OF range, of _ "ut_out u"]
      add_outputs_get [of _ "ut_out u" "tr_wallet t"]
    by (simp add: balanced_def out_sum_plain)
  then show ?case using Cons.IH [OF rest] add Cons.prems(3,5) by simp
qed simp

lemma tx_run_balanced:
  assumes "tx_run ecdsa us t = Some (rs, t')" "mempool_wf (tr_mempool t)" "tp_id (tr_mempool t) + int (length us) < 2 ^ 63"
    and "\<forall>u \<in> set us. plain u" "balanced t"
  shows "balanced t'"
  using assms
proof (induction us arbitrary: t rs)
  case (Cons u us)
  obtain r t1 rs1 where st: "AddTransaction ecdsa u t = Some (r, t1)" and run: "tx_run ecdsa us t1 = Some (rs1, t')" and rs: "rs = r # rs1"
    using Cons.prems(1) by (rule tx_run_Cons)
  have b: "tp_id (tr_mempool t) < 2 ^ 63 - 1" using Cons.prems(3) by simp
  show ?case
    by (rule Cons.IH [OF run])
      (use AddTransaction_spent [OF st Cons.prems(2) b] AddTransaction_balanced [OF st Cons.prems(2) b] Cons.prems(3-5) in auto)
qed simp

text \<open>C18: the balance that the wallet reports for an address is the sum of the unspent outputs of the pool
  at that address, as an \<open>int64_t\<close>, after the genesis transactions and any further ones that name no
  input twice and have no output that is marked as spent.\<close>

theorem wallet_is_unspent_balance:
  assumes "new_transaction gs [] = Some t0" "tx_run ecdsa us t0 = Some (rs, t)" "int (length gs) + int (length us) < 2 ^ 63"
    and "\<forall>u \<in> set gs. \<forall>out \<in> set (ut_out u). \<not> uo_spent out" "\<forall>u \<in> set us. plain u"
  shows "fst (GetCoin a (tr_wallet t)) = i64 (unspent (\<lambda>out. uo_address out = a) (tr_mempool t))"
proof -
  have "mempool_wf new_tx_mempool" by (simp add: mempool_wf_def new_tx_mempool_def)
  moreover have "balanced \<lparr>tr_mempool = new_tx_mempool, tr_wallet = []\<rparr>" by (simp add: balanced_def unspent_def new_tx_mempool_def)
  ultimately have "mempool_wf (tr_mempool t0) \<and> tp_id (tr_mempool t0) = int (length gs) \<and> balanced t0"
    using genesis_balanced [of gs "\<lparr>tr_mempool = new_tx_mempool, tr_wallet = []\<rparr>" t0] assms(1,3,4)
    by (simp add: new_transaction_def) (simp add: new_tx_mempool_def)
  then have "balanced t" using tx_run_balanced [OF assms(2)] assms(3,5) by simp
  then show ?thesis by (simp add: GetCoin_def balanced_def)
qed

text \<open>What a transaction must not do for the supply to be bounded: name an input twice, or have negative
  outputs or more than an \<open>int64_t\<close> can hold.\<close>

definition sound_outputs :: "utxo \<Rightarrow> bool" where
  "sound_outputs u \<longleftrightarrow> distinct (ut_in u) \<and> (\<forall>out \<in> set (ut_out u). 0 \<le> uo_value out) \<and> sum_list (map uo_value (ut_out u)) < 2 ^ 63"

definition no_debt :: "tx_mempool \<Rightarrow> bool" where
  "no_debt p \<longleftrightarrow> (\<forall>x out. output_at p x = Some out \<longrightarrow> 0 \<le> uo_value out)"

lemma out_sum_le: "\<forall>out \<in> set outs. 0 \<le> uo_value out \<Longrightarrow> 0 \<le> out_sum P outs \<and> out_sum P outs \<le> sum_list (map uo_value outs)"
  by (induction outs) auto

lemma no_debt_unspent:
  assumes "no_debt p" "sm_wf (tp_txs p)"
  shows "0 \<le> unspent P p"
proof -
  have "0 \<le> out_sum P (ut_out u)" if "(k, u) \<in> set (tp_txs p)" for k u
  proof -
    have "0 \<le> uo_value out" if mem: "out \<in> set (ut_out u)" for out
    proof -
      obtain n where n: "n < length (ut_out u)" "ut_out u ! n = out" using mem by (auto simp: in_set_conv_nth)
      have "output_at p \<lparr>ui_prev_id = k, ui_out_idx = int n\<rparr> = Some out"
        using n \<open>(k, u) \<in> set (tp_txs p)\<close> assms(2) by (auto simp: output_at_def sm_find_eq_set [symmetric])
      then show ?thesis using assms(1) by (auto simp: no_debt_def)
    qed
    then show ?thesis using out_sum_le by blast
  qed
  then show ?thesis unfolding unspent_def by (intro sum_list_nonneg) auto
qed

lemma AddTransaction_supply:
  assumes "AddTransaction ecdsa u t = Some (r, t')" "mempool_wf (tr_mempool t)" "tp_id (tr_mempool t) < 2 ^ 63 - 1"
    and "sound_outputs u" "no_debt (tr_mempool t)" "unspent (\<lambda>_. True) (tr_mempool t) < 2 ^ 63"
  shows "no_debt (tr_mempool t') \<and> unspent (\<lambda>_. True) (tr_mempool t') \<le> unspent (\<lambda>_. True) (tr_mempool t)"
  using assms(1)
proof (cases rule: AddTransaction_cases)
  case (accepted ins tv p)
  let ?T = "\<lambda>_ :: utxo_out. True"
  note ins = GetInput_Inr [OF accepted(1)]
  note sp = spend_inputs_output [OF accepted(3)]
  have wf: "sm_wf (tp_txs (tr_mempool t))" using assms(2) by (simp add: mempool_wf_def)
  have p: "mempool_wf p" "sm_wf (tp_txs p)" "tp_id p < 2 ^ 63 - 1" using sp assms(2,3) by (auto simp: mempool_wf_def)
  have debt: "no_debt p" using sp assms(5) unfolding no_debt_def by (auto split: if_splits)
  have spent: "unspent ?T p = unspent ?T (tr_mempool t) - sum_list (map uo_value ins)"
    using spend_inputs_sum [OF accepted(3), of ins ?T] ins assms(4) wf by (simp add: sound_outputs_def out_sum_plain)
  have total: "fold (\<lambda>out v. i64 (v + uo_value out)) outs v = i64 (v + sum_list (map uo_value outs))" if "i64 v = v" for outs v
    using that by (induction outs arbitrary: v) (simp_all add: add.assoc)
  have less: "fold (\<lambda>out v. i64 (v - uo_value out)) outs v = i64 (v - sum_list (map uo_value outs))" if "i64 v = v" for outs v
    using that by (induction outs arbitrary: v) (simp_all add: algebra_simps)
  have "0 < i64 (sum_list (map uo_value ins) - sum_list (map uo_value (ut_out u)))"
    using accepted(2) total [of 0 ins] less [of "i64 (sum_list (map uo_value ins))" "ut_out u"] by (simp add: VerifyUTXO_def)
  moreover have "0 \<le> sum_list (map uo_value (ut_out u))" "out_sum ?T (ut_out u) \<le> sum_list (map uo_value (ut_out u))"
    "sum_list (map uo_value (ut_out u)) < 2 ^ 63"
    using assms(4) out_sum_le [of "ut_out u" ?T] by (auto simp: sound_outputs_def)
  moreover have "sum_list (map uo_value ins) < 2 ^ 63" using spent no_debt_unspent [OF debt p(2), of ?T] assms(6) by simp
  moreover have "0 \<le> sum_list (map uo_value ins)"
  proof (rule sum_list_nonneg)
    fix v assume "v \<in> set (map uo_value ins)"
    then obtain out where "out \<in> set ins" "v = uo_value out" by auto
    moreover have "Some ` set ins = output_at (tr_mempool t) ` set (ut_in u)" using ins by (metis image_set)
    ultimately show "0 \<le> v" using assms(5) unfolding no_debt_def by (metis imageE image_eqI)
  qed
  ultimately have "out_sum ?T (ut_out u) \<le> sum_list (map uo_value ins)" by simp
  then have "unspent ?T (tr_mempool t') \<le> unspent ?T (tr_mempool t)"
    using unspent_AddUTXO [OF p(1), of ?T u] accepted(5) spent by simp
  moreover have "no_debt (tr_mempool t')"
    using debt assms(4) accepted(5) unfolding no_debt_def
    by (auto simp: AddUTXO_def output_at_def sound_outputs_def split: option.splits if_splits)
  ultimately show ?thesis by simp
qed (use assms in simp)

text \<open>C19: no coins are made. The unspent value in the pool does not grow, whatever transactions arrive, as
  long as no transaction names an input twice or has negative outputs or outputs that do not fit an
  \<open>int64_t\<close>.\<close>

theorem supply_never_grows:
  assumes "tx_run ecdsa us t = Some (rs, t')" "mempool_wf (tr_mempool t)" "tp_id (tr_mempool t) + int (length us) < 2 ^ 63"
    and "\<forall>u \<in> set us. sound_outputs u" "no_debt (tr_mempool t)" "unspent (\<lambda>_. True) (tr_mempool t) < 2 ^ 63"
  shows "unspent (\<lambda>_. True) (tr_mempool t') \<le> unspent (\<lambda>_. True) (tr_mempool t)"
  using assms
proof (induction us arbitrary: t rs)
  case (Cons u us)
  obtain r t1 rs1 where st: "AddTransaction ecdsa u t = Some (r, t1)" and run: "tx_run ecdsa us t1 = Some (rs1, t')" and rs: "rs = r # rs1"
    using Cons.prems(1) by (rule tx_run_Cons)
  have b: "tp_id (tr_mempool t) < 2 ^ 63 - 1" using Cons.prems(3) by simp
  have one: "no_debt (tr_mempool t1) \<and> unspent (\<lambda>_. True) (tr_mempool t1) \<le> unspent (\<lambda>_. True) (tr_mempool t)"
    using AddTransaction_supply [OF st Cons.prems(2) b] Cons.prems(4-6) by simp
  have "unspent (\<lambda>_. True) (tr_mempool t') \<le> unspent (\<lambda>_. True) (tr_mempool t1)"
    by (rule Cons.IH [OF run]) (use AddTransaction_spent [OF st Cons.prems(2) b] one Cons.prems(3-6) in auto)
  then show ?case using one by simp
qed simp

text \<open>Anyone can make coins. A transaction of the address \<open>0000\<close> without inputs needs no signature;
  one with an output of \<open>- (v + 1)\<close> and one of \<open>v\<close> is accepted in every state, and gives its second
  address an unspent output of \<open>v\<close>.\<close>

theorem unsigned_transaction_mints:
  assumes "0 < v" "v < 2 ^ 63 - 1" "ut_in u = []" "ut_address u = ''0000''"
    and "ut_out u = [\<lparr>uo_address = a, uo_value = - (v + 1), uo_spent = False, uo_pub_key = k\<rparr>,
                     \<lparr>uo_address = b, uo_value = v, uo_spent = False, uo_pub_key = k'\<rparr>]"
  shows "\<exists>t'. AddTransaction ecdsa u t = Some (tp_id (tr_mempool t), t')
    \<and> GetUTXO (tp_id (tr_mempool t)) 1 b (tr_mempool t') = Some (Inr \<lparr>uo_address = b, uo_value = v, uo_spent = False, uo_pub_key = k'\<rparr>)"
proof -
  have "VerifyUTXO u []" using assms(1,2) by (simp add: VerifyUTXO_def assms(5))
  then show ?thesis using assms(3-5)
    by (simp add: AddTransaction_def GetInput_def Transaction_AddCoin_eq AddUTXO_def GetUTXO_def)
qed

text \<open>Two genesis outputs, a transfer of the first, and a second transfer of the same output.\<close>

definition demo_out :: "string \<Rightarrow> int \<Rightarrow> utxo_out" where
  "demo_out a v = \<lparr>uo_address = a, uo_value = v, uo_spent = False, uo_pub_key = ''k''\<rparr>"

definition demo_genesis :: "utxo list" where
  "demo_genesis = [\<lparr>ut_in = [], ut_out = [demo_out ''a'' 10, demo_out ''a'' 5], ut_sig = [], ut_address = ''0'', ut_transaction_id = 0\<rparr>]"

definition demo_transfer :: "int \<Rightarrow> utxo" where
  "demo_transfer i = \<lparr>ut_in = [\<lparr>ui_prev_id = 0, ui_out_idx = i\<rparr>], ut_out = [demo_out ''b'' 4], ut_sig = ''s'', ut_address = ''a'', ut_transaction_id = 0\<rparr>"

definition demo_coins :: transaction where
  "demo_coins = \<lparr>tr_mempool = \<lparr>tp_txs = [(0, hd demo_genesis)], tp_id = 1\<rparr>, tr_wallet = [(''a'', 15)]\<rparr>"

lemma demo_genesis_run: "new_transaction demo_genesis [] = Some demo_coins"
  by (simp add: new_transaction_def demo_genesis_def AddUTXO_def new_tx_mempool_def wallet_AddCoin_def demo_out_def demo_coins_def sm_get_def)

lemma demo_transfers:
  "\<exists>t. tx_run (\<lambda>_ _ _. True) [demo_transfer 0, demo_transfer 0, demo_transfer 1] demo_coins = Some ([1, -1, 2], t)"
  by (simp add: AddTransaction_def GetInput_def GetUTXO_def demo_transfer_def demo_coins_def demo_genesis_def demo_out_def
      first_key_def VerifyUTXO_def Transaction_AddCoin_eq MarkSpend_def mark_output_def AddUTXO_def)

lemma demo_coins_wf: "mempool_wf (tr_mempool demo_coins)" "tp_id (tr_mempool demo_coins) = 1"
  by (simp_all add: mempool_wf_def demo_coins_def)

theorem no_double_spend_witness:
  "set (ut_in (demo_transfer 0)) \<inter> set (ut_in (demo_transfer 1)) = {}"
proof -
  obtain t where run: "tx_run (\<lambda>_ _ _. True) [demo_transfer 0, demo_transfer 0, demo_transfer 1] demo_coins = Some ([1, -1, 2], t)"
    using demo_transfers by blast
  show ?thesis using no_double_spend [OF run, of 0 2] demo_coins_wf by simp
qed

theorem wallet_is_unspent_balance_witness:
  "\<exists>t rs. tx_run (\<lambda>_ _ _. True) [demo_transfer 0, demo_transfer 0, demo_transfer 1] demo_coins = Some (rs, t)
     \<and> fst (GetCoin ''b'' (tr_wallet t)) = i64 (unspent (\<lambda>out. uo_address out = ''b'') (tr_mempool t))"
proof -
  obtain t where run: "tx_run (\<lambda>_ _ _. True) [demo_transfer 0, demo_transfer 0, demo_transfer 1] demo_coins = Some ([1, -1, 2], t)"
    using demo_transfers by blast
  have "fst (GetCoin ''b'' (tr_wallet t)) = i64 (unspent (\<lambda>out. uo_address out = ''b'') (tr_mempool t))"
    by (rule wallet_is_unspent_balance [OF demo_genesis_run run]) (simp_all add: demo_genesis_def demo_transfer_def demo_out_def plain_def)
  then show ?thesis using run by blast
qed

theorem supply_never_grows_witness:
  "\<exists>t rs. tx_run (\<lambda>_ _ _. True) [demo_transfer 0, demo_transfer 0, demo_transfer 1] demo_coins = Some (rs, t)
     \<and> unspent (\<lambda>_. True) (tr_mempool t) \<le> 15"
proof -
  obtain t where run: "tx_run (\<lambda>_ _ _. True) [demo_transfer 0, demo_transfer 0, demo_transfer 1] demo_coins = Some ([1, -1, 2], t)"
    using demo_transfers by blast
  have s: "unspent (\<lambda>_. True) (tr_mempool demo_coins) = 15" by (simp add: unspent_def demo_coins_def demo_genesis_def demo_out_def)
  have d: "no_debt (tr_mempool demo_coins)"
    by (auto simp: no_debt_def output_at_def demo_coins_def demo_genesis_def demo_out_def nth_Cons split: if_splits nat.splits)
  have "unspent (\<lambda>_. True) (tr_mempool t) \<le> unspent (\<lambda>_. True) (tr_mempool demo_coins)"
    by (rule supply_never_grows [OF run demo_coins_wf(1) _ _ d]) (simp_all add: s demo_coins_wf demo_transfer_def demo_out_def sound_outputs_def)
  then show ?thesis using run s by auto
qed

theorem unsigned_transaction_mints_witness:
  "\<exists>t'. AddTransaction (\<lambda>_ _ _. False)
      \<lparr>ut_in = [], ut_out = [demo_out ''x'' (- 1000), demo_out ''y'' 999], ut_sig = [], ut_address = ''0000'', ut_transaction_id = 0\<rparr> demo_coins
     = Some (1, t')"
  using unsigned_transaction_mints [of 999 "\<lparr>ut_in = [], ut_out = [demo_out ''x'' (- 1000), demo_out ''y'' 999], ut_sig = [],
      ut_address = ''0000'', ut_transaction_id = 0\<rparr>" "''x''" "''k''" "''y''" "''k''" "\<lambda>_ _ _. False" demo_coins]
  by (auto simp: demo_out_def demo_coins_wf)

end
