(* ===== verification/Collector.thy ===== *)
theory Collector
  imports Config
begin

text \<open>
  \<open>TransactionCollector\<close> and \<open>AtomicUniquePtr\<close>
  (platform/consensus/ordering/pbft/transaction_collector.h and .cpp): the votes of one sequence
  number, the request proposed for it and the status that the votes drive. The callback that
  decides a status change is an argument of \<open>AddRequest\<close>, as in the code. A call is one atomic
  step; \<open>None\<close> is undefined behaviour (a sender id outside the 128 bits of \<open>senders_\<close>, or a
  request that has been moved out).

  \<open>other_main_request_\<close> is a set ordered by the addresses of its elements: the model keeps the list
  of its elements in that order, and \<open>pos\<close> is the rank the allocator gives a new element.
\<close>

datatype TransactionStatue =
  STATUE_None | STATUE_Prepare | READY_PREPARE | READY_COMMIT | READY_EXECUTE | EXECUTED

fun statue_val :: "TransactionStatue \<Rightarrow> int" where
  "statue_val STATUE_None = 0"
| "statue_val STATUE_Prepare = -999"
| "statue_val READY_PREPARE = 1"
| "statue_val READY_COMMIT = 2"
| "statue_val READY_EXECUTE = 3"
| "statue_val EXECUTED = 4"

section \<open>The atomic pointer\<close>

record 'a atomic_ptr =
  ap_ptr :: "'a option"
  ap_v :: int

definition aup_new :: "'a atomic_ptr" where
  "aup_new = \<lparr>ap_ptr = None, ap_v = 0\<rparr>"

definition aup_Set :: "'a \<Rightarrow> 'a atomic_ptr \<Rightarrow> bool \<times> 'a atomic_ptr" where
  "aup_Set x p = (if ap_v p \<noteq> 0 then (False, p) else (True, p\<lparr>ap_ptr := Some x, ap_v := 2\<rparr>))"

definition aup_Reference :: "'a atomic_ptr \<Rightarrow> 'a option" where
  "aup_Reference p = (if ap_v p \<le> 1 then None else ap_ptr p)"

definition aup_Clear :: "'a atomic_ptr \<Rightarrow> 'a atomic_ptr" where
  "aup_Clear p = p\<lparr>ap_v := 0, ap_ptr := None\<rparr>"

section \<open>The collector\<close>

record collector =
  co_seq :: uint64
  co_has_executor :: bool
  co_is_committed :: bool
  co_is_prepared :: bool
  co_context_list :: "net_context list"
  co_prepared_proof :: "request_info list"
  co_main :: "request_info atomic_ptr"
  co_status :: TransactionStatue
  co_enable_viewchange :: bool
  co_commit_certs :: "signature_info list"
  co_senders :: "request_type \<Rightarrow> string \<Rightarrow> int set"
  co_other_main :: "request_info list"
  co_view :: uint64

definition new_collector :: "uint64 \<Rightarrow> bool \<Rightarrow> bool \<Rightarrow> collector" where
  "new_collector seq has_executor enable_viewchange =
     \<lparr>co_seq = seq, co_has_executor = has_executor, co_is_committed = False,
      co_is_prepared = False, co_context_list = [], co_prepared_proof = [], co_main = aup_new,
      co_status = STATUE_None, co_enable_viewchange = enable_viewchange, co_commit_certs = [],
      co_senders = (\<lambda>_ _. {}), co_other_main = [], co_view = 0\<rparr>"

definition SetContextList :: "uint64 \<Rightarrow> net_context list \<Rightarrow> collector \<Rightarrow> int \<times> collector" where
  "SetContextList seq cx c = (if seq \<noteq> co_seq c then (-2, c) else (0, c\<lparr>co_context_list := cx\<rparr>))"

definition HasClientContextList :: "uint64 \<Rightarrow> collector \<Rightarrow> bool" where
  "HasClientContextList seq c = (if seq \<noteq> co_seq c then False else co_context_list c \<noteq> [])"

definition FetchContextList :: "uint64 \<Rightarrow> collector \<Rightarrow> net_context list \<times> collector" where
  "FetchContextList seq c =
     (if seq \<noteq> co_seq c then ([], c) else (co_context_list c, c\<lparr>co_context_list := []\<rparr>))"

definition GetPreparedProof :: "collector \<Rightarrow> request_info list" where
  "GetPreparedProof c = co_prepared_proof c"

text \<open>\<open>Commit\<close>: the third component is the request handed to the executor.\<close>

definition add_certs :: "signature_info list \<Rightarrow> request \<Rightarrow> request" where
  "add_certs certs r =
     (if certs = [] then r
      else r\<lparr>rq_committed_certs :=
               Some ((case rq_committed_certs r of None \<Rightarrow> [] | Some cs \<Rightarrow> cs) @ certs)\<rparr>)"

definition CollectorCommit :: "collector \<Rightarrow> int \<times> collector \<times> request option" where
  "CollectorCommit c =
     (if co_status c \<noteq> READY_EXECUTE then (-2, c, None)
      else let c1 = c\<lparr>co_status := EXECUTED\<rparr>
      in case aup_Reference (co_main c1) of
           None \<Rightarrow> (-2, c1, None)
         | Some mi \<Rightarrow>
             let c2 = c1\<lparr>co_is_committed := True\<rparr>
             in if co_has_executor c2 \<and> ri_request mi \<noteq> None
                then (0, c2\<lparr>co_main := (co_main c2)\<lparr>ap_ptr := Some (mi\<lparr>ri_request := None\<rparr>)\<rparr>\<rparr>,
                      Some (add_certs (co_commit_certs c2) (the (ri_request mi))))
                else (0, c2, None))"

definition GetAllStoredHash :: "collector \<Rightarrow> string list option" where
  "GetAllStoredHash c =
     (let infos = (case aup_Reference (co_main c) of None \<Rightarrow> [] | Some mi \<Rightarrow> [mi]) @ co_other_main c
      in if \<exists>i \<in> set infos. ri_request i = None then None
         else Some (map (\<lambda>i. rq_hash (the (ri_request i))) infos))"

section \<open>Adding a message\<close>

type_synonym 'r callback = "request \<Rightarrow> nat \<Rightarrow> TransactionStatue \<Rightarrow> bool \<Rightarrow> TransactionStatue \<times> 'r"
type_synonym 'r add_result = "(int \<times> collector \<times> 'r option \<times> request option) option"

definition add_sender ::
  "request \<Rightarrow> (request_type \<Rightarrow> string \<Rightarrow> int set) \<Rightarrow> request_type \<Rightarrow> string \<Rightarrow> int set" where
  "add_sender r s = s(rq_type r := (s (rq_type r))(rq_hash r := insert (rq_sender_id r) (s (rq_type r) (rq_hash r))))"

definition record_sender :: "request \<Rightarrow> collector \<Rightarrow> collector option" where
  "record_sender r c =
     (if rq_sender_id r < 0 \<or> 128 \<le> rq_sender_id r then None
      else Some (c\<lparr>co_senders := add_sender r (co_senders c)\<rparr>))"

definition received_count :: "request \<Rightarrow> collector \<Rightarrow> nat" where
  "received_count r c = card (co_senders c (rq_type r) (rq_hash r))"

text \<open>The branch for the proposal itself.\<close>

definition AddMainRequest ::
  "nat \<Rightarrow> 'r callback \<Rightarrow> request \<Rightarrow> signature_info \<Rightarrow> collector \<Rightarrow> 'r add_result" where
  "AddMainRequest pos call_back r sig c =
     (let info = \<lparr>ri_request = Some r, ri_signature = sig\<rparr>;
          force = (co_view c \<noteq> 0 \<and> co_view c < rq_current_view r \<and> \<not> co_is_prepared c);
          c1 = (if force then c\<lparr>co_main := aup_Clear (co_main c)\<rparr> else c);
          (ret, main) = aup_Set info (co_main c1)
      in if \<not> ret then Some (-2, c1\<lparr>co_other_main := insert_at pos info (co_other_main c1)\<rparr>, None, None)
         else let c2 = c1\<lparr>co_main := main, co_view := rq_current_view r\<rparr>;
                  (st, res) = call_back r 1 (co_status c2) force
              in Some (0, c2\<lparr>co_status := st\<rparr>, Some res, None))"

text \<open>Once the prepare quorum for \<open>hash\<close> is there, a main request with another hash is replaced by
  a stored proposal with that hash, if there is one.\<close>

definition adopt_main :: "string \<Rightarrow> collector \<Rightarrow> collector option" where
  "adopt_main hash c =
     (case aup_Reference (co_main c) of
        None \<Rightarrow> Some c
      | Some mi \<Rightarrow>
          (case ri_request mi of
             None \<Rightarrow> None
           | Some m \<Rightarrow>
               if rq_hash m = hash then Some c
               else let c1 = c\<lparr>co_main := aup_Clear (co_main c)\<rparr>
                    in case List.find (\<lambda>i. map_option rq_hash (ri_request i) = Some hash) (co_other_main c1) of
                         None \<Rightarrow> Some (c1\<lparr>co_other_main := []\<rparr>)
                       | Some i \<Rightarrow> Some (c1\<lparr>co_main := snd (aup_Set i (co_main c1)), co_other_main := []\<rparr>)))"

definition filter_proof :: "string \<Rightarrow> request_info list \<Rightarrow> request_info list" where
  "filter_proof hash ps = filter (\<lambda>i. map_option rq_hash (ri_request i) = Some hash) ps"

definition AddPrepare ::
  "'r callback \<Rightarrow> request \<Rightarrow> signature_info \<Rightarrow> collector \<Rightarrow> 'r add_result" where
  "AddPrepare call_back r sig c =
     (if statue_val (co_status c) \<le> statue_val READY_PREPARE then
        if co_is_prepared c then Some (0, c, None, None)
        else case record_sender r (c\<lparr>co_prepared_proof :=
                    co_prepared_proof c @ [\<lparr>ri_request = Some r, ri_signature = sig\<rparr>]\<rparr>) of
               None \<Rightarrow> None
             | Some c1 \<Rightarrow>
                 (let (st, res) = call_back r (received_count r c1) (co_status c1) False;
                      c2 = c1\<lparr>co_status := st\<rparr>
                  in if st = READY_COMMIT
                     then case adopt_main (rq_hash r) (c2\<lparr>co_is_prepared := True\<rparr>) of
                            None \<Rightarrow> None
                          | Some c3 \<Rightarrow>
                              Some (0, c3\<lparr>co_prepared_proof :=
                                        filter_proof (rq_hash r) (co_prepared_proof c3)\<rparr>, Some res, None)
                     else Some (0, c2, Some res, None))
      else Some (0, c, None, None))"

definition AddVote ::
  "'r callback \<Rightarrow> request \<Rightarrow> signature_info \<Rightarrow> collector \<Rightarrow> 'r add_result" where
  "AddVote call_back r sig c =
     (let c0 = (if rq_type r = TYPE_COMMIT \<and> rq_data_signature r \<noteq> None
                   \<and> 0 < sg_node_id (data_signature r)
                then c\<lparr>co_commit_certs := co_commit_certs c @ [data_signature r]\<rparr> else c)
      in case record_sender r c0 of
           None \<Rightarrow> None
         | Some c1 \<Rightarrow>
             (let (st, res) = call_back r (received_count r c1) (co_status c1) False;
                  c2 = c1\<lparr>co_status := st\<rparr>
              in if st = READY_EXECUTE
                 then let (_, c3, out) = CollectorCommit c2 in Some (1, c3, Some res, out)
                 else Some (0, c2, Some res, None)))"

definition AddRequest ::
  "nat \<Rightarrow> 'r callback \<Rightarrow> request option \<Rightarrow> signature_info \<Rightarrow> bool \<Rightarrow> collector \<Rightarrow> 'r add_result" where
  "AddRequest pos call_back ro sig is_main c =
     (case ro of
        None \<Rightarrow> Some (-2, c, None, None)
      | Some r \<Rightarrow>
          if co_is_committed c then Some (-2, c, None, None)
          else if co_status c = EXECUTED then Some (-2, c, None, None)
          else if co_seq c \<noteq> rq_seq r then Some (-2, c, None, None)
          else if is_main then AddMainRequest pos call_back r sig c
          else if co_enable_viewchange c \<and> rq_type r = TYPE_PREPARE
               then AddPrepare call_back r sig c
          else AddVote call_back r sig c)"

section \<open>Runs of a collector\<close>

text \<open>
  An event is a message, the signature of its packet and the allocator's rank; \<open>AddConsensusMsg\<close>
  treats a PRE-PREPARE as the main request. A run returns the final collector, the requests
  handed to the executor, and the callback's result for every message it was called on.
\<close>

type_synonym coll_event = "request \<times> signature_info \<times> nat"

fun coll_step :: "'r callback \<Rightarrow> coll_event \<Rightarrow> collector \<Rightarrow> 'r add_result" where
  "coll_step cb (r, sig, pos) c = AddRequest pos cb (Some r) sig (rq_type r = TYPE_PRE_PREPARE) c"

definition opt_list :: "'a option \<Rightarrow> 'a list" where
  "opt_list x = (case x of None \<Rightarrow> [] | Some y \<Rightarrow> [y])"

fun coll_run ::
  "'r callback \<Rightarrow> collector \<Rightarrow> coll_event list \<Rightarrow> (collector \<times> request list \<times> (request \<times> 'r) list) option" where
  "coll_run cb c [] = Some (c, [], [])"
| "coll_run cb c (e # es) =
     (case coll_step cb e c of
        None \<Rightarrow> None
      | Some (ret, c1, res, out) \<Rightarrow>
          (case coll_run cb c1 es of
             None \<Rightarrow> None
           | Some (c2, outs, rs) \<Rightarrow>
               Some (c2, opt_list out @ outs, map (Pair (fst e)) (opt_list res) @ rs)))"

text \<open>The senders of the delivered messages of a type and hash, and the proposals delivered.\<close>

definition vote_senders :: "uint64 \<Rightarrow> request_type \<Rightarrow> string \<Rightarrow> coll_event list \<Rightarrow> int set" where
  "vote_senders seq t h es =
     rq_sender_id ` {r \<in> fst ` set es. rq_type r = t \<and> rq_hash r = h \<and> rq_seq r = seq}"

definition proposals :: "uint64 \<Rightarrow> coll_event list \<Rightarrow> request set" where
  "proposals seq es = {r \<in> fst ` set es. rq_type r = TYPE_PRE_PREPARE \<and> rq_seq r = seq}"

lemma add_sender_apply:
  "add_sender r s t h = s t h \<union> (if t = rq_type r \<and> h = rq_hash r then {rq_sender_id r} else {})"
  by (simp add: add_sender_def)

lemma record_sender_Some:
  "record_sender r c = Some c' \<Longrightarrow>
     c' = c\<lparr>co_senders := add_sender r (co_senders c)\<rparr> \<and> 0 \<le> rq_sender_id r \<and> rq_sender_id r < 128"
  by (auto simp: record_sender_def split: if_splits)

lemma adopt_main_frame:
  "adopt_main h c = Some c' \<Longrightarrow>
     co_senders c' = co_senders c \<and> co_seq c' = co_seq c \<and> co_status c' = co_status c
   \<and> co_enable_viewchange c' = co_enable_viewchange c \<and> co_has_executor c' = co_has_executor c
   \<and> co_is_prepared c' = co_is_prepared c \<and> co_is_committed c' = co_is_committed c
   \<and> co_prepared_proof c' = co_prepared_proof c \<and> co_view c' = co_view c"
  unfolding adopt_main_def Let_def by (auto split: option.splits if_splits)

lemma CollectorCommit_frame:
  "CollectorCommit c = (ret, c', out) \<Longrightarrow>
     co_senders c' = co_senders c \<and> co_seq c' = co_seq c
   \<and> co_enable_viewchange c' = co_enable_viewchange c \<and> co_has_executor c' = co_has_executor c
   \<and> co_is_prepared c' = co_is_prepared c \<and> co_view c' = co_view c"
  unfolding CollectorCommit_def Let_def by (auto split: option.splits if_splits)

lemma AddMainRequest_frame:
  "AddMainRequest pos cb r sig c = Some (ret, c', res, out) \<Longrightarrow>
     co_senders c' = co_senders c \<and> co_seq c' = co_seq c
   \<and> co_enable_viewchange c' = co_enable_viewchange c \<and> co_has_executor c' = co_has_executor c
   \<and> co_is_prepared c' = co_is_prepared c \<and> co_is_committed c' = co_is_committed c \<and> out = None"
  unfolding AddMainRequest_def Let_def by (auto split: prod.splits if_splits)

lemma AddPrepare_cases:
  assumes "AddPrepare cb r sig c = Some (ret, c', res, out)"
  obtains (ignored) "c' = c" "res = None" "out = None" "\<not> (statue_val (co_status c) \<le> 1 \<and> \<not> co_is_prepared c)"
  | (counted) c1 st x where "record_sender r (c\<lparr>co_prepared_proof :=
           co_prepared_proof c @ [\<lparr>ri_request = Some r, ri_signature = sig\<rparr>]\<rparr>) = Some c1"
      "cb r (received_count r c1) (co_status c) False = (st, x)" "st \<noteq> READY_COMMIT"
      "c' = c1\<lparr>co_status := st\<rparr>" "res = Some x" "out = None"
      "statue_val (co_status c) \<le> 1" "\<not> co_is_prepared c"
  | (prepared) c1 x c3 where "record_sender r (c\<lparr>co_prepared_proof :=
           co_prepared_proof c @ [\<lparr>ri_request = Some r, ri_signature = sig\<rparr>]\<rparr>) = Some c1"
      "cb r (received_count r c1) (co_status c) False = (READY_COMMIT, x)"
      "adopt_main (rq_hash r) (c1\<lparr>co_status := READY_COMMIT, co_is_prepared := True\<rparr>) = Some c3"
      "c' = c3\<lparr>co_prepared_proof := filter_proof (rq_hash r) (co_prepared_proof c3)\<rparr>"
      "res = Some x" "out = None" "statue_val (co_status c) \<le> 1" "\<not> co_is_prepared c"
proof -
  let ?c0 = "c\<lparr>co_prepared_proof :=
               co_prepared_proof c @ [\<lparr>ri_request = Some r, ri_signature = sig\<rparr>]\<rparr>"
  show ?thesis
  proof (cases "statue_val (co_status c) \<le> 1 \<and> \<not> co_is_prepared c")
    case False
    with assms have "c' = c \<and> res = None \<and> out = None" by (auto simp: AddPrepare_def split: if_splits)
    then show ?thesis using ignored False by blast
  next
    case True
    with assms obtain c1 where c1: "record_sender r ?c0 = Some c1"
      by (auto simp: AddPrepare_def split: option.splits)
    have st: "co_status c1 = co_status c" using record_sender_Some [OF c1] by simp
    obtain st x where cb: "cb r (received_count r c1) (co_status c) False = (st, x)" by fastforce
    show ?thesis
    proof (cases "st = READY_COMMIT")
      case False
      with assms True c1 st cb have "c' = c1\<lparr>co_status := st\<rparr> \<and> res = Some x \<and> out = None"
        by (simp add: AddPrepare_def)
      with False show ?thesis using counted [OF c1 cb] True by blast
    next
      case prep: True
      with assms True c1 st cb obtain c3 where
        c3: "adopt_main (rq_hash r) (c1\<lparr>co_status := READY_COMMIT, co_is_prepared := True\<rparr>) = Some c3"
        and "c' = c3\<lparr>co_prepared_proof := filter_proof (rq_hash r) (co_prepared_proof c3)\<rparr>"
          "res = Some x" "out = None"
        by (auto simp: AddPrepare_def split: option.splits)
      then show ?thesis using prepared [OF c1 _ c3] cb prep True by blast
    qed
  qed
qed

lemma AddVote_cases:
  assumes "AddVote cb r sig c = Some (ret, c', res, out)"
  obtains (counted) c1 st x certs where "record_sender r (c\<lparr>co_commit_certs := certs\<rparr>) = Some c1"
      "cb r (received_count r c1) (co_status c) False = (st, x)" "st \<noteq> READY_EXECUTE"
      "c' = c1\<lparr>co_status := st\<rparr>" "res = Some x" "out = None" "ret = 0"
  | (committed) c1 x ret' certs where "record_sender r (c\<lparr>co_commit_certs := certs\<rparr>) = Some c1"
      "cb r (received_count r c1) (co_status c) False = (READY_EXECUTE, x)"
      "CollectorCommit (c1\<lparr>co_status := READY_EXECUTE\<rparr>) = (ret', c', out)" "res = Some x" "ret = 1"
proof -
  define certs where "certs = (if rq_type r = TYPE_COMMIT \<and> rq_data_signature r \<noteq> None
                   \<and> 0 < sg_node_id (data_signature r)
                then co_commit_certs c @ [data_signature r] else co_commit_certs c)"
  have c0: "(if rq_type r = TYPE_COMMIT \<and> rq_data_signature r \<noteq> None
                   \<and> 0 < sg_node_id (data_signature r)
                then c\<lparr>co_commit_certs := co_commit_certs c @ [data_signature r]\<rparr> else c)
            = c\<lparr>co_commit_certs := certs\<rparr>"
    by (simp add: certs_def)
  have keep: "co_status c1 = co_status c"
    if "record_sender r (c\<lparr>co_commit_certs := certs\<rparr>) = Some c1" for c1
    using record_sender_Some [OF that] by simp
  obtain c1 where c1: "record_sender r (c\<lparr>co_commit_certs := certs\<rparr>) = Some c1"
    using assms unfolding AddVote_def Let_def c0 by (auto split: option.splits)
  obtain st x where cb: "cb r (received_count r c1) (co_status c) False = (st, x)" by fastforce
  show ?thesis
  proof (cases "st = READY_EXECUTE")
    case False
    with assms c1 cb keep [OF c1] have "c' = c1\<lparr>co_status := st\<rparr> \<and> res = Some x \<and> out = None \<and> ret = 0"
      unfolding AddVote_def Let_def c0 by simp
    with False show ?thesis using counted [OF c1 cb] by blast
  next
    case True
    obtain ret' c3 o' where cc: "CollectorCommit (c1\<lparr>co_status := READY_EXECUTE\<rparr>) = (ret', c3, o')"
      by (cases "CollectorCommit (c1\<lparr>co_status := READY_EXECUTE\<rparr>)")
    with assms c1 cb keep [OF c1] True have "c3 = c' \<and> o' = out \<and> res = Some x \<and> ret = 1"
      unfolding AddVote_def Let_def c0 by simp
    with cc cb True show ?thesis using committed [OF c1] by blast
  qed
qed

lemma AddRequest_cases:
  assumes "AddRequest pos cb (Some r) sig is_main c = Some (ret, c', res, out)"
  obtains (refused) "c' = c" "res = None" "out = None" "ret = -2"
  | (main) "is_main" "AddMainRequest pos cb r sig c = Some (ret, c', res, out)"
      "\<not> co_is_committed c" "co_status c \<noteq> EXECUTED" "co_seq c = rq_seq r"
  | (prepare) "\<not> is_main" "co_enable_viewchange c" "rq_type r = TYPE_PREPARE"
      "AddPrepare cb r sig c = Some (ret, c', res, out)"
      "\<not> co_is_committed c" "co_status c \<noteq> EXECUTED" "co_seq c = rq_seq r"
  | (vote) "\<not> is_main" "AddVote cb r sig c = Some (ret, c', res, out)"
      "\<not> co_is_committed c" "co_status c \<noteq> EXECUTED" "co_seq c = rq_seq r"
      "\<not> (co_enable_viewchange c \<and> rq_type r = TYPE_PREPARE)"
  using assms unfolding AddRequest_def by (auto split: if_splits)

text \<open>The parameters of a collector never change, and a step adds at most the sender of the
  message to the votes of the message's type and hash.\<close>

lemma AddPrepare_frame:
  assumes "AddPrepare cb r sig c = Some (ret, c', res, out)"
  shows "co_seq c' = co_seq c \<and> co_enable_viewchange c' = co_enable_viewchange c
   \<and> co_has_executor c' = co_has_executor c \<and> co_is_committed c' = co_is_committed c \<and> out = None
   \<and> (co_senders c' = co_senders c \<or> co_senders c' = add_sender r (co_senders c))"
  using assms
  by (cases rule: AddPrepare_cases) (auto dest!: record_sender_Some adopt_main_frame)

lemma AddVote_frame:
  assumes "AddVote cb r sig c = Some (ret, c', res, out)"
  shows "co_seq c' = co_seq c \<and> co_enable_viewchange c' = co_enable_viewchange c
   \<and> co_has_executor c' = co_has_executor c \<and> co_is_prepared c' = co_is_prepared c
   \<and> co_senders c' = add_sender r (co_senders c)"
  using assms
  by (cases rule: AddVote_cases) (auto dest!: record_sender_Some CollectorCommit_frame)

lemma AddRequest_frame:
  assumes "AddRequest pos cb (Some r) sig is_main c = Some (ret, c', res, out)"
  shows "co_seq c' = co_seq c \<and> co_enable_viewchange c' = co_enable_viewchange c
   \<and> co_has_executor c' = co_has_executor c
   \<and> (co_senders c' = co_senders c \<or> co_senders c' = add_sender r (co_senders c) \<and> rq_seq r = co_seq c)"
  using assms
  by (cases rule: AddRequest_cases) (auto dest!: AddMainRequest_frame AddPrepare_frame AddVote_frame)

lemma AddRequest_senders:
  assumes "AddRequest pos cb (Some r) sig is_main c = Some (ret, c', res, out)"
  shows "co_senders c t h \<subseteq> co_senders c' t h"
    and "co_senders c' t h \<subseteq> co_senders c t h \<union>
           {i. i = rq_sender_id r \<and> t = rq_type r \<and> h = rq_hash r \<and> rq_seq r = co_seq c}"
  using AddRequest_frame [OF assms] by (auto simp: add_sender_apply split: if_splits)

lemma opt_list_simps [simp]: "opt_list None = []" "opt_list (Some x) = [x]"
  by (simp_all add: opt_list_def)

lemma coll_run_append:
  "coll_run cb c (es @ es') =
     (case coll_run cb c es of
        None \<Rightarrow> None
      | Some (c1, outs, rs) \<Rightarrow>
          (case coll_run cb c1 es' of
             None \<Rightarrow> None
           | Some (c2, outs', rs') \<Rightarrow> Some (c2, outs @ outs', rs @ rs')))"
  by (induction cb c es rule: coll_run.induct) (auto split: option.splits prod.splits)

lemma coll_run_induct [consumes 1, case_names init step]:
  assumes "coll_run cb c0 es = Some (c, outs, rs)"
    and init: "P [] c0 [] []"
    and step: "\<And>es e c outs rs ret c' res out.
       coll_run cb c0 es = Some (c, outs, rs) \<Longrightarrow> P es c outs rs \<Longrightarrow>
       coll_step cb e c = Some (ret, c', res, out) \<Longrightarrow>
       P (es @ [e]) c' (outs @ opt_list out) (rs @ map (Pair (fst e)) (opt_list res))"
  shows "P es c outs rs"
  using assms(1)
proof (induction es arbitrary: c outs rs rule: rev_induct)
  case Nil
  then show ?case using init by simp
next
  case (snoc e es)
  then obtain c1 o1 r1 ret res out where "coll_run cb c0 es = Some (c1, o1, r1)"
    "coll_step cb e c1 = Some (ret, c, res, out)"
    "outs = o1 @ opt_list out" "rs = r1 @ map (Pair (fst e)) (opt_list res)"
    by (auto simp: coll_run_append split: option.splits prod.splits)
  then show ?case using step snoc.IH by blast
qed

end
