(* ===== verification/Vote_Certificates.thy ===== *)
theory Vote_Certificates
  imports Collector
begin

text \<open>
  What the votes in a collector guarantee, for every callback that moves the status the way
  \<open>MessageManager::MayConsensusChangeStatus\<close> does. The locale \<open>ordering_callback\<close> is the contract
  between the collector and its callback; the message manager interprets it.
\<close>

inductive vote_step :: "nat \<Rightarrow> request_type \<Rightarrow> nat \<Rightarrow> TransactionStatue \<Rightarrow> TransactionStatue \<Rightarrow> bool"
  for need :: nat where
  vote_proposed: "vote_step need TYPE_PRE_PREPARE n STATUE_None READY_PREPARE"
| vote_prepared: "need \<le> n \<Longrightarrow> vote_step need TYPE_PREPARE n READY_PREPARE READY_COMMIT"
| vote_committed: "need \<le> n \<Longrightarrow> vote_step need TYPE_COMMIT n READY_COMMIT READY_EXECUTE"

inductive_simps vote_step_iff: "vote_step need t n st st'"

section \<open>The proposals a collector holds\<close>

definition held :: "collector \<Rightarrow> request set" where
  "held c = {m. \<exists>i. (ap_ptr (co_main c) = Some i \<or> i \<in> set (co_other_main c)) \<and> ri_request i = Some m}"

lemma rq_hash_add_certs [simp]: "rq_hash (add_certs certs m) = rq_hash m"
  by (simp add: add_certs_def)

lemma held_cong:
  "co_main c' = co_main c \<Longrightarrow> co_other_main c' = co_other_main c \<Longrightarrow> held c' = held c"
  by (simp add: held_def)

lemma adopt_main_held: "adopt_main h c = Some c' \<Longrightarrow> held c' \<subseteq> held c"
  unfolding adopt_main_def Let_def held_def aup_Set_def aup_Clear_def
  by (auto split: option.splits if_splits simp: find_Some_iff) (metis nth_mem)+

lemma AddMainRequest_held:
  "AddMainRequest pos cb r sig c = Some (ret, c', res, out) \<Longrightarrow> held c' \<subseteq> insert r (held c)"
  unfolding AddMainRequest_def Let_def held_def aup_Set_def aup_Clear_def
  by (auto split: prod.splits if_splits)

lemma CollectorCommit_held:
  assumes "CollectorCommit c = (ret, c', out)"
  shows "held c' \<subseteq> held c"
    and "out = Some m' \<Longrightarrow> co_is_committed c' \<and> (\<exists>m\<in>held c. \<exists>certs. m' = add_certs certs m)"
  using assms unfolding CollectorCommit_def Let_def held_def aup_Reference_def
  by (auto split: option.splits if_splits)

lemma AddPrepare_held:
  assumes "AddPrepare cb r sig c = Some (ret, c', res, out)"
  shows "held c' \<subseteq> held c"
  using assms
proof (cases rule: AddPrepare_cases)
  case (prepared c1 x c3)
  from prepared(1) have "held (c1\<lparr>co_status := READY_COMMIT, co_is_prepared := True\<rparr>) = held c"
    by (auto dest!: record_sender_Some intro!: held_cong)
  moreover have "held c' = held c3" using prepared(4) by (simp add: held_def)
  ultimately show ?thesis using adopt_main_held [OF prepared(3)] by simp
qed (auto dest!: record_sender_Some simp: held_def)

lemma AddVote_held:
  assumes "AddVote cb r sig c = Some (ret, c', res, out)"
  shows "held c' \<subseteq> held c"
    and "out = Some m' \<Longrightarrow> co_is_committed c' \<and> (\<exists>m\<in>held c. \<exists>certs. m' = add_certs certs m)"
proof -
  have eq: "held (c1\<lparr>co_status := st\<rparr>) = held c"
    if "record_sender r (c\<lparr>co_commit_certs := certs\<rparr>) = Some c1" for c1 certs st
    using that by (auto dest!: record_sender_Some intro!: held_cong)
  show "held c' \<subseteq> held c"
    using assms by (cases rule: AddVote_cases) (use eq CollectorCommit_held(1) in blast)+
  show "co_is_committed c' \<and> (\<exists>m\<in>held c. \<exists>certs. m' = add_certs certs m)" if "out = Some m'"
    using assms by (cases rule: AddVote_cases) (use eq CollectorCommit_held(2) that in blast)+
qed

lemma coll_step_held:
  assumes "coll_step cb (r, sig, pos) c = Some (ret, c', res, out)"
  shows "held c' \<subseteq> held c \<union> {m. m = r \<and> rq_type r = TYPE_PRE_PREPARE \<and> rq_seq r = co_seq c}"
    and "out = Some m' \<Longrightarrow>
      \<not> co_is_committed c \<and> co_is_committed c' \<and> (\<exists>m\<in>held c. \<exists>certs. m' = add_certs certs m)"
proof -
  from assms have a: "AddRequest pos cb (Some r) sig (rq_type r = TYPE_PRE_PREPARE) c = Some (ret, c', res, out)"
    by simp
  show "held c' \<subseteq> held c \<union> {m. m = r \<and> rq_type r = TYPE_PRE_PREPARE \<and> rq_seq r = co_seq c}"
    using a
  proof (cases rule: AddRequest_cases)
    case main
    then show ?thesis using AddMainRequest_held [OF main(2)] by auto
  next
    case prepare
    then show ?thesis using AddPrepare_held [OF prepare(4)] by auto
  next
    case vote
    then show ?thesis using AddVote_held(1) [OF vote(2)] by auto
  qed simp
  show "\<not> co_is_committed c \<and> co_is_committed c' \<and> (\<exists>m\<in>held c. \<exists>certs. m' = add_certs certs m)"
    if out: "out = Some m'"
    using a
  proof (cases rule: AddRequest_cases)
    case main
    then show ?thesis using AddMainRequest_frame [OF main(2)] out by simp
  next
    case prepare
    then show ?thesis using AddPrepare_frame [OF prepare(4)] out by simp
  next
    case vote
    then show ?thesis using AddVote_held(2) [OF vote(2) out] by simp
  qed (use out in simp)
qed

section \<open>The contract of the callback\<close>

text \<open>A step that changes the status, and the votes it rests on.\<close>

definition advances :: "nat \<Rightarrow> request \<Rightarrow> collector \<Rightarrow> collector \<Rightarrow> bool" where
  "advances need r c c' \<longleftrightarrow> rq_seq r = co_seq c \<and>
     (rq_type r = TYPE_PRE_PREPARE \<and> co_status c = STATUE_None \<and> co_status c' = READY_PREPARE
    \<or> rq_type r = TYPE_PREPARE \<and> co_status c = READY_PREPARE \<and> co_status c' = READY_COMMIT
      \<and> need \<le> card (co_senders c' TYPE_PREPARE (rq_hash r))
    \<or> rq_type r = TYPE_COMMIT \<and> co_status c = READY_COMMIT \<and> co_status c' = EXECUTED
      \<and> need \<le> card (co_senders c' TYPE_COMMIT (rq_hash r)))"

lemma CollectorCommit_status:
  "CollectorCommit c = (ret, c', out) \<Longrightarrow> co_status c = READY_EXECUTE \<Longrightarrow> co_status c' = EXECUTED"
  unfolding CollectorCommit_def Let_def by (auto split: option.splits if_splits)

lemma CollectorCommit_committed:
  "CollectorCommit c = (ret, c', out) \<Longrightarrow> co_is_committed c' \<Longrightarrow> co_is_committed c \<or> co_status c' = EXECUTED"
  unfolding CollectorCommit_def Let_def by (auto split: option.splits if_splits)

lemma coll_step_committed:
  assumes "coll_step cb (r, sig, pos) c = Some (ret, c', res, out)" "co_is_committed c'"
  shows "co_is_committed c \<or> co_status c' = EXECUTED"
proof -
  have vote: "co_is_committed c \<or> co_status c' = EXECUTED" if v: "AddVote cb r sig c = Some (ret, c', res, out)"
    using v
  proof (cases rule: AddVote_cases)
    case (committed c1 x ret' certs)
    then show ?thesis using CollectorCommit_committed [OF committed(3) assms(2)]
      by (auto dest: record_sender_Some)
  qed (use assms(2) in \<open>auto dest!: record_sender_Some\<close>)
  from assms(1) have "AddRequest pos cb (Some r) sig (rq_type r = TYPE_PRE_PREPARE) c = Some (ret, c', res, out)"
    by simp
  then show ?thesis
    by (cases rule: AddRequest_cases)
      (use vote assms(2) in \<open>auto dest!: AddMainRequest_frame AddPrepare_frame\<close>)
qed

lemma coll_step_frame:
  assumes "coll_step cb (r, sig, pos) c = Some (ret, c', res, out)"
  shows "co_seq c' = co_seq c" "co_senders c t h \<subseteq> co_senders c' t h"
    "co_senders c' t h \<subseteq> co_senders c t h \<union> vote_senders (co_seq c) t h [(r, sig, pos)]"
proof -
  from assms have a: "AddRequest pos cb (Some r) sig (rq_type r = TYPE_PRE_PREPARE) c = Some (ret, c', res, out)"
    by simp
  show "co_seq c' = co_seq c" using AddRequest_frame [OF a] by simp
  show "co_senders c t h \<subseteq> co_senders c' t h" by (rule AddRequest_senders(1) [OF a])
  show "co_senders c' t h \<subseteq> co_senders c t h \<union> vote_senders (co_seq c) t h [(r, sig, pos)]"
    using AddRequest_senders(2) [OF a, of t h] by (auto simp: vote_senders_def)
qed

lemma coll_step_executed:
  assumes "coll_step cb e c = Some (ret, c', res, out)" "co_status c = EXECUTED"
  shows "c' = c \<and> res = None \<and> out = None"
  using assms by (cases e) (auto simp: AddRequest_def split: if_splits)

lemma coll_step_prepared:
  assumes "coll_step cb (r, sig, pos) c = Some (ret, c', res, out)" "co_is_prepared c"
  shows "co_is_prepared c'"
proof -
  have prep: "co_is_prepared c'" if v: "AddPrepare cb r sig c = Some (ret, c', res, out)"
    using v assms(2) by (cases rule: AddPrepare_cases) auto
  from assms(1) have "AddRequest pos cb (Some r) sig (rq_type r = TYPE_PRE_PREPARE) c = Some (ret, c', res, out)"
    by simp
  then show ?thesis
    by (cases rule: AddRequest_cases)
      (use prep assms(2) in \<open>auto dest!: AddMainRequest_frame AddVote_frame\<close>)
qed

lemma coll_step_parameters:
  assumes "coll_step cb (r, sig, pos) c = Some (ret, c', res, out)"
  shows "co_enable_viewchange c' = co_enable_viewchange c \<and> co_has_executor c' = co_has_executor c"
proof -
  from assms have a: "AddRequest pos cb (Some r) sig (rq_type r = TYPE_PRE_PREPARE) c = Some (ret, c', res, out)"
    by simp
  show ?thesis using AddRequest_frame [OF a] by simp
qed

section \<open>Definedness\<close>

text \<open>Until the collector has executed, its main request has not been moved out.\<close>

definition main_present :: "collector \<Rightarrow> bool" where
  "main_present c \<longleftrightarrow>
     (\<forall>i. co_status c \<noteq> EXECUTED \<and> aup_Reference (co_main c) = Some i \<longrightarrow> ri_request i \<noteq> None)"

lemma AddMainRequest_present:
  assumes "AddMainRequest pos cb r sig c = Some (ret, c', res, out)" "main_present c" "co_status c \<noteq> EXECUTED"
  shows "main_present c'"
  using assms unfolding AddMainRequest_def Let_def main_present_def aup_Set_def aup_Clear_def aup_Reference_def
  by (auto split: prod.splits if_splits)

lemma adopt_main_present:
  assumes "adopt_main h c = Some c'"
  shows "aup_Reference (co_main c') = Some i \<Longrightarrow> ri_request i \<noteq> None"
  using assms unfolding adopt_main_def Let_def aup_Set_def aup_Clear_def aup_Reference_def
  by (auto split: option.splits if_splits simp: find_Some_iff)

lemma AddPrepare_present:
  assumes "AddPrepare cb r sig c = Some (ret, c', res, out)" "main_present c" "co_status c \<noteq> EXECUTED"
  shows "main_present c'"
  using assms(1)
proof (cases rule: AddPrepare_cases)
  case (counted c1 st x)
  then have "co_main c' = co_main c" by (auto dest!: record_sender_Some)
  then show ?thesis using assms by (simp add: main_present_def)
next
  case (prepared c1 x c3)
  then show ?thesis using adopt_main_present [OF prepared(3)] by (simp add: main_present_def)
qed (use assms in simp)

lemma AddVote_present:
  assumes "AddVote cb r sig c = Some (ret, c', res, out)" "main_present c" "co_status c \<noteq> EXECUTED"
  shows "main_present c'"
  using assms(1)
proof (cases rule: AddVote_cases)
  case (counted c1 st x certs)
  then have "co_main c' = co_main c" by (auto dest!: record_sender_Some)
  then show ?thesis using assms by (simp add: main_present_def)
next
  case (committed c1 x ret' certs)
  then show ?thesis using CollectorCommit_status [OF committed(3)] by (simp add: main_present_def)
qed

lemma coll_step_present:
  assumes "coll_step cb (r, sig, pos) c = Some (ret, c', res, out)" "main_present c"
  shows "main_present c'"
proof -
  from assms(1) have "AddRequest pos cb (Some r) sig (rq_type r = TYPE_PRE_PREPARE) c = Some (ret, c', res, out)"
    by simp
  then show ?thesis
    by (cases rule: AddRequest_cases)
      (auto intro: AddMainRequest_present AddPrepare_present AddVote_present assms(2))
qed

lemma adopt_main_defined: "main_present c \<Longrightarrow> co_status c \<noteq> EXECUTED \<Longrightarrow> adopt_main h c \<noteq> None"
  unfolding adopt_main_def Let_def main_present_def by (auto split: option.splits)

lemma AddPrepare_defined:
  assumes "main_present c" "0 \<le> rq_sender_id r" "rq_sender_id r < 128" "co_status c \<noteq> EXECUTED"
  shows "AddPrepare cb r sig c \<noteq> None"
proof -
  have "adopt_main (rq_hash r) (c\<lparr>co_prepared_proof := ps, co_senders := ss, co_status := READY_COMMIT,
      co_is_prepared := True\<rparr>) = None \<longleftrightarrow> False" for ps ss
    using assms adopt_main_defined [of "c\<lparr>co_prepared_proof := ps, co_senders := ss,
        co_status := READY_COMMIT, co_is_prepared := True\<rparr>"] by (simp add: main_present_def)
  then show ?thesis using assms(2,3)
    by (simp add: AddPrepare_def record_sender_def Let_def del: not_None_eq split: prod.splits option.splits)
qed

lemma coll_step_defined:
  assumes "main_present c" "0 \<le> rq_sender_id r" "rq_sender_id r < 128"
  shows "coll_step cb (r, sig, pos) c \<noteq> None"
proof -
  have "AddMainRequest pos cb r sig c \<noteq> None" by (simp add: AddMainRequest_def Let_def split: prod.splits)
  moreover have "AddVote cb r sig c \<noteq> None"
    using assms(2,3) by (simp add: AddVote_def record_sender_def Let_def split: prod.splits)
  ultimately show ?thesis using AddPrepare_defined [OF assms, of cb sig]
    by (simp add: AddRequest_def del: not_None_eq)
qed

lemma run_defined:
  assumes "\<forall>e\<in>set es. 0 \<le> rq_sender_id (fst e) \<and> rq_sender_id (fst e) < 128"
  shows "\<exists>c outs rs. coll_run cb (new_collector seq ex vc) es = Some (c, outs, rs) \<and> main_present c"
  using assms
proof (induction es rule: rev_induct)
  case Nil
  then show ?case by (simp add: new_collector_def main_present_def aup_new_def aup_Reference_def)
next
  case (snoc e es)
  then obtain c outs rs where c: "coll_run cb (new_collector seq ex vc) es = Some (c, outs, rs)" "main_present c"
    by auto
  obtain r sig pos where e: "e = (r, sig, pos)" by (cases e) auto
  have "coll_step cb e c \<noteq> None"
    unfolding e by (rule coll_step_defined [OF c(2)]) (use snoc.prems e in auto)
  then obtain ret c' res out where st: "coll_step cb e c = Some (ret, c', res, out)" by auto
  then have "main_present c'" using coll_step_present c(2) unfolding e by blast
  then show ?case using c(1) st by (simp add: coll_run_append)
qed

lemma run_executed: "co_status c = EXECUTED \<Longrightarrow> \<exists>rs. coll_run cb c es = Some (c, [], rs)"
proof (induction es)
  case (Cons e es)
  have "coll_step cb e c \<noteq> None" using Cons.prems by (cases e) (simp add: AddRequest_def)
  then obtain ret c' res out where st: "coll_step cb e c = Some (ret, c', res, out)" by auto
  then show ?case using Cons coll_step_executed [OF st] by auto
qed simp

text \<open>The view of a collector and the callback's verdict on a proposal.\<close>

lemma AddMainRequest_view:
  assumes "AddMainRequest pos cb r sig c = Some (ret, c', res, out)"
  shows "co_view c' = co_view c \<or> co_view c' = rq_current_view r"
    and "res = Some x \<Longrightarrow>
      cb r 1 (co_status c) (co_view c \<noteq> 0 \<and> co_view c < rq_current_view r \<and> \<not> co_is_prepared c)
        = (co_status c', x)"
    and "res = None \<Longrightarrow> co_status c' = co_status c"
  using assms unfolding AddMainRequest_def Let_def by (auto split: prod.splits if_splits)

lemma AddPrepare_view: "AddPrepare cb r sig c = Some (ret, c', res, out) \<Longrightarrow> co_view c' = co_view c"
  by (erule AddPrepare_cases) (auto dest!: record_sender_Some adopt_main_frame)

lemma AddVote_view: "AddVote cb r sig c = Some (ret, c', res, out) \<Longrightarrow> co_view c' = co_view c"
  by (erule AddVote_cases) (auto dest!: record_sender_Some CollectorCommit_frame)

lemma coll_step_view:
  assumes "coll_step cb (r, sig, pos) c = Some (ret, c', res, out)" "rq_type r \<noteq> TYPE_PRE_PREPARE"
  shows "co_view c' = co_view c"
proof -
  from assms(1) have "AddRequest pos cb (Some r) sig (rq_type r = TYPE_PRE_PREPARE) c = Some (ret, c', res, out)"
    by simp
  then show ?thesis
    by (cases rule: AddRequest_cases) (use assms(2) AddPrepare_view AddVote_view in blast)+
qed

text \<open>The proposals the callback reported as accepted.\<close>

definition accepted :: "(request \<times> bool) list \<Rightarrow> request list" where
  "accepted rs = map fst (filter (\<lambda>(r, x). rq_type r = TYPE_PRE_PREPARE \<and> x) rs)"

text \<open>A collector that only receives messages with one hash: what it has recorded so far.\<close>

definition has_main :: "string \<Rightarrow> collector \<Rightarrow> bool" where
  "has_main h c \<longleftrightarrow> (\<exists>i m. aup_Reference (co_main c) = Some i \<and> ri_request i = Some m \<and> rq_hash m = h)"

definition uniform :: "uint64 \<Rightarrow> string \<Rightarrow> coll_event list \<Rightarrow> bool" where
  "uniform seq h es \<longleftrightarrow> (\<forall>(r, sig, pos)\<in>set es.
     rq_seq r = seq \<and> rq_hash r = h \<and> 0 \<le> rq_sender_id r \<and> rq_sender_id r < 128)"

definition progress_inv :: "uint64 \<Rightarrow> string \<Rightarrow> coll_event list \<Rightarrow> collector \<Rightarrow> request list \<Rightarrow> bool" where
  "progress_inv seq h es c outs \<longleftrightarrow> co_seq c = seq \<and> co_has_executor c \<and>
     (co_status c = EXECUTED \<and> (\<exists>m. outs = [m] \<and> rq_hash m = h)
    \<or> \<not> co_is_committed c \<and> outs = [] \<and> co_senders c TYPE_COMMIT h = vote_senders seq TYPE_COMMIT h es \<and>
      (co_status c = READY_COMMIT \<and> has_main h c
     \<or> \<not> co_is_prepared c \<and> co_senders c TYPE_PREPARE h = vote_senders seq TYPE_PREPARE h es \<and>
       (co_status c = READY_PREPARE \<and> has_main h c
      \<or> co_status c = STATUE_None \<and> ap_v (co_main c) = 0 \<and> proposals seq es = {})))"

lemma adopt_main_same: "has_main h c \<Longrightarrow> adopt_main h c = Some c"
  by (auto simp: has_main_def adopt_main_def)

lemma AddMainRequest_main:
  assumes "AddMainRequest pos cb r sig c = Some (ret, c', res, out)" "rq_hash r = h"
  shows "has_main h c \<or> ap_v (co_main c) = 0 \<Longrightarrow> has_main h c'"
    and "ap_v (co_main c) = 0 \<Longrightarrow> res \<noteq> None"
  using assms unfolding AddMainRequest_def Let_def has_main_def aup_Set_def aup_Clear_def aup_Reference_def
  by (auto split: prod.splits if_splits)

definition vote_next :: "nat \<Rightarrow> request_type \<Rightarrow> nat \<Rightarrow> TransactionStatue \<Rightarrow> TransactionStatue" where
  "vote_next need t n st =
     (if t = TYPE_PRE_PREPARE \<and> st = STATUE_None then READY_PREPARE
      else if t = TYPE_PREPARE \<and> st = READY_PREPARE \<and> need \<le> n then READY_COMMIT
      else if t = TYPE_COMMIT \<and> st = READY_COMMIT \<and> need \<le> n then READY_EXECUTE else st)"

lemma CollectorCommit_releases:
  "has_main h c \<Longrightarrow> co_status c = READY_EXECUTE \<Longrightarrow> co_has_executor c \<Longrightarrow> CollectorCommit c = (ret, c', out) \<Longrightarrow>
     co_status c' = EXECUTED \<and> (\<exists>m. out = Some m \<and> rq_hash m = h)"
  by (auto simp: has_main_def CollectorCommit_def Let_def)

text \<open>The invariant of a collector that has received the messages \<open>es\<close> and released \<open>outs\<close>.\<close>

definition status_evidence :: "nat \<Rightarrow> coll_event list \<Rightarrow> collector \<Rightarrow> bool" where
  "status_evidence need es c \<longleftrightarrow>
     (case co_status c of
        STATUE_None \<Rightarrow> True
      | READY_PREPARE \<Rightarrow> proposals (co_seq c) es \<noteq> {}
      | READY_COMMIT \<Rightarrow> proposals (co_seq c) es \<noteq> {} \<and> (\<exists>h. need \<le> card (co_senders c TYPE_PREPARE h))
      | EXECUTED \<Rightarrow> proposals (co_seq c) es \<noteq> {} \<and> (\<exists>h. need \<le> card (co_senders c TYPE_PREPARE h))
                    \<and> (\<exists>h. need \<le> card (co_senders c TYPE_COMMIT h))
      | _ \<Rightarrow> False)"

definition collector_inv :: "nat \<Rightarrow> coll_event list \<Rightarrow> collector \<Rightarrow> request list \<Rightarrow> bool" where
  "collector_inv need es c outs \<longleftrightarrow>
     (\<forall>t h. co_senders c t h \<subseteq> vote_senders (co_seq c) t h es)
   \<and> held c \<subseteq> proposals (co_seq c) es
   \<and> status_evidence need es c
   \<and> (co_is_committed c \<longrightarrow> co_status c = EXECUTED)
   \<and> (outs = [] \<or> co_is_committed c \<and> (\<exists>m\<in>proposals (co_seq c) es. \<exists>certs. outs = [add_certs certs m]))"

text \<open>The main request of a prepared collector has the hash that gathered the prepare votes, and with
  view changes enabled a collector past the prepare phase is marked prepared.\<close>

definition prepared_main :: "nat \<Rightarrow> collector \<Rightarrow> bool" where
  "prepared_main need c \<longleftrightarrow>
     (\<forall>i m. co_is_prepared c \<and> aup_Reference (co_main c) = Some i \<and> ri_request i = Some m \<longrightarrow>
        need \<le> card (co_senders c TYPE_PREPARE (rq_hash m)))
   \<and> (co_enable_viewchange c \<and> co_status c \<notin> {STATUE_None, READY_PREPARE} \<longrightarrow> co_is_prepared c)"

lemma adopt_main_hash:
  assumes "adopt_main h c = Some c'" "aup_Reference (co_main c') = Some i" "ri_request i = Some m"
  shows "rq_hash m = h"
  using assms unfolding adopt_main_def Let_def aup_Set_def aup_Clear_def aup_Reference_def
  by (auto split: option.splits if_splits simp: find_Some_iff)

lemma CollectorCommit_main:
  assumes "CollectorCommit c = (ret, c', out)"
  shows "aup_Reference (co_main c') = Some i \<Longrightarrow> ri_request i = Some m \<Longrightarrow>
           \<exists>j. aup_Reference (co_main c) = Some j \<and> ri_request j = Some m"
    and "out = Some m' \<Longrightarrow>
           \<exists>j m. aup_Reference (co_main c) = Some j \<and> ri_request j = Some m \<and> rq_hash m' = rq_hash m"
  using assms unfolding CollectorCommit_def Let_def aup_Reference_def
  by (auto split: option.splits if_splits)

lemma vote_senders_append:
  "vote_senders s t h (es @ es') = vote_senders s t h es \<union> vote_senders s t h es'"
  by (auto simp: vote_senders_def)

lemma vote_senders_single:
  "vote_senders s t h [e] =
     (if rq_type (fst e) = t \<and> rq_hash (fst e) = h \<and> rq_seq (fst e) = s then {rq_sender_id (fst e)} else {})"
  by (auto simp: vote_senders_def)

lemma finite_vote_senders [simp]: "finite (vote_senders s t h es)"
  by (simp add: vote_senders_def)

lemma proposals_append: "proposals s (es @ es') = proposals s es \<union> proposals s es'"
  by (auto simp: proposals_def)

lemma proposals_single:
  "proposals s [e] = (if rq_type (fst e) = TYPE_PRE_PREPARE \<and> rq_seq (fst e) = s then {fst e} else {})"
  by (auto simp: proposals_def)

lemmas history_simps = vote_senders_append vote_senders_single proposals_append proposals_single

locale ordering_callback =
  fixes cb :: "'k \<Rightarrow> bool callback" and need :: "'k \<Rightarrow> nat"
  assumes cb_sound: "cb k r n st force = (st', x) \<Longrightarrow> st' \<noteq> st \<Longrightarrow> vote_step (need k) (rq_type r) n st st'"
    and cb_complete: "vote_step (need k) (rq_type r) n st st' \<Longrightarrow> fst (cb k r n st force) = st'"
    and cb_reports: "cb k r n st force = (st', x) \<Longrightarrow> x \<longleftrightarrow> st' \<noteq> st \<or> force"
begin

lemma AddMainRequest_status:
  assumes "AddMainRequest pos (cb k) r sig c = Some (ret, c', res, out)" "rq_type r = TYPE_PRE_PREPARE"
    "rq_seq r = co_seq c"
  shows "co_status c' = co_status c \<or> advances (need k) r c c'"
proof -
  have "co_status c' = co_status c \<or> (\<exists>x force. cb k r 1 (co_status c) force = (co_status c', x))"
    using assms(1) unfolding AddMainRequest_def Let_def by (auto split: prod.splits if_splits)
  then show ?thesis
    using cb_sound assms(2,3) by (fastforce simp: advances_def vote_step_iff)
qed

lemma AddPrepare_status:
  assumes "AddPrepare (cb k) r sig c = Some (ret, c', res, out)" "rq_type r = TYPE_PREPARE"
    "rq_seq r = co_seq c"
  shows "co_status c' = co_status c \<or> advances (need k) r c c'"
  using assms(1)
proof (cases rule: AddPrepare_cases)
  case (counted c1 st x)
  with assms show ?thesis using cb_sound [OF counted(2)] by (auto simp: vote_step_iff)
next
  case (prepared c1 x c3)
  have "co_status c \<noteq> READY_COMMIT" using prepared(7) by auto
  then have "co_status c = READY_PREPARE \<and> need k \<le> received_count r c1"
    using cb_sound [OF prepared(2)] by (auto simp: vote_step_iff)
  moreover have "co_status c' = READY_COMMIT \<and> co_senders c' = co_senders c1"
    using adopt_main_frame [OF prepared(3)] prepared(4) by simp
  ultimately show ?thesis using assms by (simp add: advances_def received_count_def)
qed simp

lemma AddVote_status:
  assumes "AddVote (cb k) r sig c = Some (ret, c', res, out)" "rq_type r \<noteq> TYPE_PRE_PREPARE"
    "rq_seq r = co_seq c" "co_status c \<noteq> READY_EXECUTE"
  shows "co_status c' = co_status c \<or> advances (need k) r c c'"
  using assms(1)
proof (cases rule: AddVote_cases)
  case (counted c1 st x certs)
  with assms show ?thesis using cb_sound [OF counted(2)]
    by (auto simp: vote_step_iff advances_def received_count_def)
next
  case (committed c1 x ret' certs)
  have "rq_type r = TYPE_COMMIT \<and> co_status c = READY_COMMIT \<and> need k \<le> received_count r c1"
    using cb_sound [OF committed(2)] assms(4) by (auto simp: vote_step_iff)
  moreover have "co_status c' = EXECUTED \<and> co_senders c' = co_senders c1"
    using CollectorCommit_frame [OF committed(3)] CollectorCommit_status [OF committed(3)] by simp
  ultimately show ?thesis using assms by (auto simp: advances_def received_count_def)
qed

lemma coll_step_status:
  assumes "coll_step (cb k) (r, sig, pos) c = Some (ret, c', res, out)" "co_status c \<noteq> READY_EXECUTE"
  shows "co_status c' = co_status c \<or> advances (need k) r c c'"
proof -
  from assms have "AddRequest pos (cb k) (Some r) sig (rq_type r = TYPE_PRE_PREPARE) c = Some (ret, c', res, out)"
    by simp
  then show ?thesis
    by (cases rule: AddRequest_cases)
      (use AddMainRequest_status AddPrepare_status AddVote_status assms(2) in auto)
qed

lemma inv_step:
  assumes inv: "collector_inv (need k) es c outs"
    and step: "coll_step (cb k) e c = Some (ret, c', res, out)"
  shows "collector_inv (need k) (es @ [e]) c' (outs @ opt_list out)"
proof (cases "co_status c = EXECUTED")
  case True
  have "c' = c" "out = None" using coll_step_executed [OF step True] by auto
  then show ?thesis using inv True
    by (auto simp: collector_inv_def status_evidence_def vote_senders_append proposals_append)
next
  case False
  obtain r sig pos where e: "e = (r, sig, pos)" by (cases e) auto
  note st = step [unfolded e]
  have new: "\<not> co_is_committed c" "outs = []"
    using inv False by (auto simp: collector_inv_def)
  have seq: "co_seq c' = co_seq c" by (rule coll_step_frame(1) [OF st])
  have up: "co_senders c t h \<subseteq> co_senders c' t h" for t h by (rule coll_step_frame(2) [OF st])
  have old: "\<forall>t h. co_senders c t h \<subseteq> vote_senders (co_seq c) t h es" "held c \<subseteq> proposals (co_seq c) es"
    and evidence: "status_evidence (need k) es c"
    using inv by (simp_all add: collector_inv_def)
  have sub: "co_senders c' t h \<subseteq> vote_senders (co_seq c') t h (es @ [e])" for t h
    using coll_step_frame(3) [OF st, of t h] old(1) unfolding seq e vote_senders_append by blast
  have fin: "finite (co_senders c' t h)" for t h
    by (rule finite_subset [OF sub finite_vote_senders])
  have mono: "n \<le> card (co_senders c t h) \<Longrightarrow> n \<le> card (co_senders c' t h)" for n t h
    using card_mono [OF fin up] by (rule order_trans [rotated])
  have held: "held c' \<subseteq> proposals (co_seq c') (es @ [e])"
    using coll_step_held(1) [OF st] old(2) unfolding seq proposals_append by (auto simp: proposals_single e)
  have rel: "outs @ opt_list out = [] \<or> co_is_committed c' \<and>
      (\<exists>m\<in>proposals (co_seq c') (es @ [e]). \<exists>certs. outs @ opt_list out = [add_certs certs m])"
  proof (cases out)
    case (Some m')
    then obtain m certs where "m \<in> held c" "m' = add_certs certs m" "co_is_committed c'"
      using coll_step_held(2) [OF st] by blast
    then show ?thesis using old(2) seq new Some by (auto simp: proposals_append)
  qed (simp add: new)
  have com: "co_is_committed c' \<longrightarrow> co_status c' = EXECUTED"
    using coll_step_committed [OF st] new by blast
  have "co_status c' = co_status c \<or> advances (need k) r c c'"
    using coll_step_status [OF st] evidence by (cases "co_status c") (auto simp: status_evidence_def)
  then have ev: "status_evidence (need k) (es @ [e]) c'"
  proof
    assume "co_status c' = co_status c"
    then show ?thesis using evidence mono seq
      by (cases "co_status c") (simp_all add: status_evidence_def proposals_append, blast+)
  next
    assume "advances (need k) r c c'"
    then show ?thesis using evidence mono seq
      by (auto simp: status_evidence_def advances_def proposals_append proposals_single e, blast+)
  qed
  show ?thesis unfolding collector_inv_def by (intro conjI allI sub held ev com rel)
qed

lemma inv_run:
  assumes "coll_run (cb k) (new_collector seq ex vc) es = Some (c, outs, rs)"
  shows "collector_inv (need k) es c outs \<and> co_seq c = seq"
  using assms
proof (induction rule: coll_run_induct)
  case init
  then show ?case by (auto simp: collector_inv_def status_evidence_def new_collector_def held_def aup_new_def)
next
  case (step es e c outs rs ret c' res out)
  obtain r sig pos where "e = (r, sig, pos)" by (cases e) auto
  with step show ?case using inv_step coll_step_frame(1) by metis
qed

text \<open>The certificate behind a released request.\<close>

lemma release_certificate:
  assumes "coll_run (cb k) (new_collector seq ex vc) es = Some (c, outs, rs)" "m' \<in> set outs"
  shows "outs = [m'] \<and> (\<exists>m\<in>proposals seq es. \<exists>certs. m' = add_certs certs m)
       \<and> (\<exists>h. need k \<le> card (vote_senders seq TYPE_PREPARE h es))
       \<and> (\<exists>h. need k \<le> card (vote_senders seq TYPE_COMMIT h es))"
proof -
  from inv_run [OF assms(1)] have inv: "collector_inv (need k) es c outs" and seq: "co_seq c = seq" by auto
  have le: "card (co_senders c t h) \<le> card (vote_senders seq t h es)" for t h
    using inv seq by (auto simp: collector_inv_def intro!: card_mono)
  have ex: "co_status c = EXECUTED" "\<exists>m\<in>proposals seq es. \<exists>certs. outs = [add_certs certs m]"
    using inv assms(2) seq by (auto simp: collector_inv_def)
  have "\<exists>h. need k \<le> card (co_senders c TYPE_PREPARE h)" "\<exists>h. need k \<le> card (co_senders c TYPE_COMMIT h)"
    using inv ex(1) by (auto simp: collector_inv_def status_evidence_def)
  then have "\<exists>h. need k \<le> card (vote_senders seq TYPE_PREPARE h es)"
    "\<exists>h. need k \<le> card (vote_senders seq TYPE_COMMIT h es)"
    using le order_trans by blast+
  moreover obtain m certs where "m \<in> proposals seq es" "outs = [add_certs certs m]" using ex(2) by blast
  ultimately show ?thesis using assms(2) by auto
qed

lemma prepared_main_step:
  assumes step: "coll_step (cb k) (r, sig, pos) c = Some (ret, c', res, out)"
    and fin: "\<forall>t h. finite (co_senders c' t h)" "co_status c \<noteq> READY_EXECUTE"
    and inv: "prepared_main (need k) c"
    and late: "rq_type r \<noteq> TYPE_PRE_PREPARE \<or> \<not> co_is_prepared c"
  shows "prepared_main (need k) c'
       \<and> (out = Some m' \<longrightarrow> co_enable_viewchange c \<longrightarrow> need k \<le> card (co_senders c' TYPE_PREPARE (rq_hash m')))"
proof -
  have mono: "need k \<le> card (co_senders c t h) \<Longrightarrow> need k \<le> card (co_senders c' t h)" for t h
    using card_mono [OF _ coll_step_frame(2) [OF step], of t h] fin(1) by fastforce
  from step have a: "AddRequest pos (cb k) (Some r) sig (rq_type r = TYPE_PRE_PREPARE) c = Some (ret, c', res, out)"
    by simp
  have st: "co_status c' = co_status c \<or> advances (need k) r c c'"
    by (rule coll_step_status [OF step fin(2)])
  show ?thesis
    using a
  proof (cases rule: AddRequest_cases)
    case main
    then show ?thesis using AddMainRequest_frame [OF main(2)] late st inv
      by (auto simp: prepared_main_def advances_def)
  next
    case prepare
    note fr = AddPrepare_frame [OF prepare(4)]
    from prepare(4) show ?thesis
    proof (cases rule: AddPrepare_cases)
      case (prepared c1 x c3)
      have "co_is_prepared c3" using adopt_main_frame [OF prepared(3)] by simp
      moreover have "co_status c' = READY_COMMIT"
        using adopt_main_frame [OF prepared(3)] prepared(4) by simp
      then have "need k \<le> card (co_senders c' TYPE_PREPARE (rq_hash r))"
        using st prepared(7) by (auto simp: advances_def)
      ultimately show ?thesis using adopt_main_hash [OF prepared(3)] prepared(4) fr
        by (auto simp: prepared_main_def)
    next
      case (counted c1 st' x)
      then have same: "co_main c' = co_main c \<and> co_is_prepared c' = co_is_prepared c \<and> co_status c' = st'"
        by (auto dest!: record_sender_Some)
      then have "co_status c' = co_status c" using st counted(3) prepare(3) by (auto simp: advances_def)
      with same show ?thesis using inv mono fr by (auto simp: prepared_main_def)
    qed (use inv in simp)
  next
    case vote
    note fr = AddVote_frame [OF vote(2)]
    have keep: "co_enable_viewchange c \<and> co_status c' \<notin> {STATUE_None, READY_PREPARE} \<longrightarrow> co_is_prepared c"
      using inv st vote(6) by (auto simp: prepared_main_def advances_def)
    from vote(2) show ?thesis
    proof (cases rule: AddVote_cases)
      case (counted c1 st x certs)
      then have "co_main c' = co_main c \<and> co_is_prepared c' = co_is_prepared c \<and> out = None"
        by (auto dest!: record_sender_Some)
      then show ?thesis using inv mono keep fr by (auto simp: prepared_main_def)
    next
      case (committed c1 x ret' certs)
      have main: "co_main (c1\<lparr>co_status := READY_EXECUTE\<rparr>) = co_main c"
        using record_sender_Some [OF committed(1)] by simp
      have "co_status c' = EXECUTED" using CollectorCommit_status [OF committed(3)] by simp
      then have prep: "co_enable_viewchange c \<longrightarrow> co_is_prepared c" using keep by simp
      have votes: "need k \<le> card (co_senders c' TYPE_PREPARE (rq_hash m))"
        if "co_is_prepared c" "aup_Reference (co_main c) = Some j" "ri_request j = Some m" for j m
        using inv that mono by (simp add: prepared_main_def)
      have "prepared_main (need k) c'"
        using keep fr votes CollectorCommit_main(1) [OF committed(3), unfolded main]
        by (fastforce simp: prepared_main_def)
      moreover have "need k \<le> card (co_senders c' TYPE_PREPARE (rq_hash m'))"
        if "out = Some m'" "co_enable_viewchange c"
        using CollectorCommit_main(2) [OF committed(3), unfolded main, OF that(1)] votes prep that(2) by auto
      ultimately show ?thesis by simp
    qed
  qed (use inv in simp)
qed

lemma run_facts:
  assumes "coll_run (cb k) (new_collector seq ex vc) es = Some (c, outs, rs)"
  shows "finite (co_senders c t h)" "co_status c \<noteq> READY_EXECUTE" "co_status c \<noteq> STATUE_Prepare"
    "co_seq c = seq" "co_senders c t h \<subseteq> vote_senders seq t h es" "co_is_committed c \<Longrightarrow> co_status c = EXECUTED"
    "outs \<noteq> [] \<Longrightarrow> co_status c = EXECUTED"
proof -
  from inv_run [OF assms] have inv: "collector_inv (need k) es c outs" and seq: "co_seq c = seq" by auto
  then show "co_senders c t h \<subseteq> vote_senders seq t h es" by (simp add: collector_inv_def)
  then show "finite (co_senders c t h)" by (rule finite_subset) simp
  show "co_status c \<noteq> READY_EXECUTE" "co_status c \<noteq> STATUE_Prepare" "co_seq c = seq"
    "co_is_committed c \<Longrightarrow> co_status c = EXECUTED" "outs \<noteq> [] \<Longrightarrow> co_status c = EXECUTED"
    using inv seq by (auto simp: collector_inv_def status_evidence_def)
qed

lemma run_snoc_finite:
  assumes "coll_run (cb k) (new_collector seq ex vc) es = Some (c, outs, rs)"
    "coll_step (cb k) e c = Some (ret, c', res, out)"
  shows "\<forall>t h. finite (co_senders c' t h)"
proof -
  have "coll_run (cb k) (new_collector seq ex vc) (es @ [e]) =
      Some (c', outs @ opt_list out, rs @ map (Pair (fst e)) (opt_list res))"
    using assms by (simp add: coll_run_append)
  then show ?thesis using run_facts(1) by blast
qed

lemma unprepared_run:
  assumes "coll_run (cb k) (new_collector seq ex vc) es = Some (c, outs, rs)"
  shows "(co_is_prepared c \<or> prepared_main (need k) c) \<and> co_enable_viewchange c = vc"
  using assms
proof (induction rule: coll_run_induct)
  case init
  then show ?case by (simp add: prepared_main_def new_collector_def)
next
  case (step es e c outs rs ret c' res out)
  obtain r sig pos where e: "e = (r, sig, pos)" by (cases e) auto
  note st = step.hyps(2) [unfolded e]
  show ?case
  proof (cases "co_is_prepared c")
    case True
    then show ?thesis using coll_step_prepared [OF st] coll_step_parameters [OF st] step.IH by simp
  next
    case False
    then have "prepared_main (need k) c'"
      using prepared_main_step [OF st run_snoc_finite [OF step.hyps(1) st] run_facts(2) [OF step.hyps(1)]]
        step.IH by blast
    then show ?thesis using coll_step_parameters [OF st] step.IH by simp
  qed
qed

lemma release_prepared_hash:
  assumes run: "coll_run (cb k) (new_collector seq ex True) as = Some (c1, o1, r1)" "\<not> co_is_prepared c1"
    and rest: "coll_run (cb k) c1 bs = Some (c, outs, rs)"
      "\<forall>e\<in>set bs. rq_type (fst e) \<noteq> TYPE_PRE_PREPARE"
  shows "\<forall>m\<in>set outs. need k \<le> card (vote_senders seq TYPE_PREPARE (rq_hash m) (as @ bs))"
proof -
  have pm: "prepared_main (need k) c1" "co_enable_viewchange c1" using unprepared_run [OF run(1)] run(2) by auto
  have "(\<forall>e\<in>set bs. rq_type (fst e) \<noteq> TYPE_PRE_PREPARE) \<longrightarrow>
      prepared_main (need k) c \<and> co_enable_viewchange c
    \<and> (\<forall>m\<in>set outs. need k \<le> card (vote_senders seq TYPE_PREPARE (rq_hash m) (as @ bs)))"
    using rest(1)
  proof (induction rule: coll_run_induct)
    case init
    then show ?case using pm by simp
  next
    case (step es e c outs rs ret c' res out)
    obtain r sig pos where e: "e = (r, sig, pos)" by (cases e) auto
    note st = step.hyps(2) [unfolded e]
    have full: "coll_run (cb k) (new_collector seq ex True) (as @ es) = Some (c, o1 @ outs, r1 @ rs)"
      using run(1) step.hyps(1) by (simp add: coll_run_append)
    have full': "coll_run (cb k) (new_collector seq ex True) (as @ es @ [e]) =
        Some (c', (o1 @ outs) @ opt_list out, (r1 @ rs) @ map (Pair (fst e)) (opt_list res))"
      using full step.hyps(2) by (simp add: coll_run_append [of _ _ "as @ es" "[e]", simplified])
    show ?case
    proof
      assume np: "\<forall>e\<in>set (es @ [e]). rq_type (fst e) \<noteq> TYPE_PRE_PREPARE"
      then have ih: "prepared_main (need k) c" "co_enable_viewchange c"
        "\<forall>m\<in>set outs. need k \<le> card (vote_senders seq TYPE_PREPARE (rq_hash m) (as @ es))"
        using step.IH by auto
      have ps: "prepared_main (need k) c' \<and>
          (out = Some m \<longrightarrow> co_enable_viewchange c \<longrightarrow> need k \<le> card (co_senders c' TYPE_PREPARE (rq_hash m)))" for m
        using prepared_main_step [OF st run_snoc_finite [OF full st] run_facts(2) [OF full] ih(1)] np e by simp
      have le: "card (co_senders c' t h) \<le> card (vote_senders seq t h (as @ es @ [e]))" for t h
        using run_facts(5) [OF full'] by (intro card_mono) auto
      have "need k \<le> card (vote_senders seq TYPE_PREPARE (rq_hash m) (as @ es @ [e]))" if "m \<in> set outs" for m
      proof -
        have "card (vote_senders seq TYPE_PREPARE (rq_hash m) (as @ es))
            \<le> card (vote_senders seq TYPE_PREPARE (rq_hash m) (as @ es @ [e]))"
          by (intro card_mono) (auto simp: vote_senders_append)
        then show ?thesis using ih(3) that by force
      qed
      moreover have "need k \<le> card (vote_senders seq TYPE_PREPARE (rq_hash m) (as @ es @ [e]))" if "out = Some m" for m
        using ps [of m] that ih(2) le order_trans by blast
      ultimately show "prepared_main (need k) c' \<and> co_enable_viewchange c' \<and>
        (\<forall>m\<in>set (outs @ opt_list out). need k \<le> card (vote_senders seq TYPE_PREPARE (rq_hash m) (as @ es @ [e])))"
        using ps coll_step_parameters [OF st] ih(2) by (cases out) auto
    qed
  qed
  then show ?thesis using rest(2) by blast
qed

text \<open>Within one view a collector accepts at most one proposal.\<close>

lemma accepted_step:
  assumes st: "coll_step (cb k) (r, sig, pos) c = Some (ret, c', res, out)" "co_status c \<noteq> READY_EXECUTE"
    and view: "rq_type r = TYPE_PRE_PREPARE \<longrightarrow> rq_current_view r = v" "co_view c = 0 \<or> co_view c = v"
  shows "(co_view c' = 0 \<or> co_view c' = v)
       \<and> (accepted (map (Pair r) (opt_list res)) = [] \<and> (co_status c' = STATUE_None \<longrightarrow> co_status c = STATUE_None)
        \<or> accepted (map (Pair r) (opt_list res)) = [r] \<and> co_status c = STATUE_None \<and> co_status c' \<noteq> STATUE_None)"
proof (cases "rq_type r = TYPE_PRE_PREPARE")
  case False
  then show ?thesis using coll_step_view [OF st(1)] coll_step_status [OF st] view(2)
    by (cases res) (auto simp: accepted_def advances_def)
next
  case True
  from st(1) have "AddRequest pos (cb k) (Some r) sig True c = Some (ret, c', res, out)" using True by simp
  then show ?thesis
  proof (cases rule: AddRequest_cases)
    case main
    note v = AddMainRequest_view [OF main(2)]
    show ?thesis
    proof (cases res)
      case None
      then show ?thesis using v(1,3) view True by (auto simp: accepted_def)
    next
      case (Some x)
      have "(co_view c \<noteq> 0 \<and> co_view c < rq_current_view r \<and> \<not> co_is_prepared c) = False"
        using view True by auto
      then have call: "cb k r 1 (co_status c) False = (co_status c', x)" using v(2) [OF Some] by (simp only:)
      have "x \<longleftrightarrow> co_status c' \<noteq> co_status c" "co_status c' \<noteq> co_status c \<Longrightarrow> co_status c = STATUE_None"
        using cb_reports [OF call] cb_sound [OF call] True by (auto simp: vote_step_iff)
      then show ?thesis using v(1) view True Some by (auto simp: accepted_def)
    qed
  qed (use view(2) in \<open>simp_all add: accepted_def\<close>)
qed

lemma accepted_once:
  assumes "coll_run (cb k) (new_collector seq ex vc) es = Some (c, outs, rs)"
    "\<forall>e\<in>set es. rq_type (fst e) = TYPE_PRE_PREPARE \<longrightarrow> rq_current_view (fst e) = v"
  shows "length (accepted rs) \<le> 1"
proof -
  have "(\<forall>e\<in>set es. rq_type (fst e) = TYPE_PRE_PREPARE \<longrightarrow> rq_current_view (fst e) = v) \<longrightarrow>
      (co_view c = 0 \<or> co_view c = v) \<and> length (accepted rs) \<le> 1
    \<and> (co_status c = STATUE_None \<longrightarrow> accepted rs = [])"
    using assms(1)
  proof (induction rule: coll_run_induct)
    case init
    then show ?case by (simp add: new_collector_def accepted_def)
  next
    case (step es e c outs rs ret c' res out)
    obtain r sig pos where e: "e = (r, sig, pos)" by (cases e) auto
    have app: "accepted (rs @ xs) = accepted rs @ accepted xs" for xs by (simp add: accepted_def)
    show ?case
      using accepted_step [OF step.hyps(2) [unfolded e] run_facts(2) [OF step.hyps(1)], of v] step.IH
      unfolding app e by fastforce
  qed
  then show ?thesis using assms(2) by blast
qed

text \<open>Progress: with one hash in every message, the votes move the collector to execution.\<close>

lemma cb_status: "fst (cb k r n st force) = vote_next (need k) (rq_type r) n st"
proof (cases "vote_next (need k) (rq_type r) n st = st")
  case False
  then have "vote_step (need k) (rq_type r) n st (vote_next (need k) (rq_type r) n st)"
    by (auto simp: vote_next_def vote_step_iff split: if_splits)
  then show ?thesis by (rule cb_complete)
next
  case True
  then have "\<not> vote_step (need k) (rq_type r) n st st'" for st'
    by (auto simp: vote_next_def vote_step_iff split: if_splits)
  then show ?thesis using cb_sound [of k r n st force "fst (cb k r n st force)"] True
    by (metis prod.collapse)
qed

lemma progress_main:
  assumes "progress_inv seq h es c outs" "co_status c \<noteq> EXECUTED"
    "AddMainRequest pos (cb k) r sig c = Some (ret, c', res, out)"
    "rq_type r = TYPE_PRE_PREPARE" "rq_seq r = seq" "rq_hash r = h"
  shows "progress_inv seq h (es @ [(r, sig, pos)]) c' (outs @ opt_list out)"
proof -
  note m = AddMainRequest_main [OF assms(3,6)] and v = AddMainRequest_view [OF assms(3)]
    and fr = AddMainRequest_frame [OF assms(3)]
  have st: "co_status c' = (if res = None then co_status c else vote_next (need k) TYPE_PRE_PREPARE 1 (co_status c))"
    using v(2,3) cb_status assms(4) by (cases res) (metis fst_conv option.distinct(1))+
  have votes: "vote_senders seq t h (es @ [(r, sig, pos)]) = vote_senders seq t h es"
    if "t \<noteq> TYPE_PRE_PREPARE" for t
    using that assms(4) by (auto simp: history_simps)
  have "has_main h c'" using m(1) assms(1,2) by (auto simp: progress_inv_def)
  then show ?thesis using assms(1,2) fr st votes m(2)
    by (auto simp: progress_inv_def vote_next_def)
qed

lemma progress_prepare:
  assumes inv: "progress_inv seq h es c outs" "co_status c \<noteq> EXECUTED"
    and step: "AddPrepare (cb k) r sig c = Some (ret, c', res, out)"
    "rq_type r = TYPE_PREPARE" "rq_seq r = seq" "rq_hash r = h"
  shows "progress_inv seq h (es @ [(r, sig, pos)]) c' (outs @ opt_list out)"
proof -
  have votes: "vote_senders seq TYPE_COMMIT h (es @ [(r, sig, pos)]) = vote_senders seq TYPE_COMMIT h es"
    "vote_senders seq TYPE_PREPARE h (es @ [(r, sig, pos)]) = insert (rq_sender_id r) (vote_senders seq TYPE_PREPARE h es)"
    "proposals seq (es @ [(r, sig, pos)]) = proposals seq es"
    using step by (auto simp: history_simps)
  from step(1) show ?thesis
  proof (cases rule: AddPrepare_cases)
    case ignored
    have "co_status c = READY_COMMIT" using inv ignored(4) by (auto simp: progress_inv_def)
    then show ?thesis using inv votes unfolding ignored by (simp add: progress_inv_def)
  next
    case (counted c1 st x)
    have "co_status c' = st" using counted by simp
    moreover have "st = co_status c" 
      using cb_status [of k r "received_count r c1" "co_status c" False] counted(2,3) step(2)
      by (simp add: vote_next_def split: if_splits)
    moreover have "co_main c' = co_main c \<and> co_is_prepared c' = co_is_prepared c
        \<and> co_senders c' = add_sender r (co_senders c)"
      using counted by (auto dest!: record_sender_Some)
    ultimately show ?thesis using inv AddPrepare_frame [OF step(1)] counted votes step
      by (auto simp: progress_inv_def has_main_def add_sender_apply)
  next
    case (prepared c1 x c3)
    have c1: "c1 = c\<lparr>co_prepared_proof := co_prepared_proof c @ [\<lparr>ri_request = Some r, ri_signature = sig\<rparr>],
        co_senders := add_sender r (co_senders c)\<rparr>"
      using record_sender_Some [OF prepared(1)] by simp
    have "co_status c = READY_PREPARE"
      using cb_status [of k r "received_count r c1" "co_status c" False] prepared(2,7) step(2)
      by (auto simp: vote_next_def split: if_splits)
    then have "has_main h c" using inv by (auto simp: progress_inv_def)
    then have "c3 = c1\<lparr>co_status := READY_COMMIT, co_is_prepared := True\<rparr>"
      using prepared(3) adopt_main_same [of h "c1\<lparr>co_status := READY_COMMIT, co_is_prepared := True\<rparr>"] step(4)
      by (simp add: c1 has_main_def)
    then show ?thesis using inv prepared(4,6) \<open>has_main h c\<close> votes step AddPrepare_frame [OF step(1)]
      by (auto simp: progress_inv_def has_main_def c1 add_sender_apply)
  qed
qed

lemma progress_vote:
  assumes inv: "progress_inv seq h es c outs" "co_status c \<noteq> EXECUTED"
    and step: "AddVote (cb k) r sig c = Some (ret, c', res, out)"
    "rq_type r \<noteq> TYPE_PRE_PREPARE" "rq_seq r = seq" "rq_hash r = h"
  shows "progress_inv seq h (es @ [(r, sig, pos)]) c' (outs @ opt_list out)"
proof -
  have votes: "vote_senders seq t h (es @ [(r, sig, pos)]) =
      vote_senders seq t h es \<union> (if t = rq_type r then {rq_sender_id r} else {})" for t
    using step by (auto simp: history_simps)
  have props: "proposals seq (es @ [(r, sig, pos)]) = proposals seq es"
    using step by (auto simp: history_simps)
  from step(1) show ?thesis
  proof (cases rule: AddVote_cases)
    case (counted c1 st x certs)
    have "co_status c' = st" using counted by simp
    moreover have "st = vote_next (need k) (rq_type r) (received_count r c1) (co_status c)"
      using cb_status [of k r "received_count r c1" "co_status c" False] counted(2) by simp
    moreover have "co_main c' = co_main c \<and> co_is_prepared c' = co_is_prepared c
        \<and> co_is_committed c' = co_is_committed c"
      using counted by (auto dest!: record_sender_Some)
    ultimately show ?thesis using inv AddVote_frame [OF step(1)] counted(3,6) votes props step
      by (auto simp: progress_inv_def has_main_def add_sender_apply vote_next_def)
  next
    case (committed c1 x ret' certs)
    have c1: "c1 = c\<lparr>co_commit_certs := certs, co_senders := add_sender r (co_senders c)\<rparr>"
      using record_sender_Some [OF committed(1)] by simp
    have "co_status c = READY_COMMIT"
      using cb_status [of k r "received_count r c1" "co_status c" False] committed(2) inv step(2)
      by (auto simp: vote_next_def progress_inv_def split: if_splits)
    then have "has_main h c" "co_has_executor c" "outs = []" using inv by (auto simp: progress_inv_def)
    then have "co_status c' = EXECUTED \<and> (\<exists>m. out = Some m \<and> rq_hash m = h)"
      using CollectorCommit_releases [OF _ _ _ committed(3)] by (simp add: c1 has_main_def)
    then show ?thesis using inv AddVote_frame [OF step(1)] \<open>outs = []\<close>
      by (auto simp: progress_inv_def)
  qed
qed

lemma progress_step:
  assumes inv: "progress_inv seq h es c outs" and uni: "uniform seq h [e]"
    and step: "coll_step (cb k) e c = Some (ret, c', res, out)"
  shows "progress_inv seq h (es @ [e]) c' (outs @ opt_list out)"
proof (cases "co_status c = EXECUTED")
  case True
  then have "c' = c" "out = None" using coll_step_executed [OF step] by auto
  then show ?thesis using inv True by (auto simp: progress_inv_def)
next
  case False
  obtain r sig pos where e: "e = (r, sig, pos)" by (cases e) auto
  then have r: "rq_seq r = seq" "rq_hash r = h" using uni by (auto simp: uniform_def)
  have nc: "\<not> co_is_committed c" "co_seq c = seq" using inv False by (auto simp: progress_inv_def)
  from step e have "AddRequest pos (cb k) (Some r) sig (rq_type r = TYPE_PRE_PREPARE) c = Some (ret, c', res, out)"
    by simp
  then have "rq_type r = TYPE_PRE_PREPARE \<and> AddMainRequest pos (cb k) r sig c = Some (ret, c', res, out)
    \<or> rq_type r = TYPE_PREPARE \<and> AddPrepare (cb k) r sig c = Some (ret, c', res, out)
    \<or> rq_type r \<noteq> TYPE_PRE_PREPARE \<and> AddVote (cb k) r sig c = Some (ret, c', res, out)"
    using nc False r by (auto simp: AddRequest_def split: if_splits)
  then show ?thesis
    unfolding e
    by (elim disjE conjE) (rule progress_main [OF inv False _ _ r] progress_prepare [OF inv False _ _ r]
      progress_vote [OF inv False _ _ r]; assumption)+
qed

lemma vote_enabled:
  assumes "AddVote (cb k) r sig c = Some (ret, c', res, out)"
    "vote_step (need k) (rq_type r) (card (co_senders c' (rq_type r) (rq_hash r))) (co_status c) st"
  shows "co_status c' = (if st = READY_EXECUTE then EXECUTED else st)"
  using assms(1)
proof (cases rule: AddVote_cases)
  case (counted c1 st' x certs)
  have "received_count r c1 = card (co_senders c' (rq_type r) (rq_hash r))"
    using counted(4) by (simp add: received_count_def)
  then have "st' = st" using cb_complete [OF assms(2), of False] counted(2) by simp
  then show ?thesis using counted by simp
next
  case (committed c1 x ret' certs)
  have "received_count r c1 = card (co_senders c' (rq_type r) (rq_hash r))"
    using CollectorCommit_frame [OF committed(3)] by (simp add: received_count_def)
  then have "READY_EXECUTE = st" using cb_complete [OF assms(2), of False] committed(2) by simp
  then show ?thesis using CollectorCommit_status [OF committed(3)] by simp
qed

lemma prepare_enabled:
  assumes "AddPrepare (cb k) r sig c = Some (ret, c', res, out)" "rq_type r = TYPE_PREPARE"
    "co_status c = READY_PREPARE" "\<not> co_is_prepared c"
    "need k \<le> card (co_senders c' TYPE_PREPARE (rq_hash r))"
  shows "co_status c' = READY_COMMIT"
  using assms(1)
proof (cases rule: AddPrepare_cases)
  case (counted c1 st x)
  have "received_count r c1 = card (co_senders c' TYPE_PREPARE (rq_hash r))"
    using counted(4) assms(2) by (simp add: received_count_def)
  then have "st = READY_COMMIT"
    using cb_complete [of k r "received_count r c1" READY_PREPARE READY_COMMIT False] assms counted(2)
    by (simp add: vote_step_iff)
  then show ?thesis using counted by simp
next
  case (prepared c1 x c3)
  then show ?thesis using adopt_main_frame [OF prepared(3)] by simp
qed (use assms in simp)

lemma stage_prepare:
  assumes inv: "progress_inv seq h es c outs" "proposals seq es \<noteq> {}"
    and ev: "uniform seq h [ev]" "rq_type (fst ev) = TYPE_PREPARE"
    and st: "coll_step (cb k) ev c = Some (ret, c', res, out)"
    and vs: "need k \<le> card (vote_senders seq TYPE_PREPARE h (es @ [ev]))"
  shows "co_status c' \<noteq> STATUE_None \<and> co_status c' \<noteq> READY_PREPARE"
proof (rule ccontr)
  obtain r sig pos where "ev = (r, sig, pos)" by (cases ev) auto
  note e = ev [unfolded this fst_conv] and step = st [unfolded this] and votes = vs [unfolded this]
  assume n: "\<not> (co_status c' \<noteq> STATUE_None \<and> co_status c' \<noteq> READY_PREPARE)"
  have inv': "progress_inv seq h (es @ [(r, sig, pos)]) c' (outs @ opt_list out)"
    by (rule progress_step [OF inv(1) e(1) step])
  have "co_status c' = READY_PREPARE" using n inv' inv(2) by (auto simp: progress_inv_def proposals_append)
  then have enough: "need k \<le> card (co_senders c' TYPE_PREPARE (rq_hash r))"
    using inv' votes e(1) by (auto simp: progress_inv_def uniform_def)
  have "co_status c \<noteq> READY_EXECUTE" using inv by (auto simp: progress_inv_def)
  then have st: "co_status c = READY_PREPARE"
    using coll_step_status [OF step] \<open>co_status c' = READY_PREPARE\<close> e(2) by (auto simp: advances_def)
  then have c: "\<not> co_is_prepared c" "\<not> co_is_committed c" "co_seq c = rq_seq r"
    using inv e(1) by (auto simp: progress_inv_def uniform_def)
  have "AddPrepare (cb k) r sig c = Some (ret, c', res, out) \<or> AddVote (cb k) r sig c = Some (ret, c', res, out)"
    using step st c e(2) by (auto simp: AddRequest_def split: if_splits)
  then have "co_status c' = READY_COMMIT"
  proof
    assume v: "AddVote (cb k) r sig c = Some (ret, c', res, out)"
    show ?thesis using vote_enabled [OF v, of READY_COMMIT] enough st e(2) by (simp add: vote_step_iff)
  qed (use prepare_enabled e(2) st c(1) enough in blast)
  with \<open>co_status c' = READY_PREPARE\<close> show False by simp
qed

lemma stage_commit:
  assumes inv: "progress_inv seq h es c outs" "co_status c \<noteq> STATUE_None" "co_status c \<noteq> READY_PREPARE"
    and ev: "uniform seq h [ev]" "rq_type (fst ev) = TYPE_COMMIT"
    and st: "coll_step (cb k) ev c = Some (ret, c', res, out)"
    and vs: "need k \<le> card (vote_senders seq TYPE_COMMIT h (es @ [ev]))"
  shows "co_status c' = EXECUTED"
proof (cases "co_status c = EXECUTED")
  case True
  then show ?thesis using coll_step_executed [OF st] by simp
next
  case False
  obtain r sig pos where "ev = (r, sig, pos)" by (cases ev) auto
  note e = ev [unfolded this fst_conv] and step = st [unfolded this] and votes = vs [unfolded this]
  have st: "co_status c = READY_COMMIT" and c: "\<not> co_is_committed c" "co_seq c = rq_seq r"
    and se: "co_senders c TYPE_COMMIT h = vote_senders seq TYPE_COMMIT h es"
    using inv e(1) False by (auto simp: progress_inv_def uniform_def)
  have v: "AddVote (cb k) r sig c = Some (ret, c', res, out)"
    using step st c e(2) by (auto simp: AddRequest_def split: if_splits)
  have "co_senders c' TYPE_COMMIT h = vote_senders seq TYPE_COMMIT h (es @ [(r, sig, pos)])"
    using AddVote_frame [OF v] e se by (auto simp: add_sender_apply history_simps uniform_def)
  then show ?thesis using vote_enabled [OF v, of READY_EXECUTE] votes st e by (simp add: vote_step_iff uniform_def)
qed

lemma uniform_append [simp]: "uniform seq h (es @ es') \<longleftrightarrow> uniform seq h es \<and> uniform seq h es'"
  by (auto simp: uniform_def)

lemma progress_event:
  assumes "progress_inv seq h es c outs" "main_present c" "uniform seq h [e]"
  obtains ret c' res out where "coll_step (cb k) e c = Some (ret, c', res, out)"
    "progress_inv seq h (es @ [e]) c' (outs @ opt_list out)" "main_present c'"
    "co_status c \<notin> {STATUE_None, READY_PREPARE} \<longrightarrow> co_status c' \<notin> {STATUE_None, READY_PREPARE}"
proof -
  obtain r sig pos where e: "e = (r, sig, pos)" by (cases e) auto
  have "coll_step (cb k) e c \<noteq> None"
    using coll_step_defined [OF assms(2)] assms(3) unfolding e by (auto simp: uniform_def)
  then obtain ret c' res out where st: "coll_step (cb k) e c = Some (ret, c', res, out)" by auto
  have "co_status c \<in> {STATUE_None, READY_PREPARE, READY_COMMIT, EXECUTED}"
    using assms(1) unfolding progress_inv_def by blast
  then have "co_status c \<notin> {STATUE_None, READY_PREPARE} \<longrightarrow> co_status c' \<notin> {STATUE_None, READY_PREPARE}"
    using coll_step_status [OF st [unfolded e]] by (auto simp: advances_def)
  then show ?thesis
    using that [OF st] progress_step [OF assms(1,3) st] coll_step_present [OF st [unfolded e] assms(2)] by simp
qed

lemma progress_run:
  assumes "progress_inv seq h es0 c0 o0" "main_present c0" "uniform seq h es"
  obtains c outs rs where "coll_run (cb k) c0 es = Some (c, outs, rs)" "progress_inv seq h (es0 @ es) c (o0 @ outs)"
    "main_present c" "co_status c0 \<notin> {STATUE_None, READY_PREPARE} \<longrightarrow> co_status c \<notin> {STATUE_None, READY_PREPARE}"
  using assms
proof (induction es arbitrary: es0 c0 o0 thesis)
  case Nil
  then show ?case by simp
next
  case (Cons e es)
  have u: "uniform seq h [e]" "uniform seq h es" using Cons.prems(4) by (auto simp: uniform_def)
  obtain ret c1 res out where st: "coll_step (cb k) e c0 = Some (ret, c1, res, out)"
    and 1: "progress_inv seq h (es0 @ [e]) c1 (o0 @ opt_list out)" "main_present c1"
    and up: "co_status c0 \<notin> {STATUE_None, READY_PREPARE} \<longrightarrow> co_status c1 \<notin> {STATUE_None, READY_PREPARE}"
    by (rule progress_event [OF Cons.prems(2,3) u(1), of k])
  obtain c outs rs where
    "coll_run (cb k) c1 es = Some (c, outs, rs)" "progress_inv seq h ((es0 @ [e]) @ es) c ((o0 @ opt_list out) @ outs)"
    "main_present c" "co_status c1 \<notin> {STATUE_None, READY_PREPARE} \<longrightarrow> co_status c \<notin> {STATUE_None, READY_PREPARE}"
    by (rule Cons.IH [OF _ 1 u(2)])
  then show ?case using st up
    by (intro Cons.prems(1) [of c "opt_list out @ outs" "map (Pair (fst e)) (opt_list res) @ rs"]) simp_all
qed

lemma run_releases:
  assumes uni: "uniform seq h (as @ [p] @ bs @ [q] @ ds)" and props: "proposals seq as \<noteq> {}"
    and p: "rq_type (fst p) = TYPE_PREPARE" "need k \<le> card (vote_senders seq TYPE_PREPARE h (as @ [p]))"
    and q: "rq_type (fst q) = TYPE_COMMIT"
      "need k \<le> card (vote_senders seq TYPE_COMMIT h (((as @ [p]) @ bs) @ [q]))"
  shows "\<exists>c m rs. coll_run (cb k) (new_collector seq True vc) (as @ [p] @ bs @ [q] @ ds) = Some (c, [m], rs)
    \<and> rq_hash m = h"
proof -
  let ?c0 = "new_collector seq True vc"
  have u: "uniform seq h as" "uniform seq h [p]" "uniform seq h bs" "uniform seq h [q]" "uniform seq h ds"
    using uni by (auto simp: uniform_def)
  have init: "progress_inv seq h [] ?c0 []" "main_present ?c0"
    by (simp_all add: progress_inv_def new_collector_def vote_senders_def proposals_def aup_new_def
        main_present_def aup_Reference_def)
  obtain c1 o1 r1 where 1: "coll_run (cb k) ?c0 as = Some (c1, o1, r1)"
    "progress_inv seq h ([] @ as) c1 ([] @ o1)" "main_present c1"
    by (rule progress_run [OF init u(1), of k])
  obtain ret2 c2 res2 o2 where 2: "coll_step (cb k) p c1 = Some (ret2, c2, res2, o2)"
    "progress_inv seq h (([] @ as) @ [p]) c2 (([] @ o1) @ opt_list o2)" "main_present c2"
    by (rule progress_event [OF 1(2,3) u(2), of k])
  have s2: "co_status c2 \<notin> {STATUE_None, READY_PREPARE}"
    using stage_prepare [OF 1(2) _ u(2) p(1) 2(1)] props p(2) by simp
  obtain c3 o3 r3 where 3: "coll_run (cb k) c2 bs = Some (c3, o3, r3)"
    "progress_inv seq h ((([] @ as) @ [p]) @ bs) c3 ((([] @ o1) @ opt_list o2) @ o3)" "main_present c3"
    and s3: "co_status c2 \<notin> {STATUE_None, READY_PREPARE} \<longrightarrow> co_status c3 \<notin> {STATUE_None, READY_PREPARE}"
    by (rule progress_run [OF 2(2,3) u(3), of k])
  obtain ret4 c4 res4 o4 where 4: "coll_step (cb k) q c3 = Some (ret4, c4, res4, o4)"
    "progress_inv seq h (((([] @ as) @ [p]) @ bs) @ [q]) c4 (((([] @ o1) @ opt_list o2) @ o3) @ opt_list o4)"
    "main_present c4"
    by (rule progress_event [OF 3(2,3) u(4), of k])
  have "co_status c4 = EXECUTED"
    using stage_commit [OF 3(2) _ _ u(4) q(1) 4(1)] s2 s3 q(2) by simp
  then obtain m where m: "o1 @ opt_list o2 @ o3 @ opt_list o4 = [m]" "rq_hash m = h" and s4: "co_status c4 = EXECUTED"
    using 4(2) by (auto simp: progress_inv_def)
  obtain rs where "coll_run (cb k) c4 ds = Some (c4, [], rs)"
    using run_executed [OF s4] by blast
  then show ?thesis using 1(1) 2(1) 3(1) 4(1) m by (simp add: coll_run_append)
qed

end

end
