(* ===== verification/Collector_Pool.thy ===== *)
theory Collector_Pool
  imports Collector
begin

text \<open>
  \<open>LockFreeCollectorPool\<close> (platform/consensus/ordering/pbft/lock_free_collector_pool.h and .cpp):
  a ring of collectors, twice as long as the capacity. \<open>Update(seq)\<close> recycles the slot half a ring
  ahead. \<open>None\<close> is undefined behaviour: a shift by the width of the type or an index outside the
  vector.
\<close>

section \<open>Construction\<close>

function GetCapacity_loop :: "nat \<Rightarrow> uint32 \<Rightarrow> uint32 option" where
  "GetCapacity_loop i sz =
     (if 32 \<le> i then None
      else if push_bit i 1 \<le> sz then GetCapacity_loop (Suc i) sz
      else Some (push_bit i 1))"
  by pat_completeness auto
termination by (relation "measure (\<lambda>(i, _). 32 - i)") auto

definition GetCapacity :: "uint32 \<Rightarrow> uint32 option" where
  "GetCapacity sz = GetCapacity_loop 0 sz"

record collector_pool =
  po_capacity :: uint32
  po_mask :: uint32
  po_has_executor :: bool
  po_enable_viewchange :: bool
  po_collector :: "collector list"

definition new_pool :: "uint32 \<Rightarrow> bool \<Rightarrow> bool \<Rightarrow> collector_pool option" where
  "new_pool sz has_executor enable_viewchange =
     (case GetCapacity (sz * 2) of
        None \<Rightarrow> None
      | Some capacity \<Rightarrow>
          Some \<lparr>po_capacity = capacity, po_mask = push_bit 1 capacity - 1,
                po_has_executor = has_executor, po_enable_viewchange = enable_viewchange,
                po_collector = map (\<lambda>i. new_collector (of_nat i) has_executor enable_viewchange)
                                   [0 ..< unat (push_bit 1 capacity)]\<rparr>)"

section \<open>Operations\<close>

definition pool_idx :: "uint64 \<Rightarrow> collector_pool \<Rightarrow> uint32" where
  "pool_idx seq p = ucast (seq AND ucast (po_mask p))"

definition GetCollector :: "uint64 \<Rightarrow> collector_pool \<Rightarrow> collector option" where
  "GetCollector seq p =
     (let idx = unat (pool_idx seq p)
      in if idx < length (po_collector p) then Some (po_collector p ! idx) else None)"

text \<open>Replacing the collector that \<open>GetCollector\<close> points to, after a call on it.\<close>

definition SetCollector :: "uint64 \<Rightarrow> collector \<Rightarrow> collector_pool \<Rightarrow> collector_pool" where
  "SetCollector seq c p = p\<lparr>po_collector := (po_collector p)[unat (pool_idx seq p) := c]\<rparr>"

definition pool_Update :: "uint64 \<Rightarrow> collector_pool \<Rightarrow> collector_pool option" where
  "pool_Update seq p =
     (let idx = pool_idx seq p; next = unat (idx XOR po_capacity p)
      in if length (po_collector p) \<le> unat idx then None
         else if co_seq (po_collector p ! unat idx) \<noteq> seq then Some p
         else if length (po_collector p) \<le> next then None
         else Some (p\<lparr>po_collector := (po_collector p)[next :=
                new_collector (seq + ucast (po_capacity p)) (po_has_executor p) (po_enable_viewchange p)]\<rparr>))"

fun pool_updates :: "uint64 list \<Rightarrow> collector_pool \<Rightarrow> collector_pool option" where
  "pool_updates [] p = Some p"
| "pool_updates (s # ss) p = (case pool_Update s p of None \<Rightarrow> None | Some p1 \<Rightarrow> pool_updates ss p1)"

section \<open>The capacity\<close>

lemma unat_two_power: "i < LENGTH('a) \<Longrightarrow> unat ((2::'a::len word) ^ i) = 2 ^ i"
proof -
  assume i: "i < LENGTH('a)"
  have "(2::'a word) ^ i = of_nat (2 ^ i)" by simp
  then have "unat ((2::'a word) ^ i) = take_bit LENGTH('a) (2 ^ i)" by (metis unat_of_nat take_bit_eq_mod)
  then show ?thesis using i by (simp add: take_bit_nat_eq_self)
qed

declare GetCapacity_loop.simps [simp del]

lemma GetCapacity_loop_correct:
  assumes "unat sz < 2 ^ 31" "i < 32" "i = 0 \<or> 2 ^ (i - 1) \<le> unat sz"
  shows "\<exists>j<32. GetCapacity_loop i sz = Some (push_bit j 1) \<and> unat sz < 2 ^ j
             \<and> (j = 0 \<or> 2 ^ (j - 1) \<le> unat sz)"
  using assms
proof (induction i sz rule: GetCapacity_loop.induct)
  case (1 i sz)
  have le: "push_bit i 1 \<le> sz \<longleftrightarrow> 2 ^ i \<le> unat sz"
    using 1(3) by (simp add: word_le_nat_alt unat_two_power)
  show ?case
  proof (cases "2 ^ i \<le> unat sz")
    case True
    have "i \<noteq> 31" using True 1(2) by auto
    then have "Suc i < 32" using 1(3) by simp
    then show ?thesis using 1 True le by (subst GetCapacity_loop.simps) simp
  next
    case False
    then show ?thesis using 1 le by (subst GetCapacity_loop.simps) (auto intro!: exI [of _ i])
  qed
qed

lemma GetCapacity_correct:
  assumes "unat sz < 2 ^ 31"
  obtains j where "j < 32" "GetCapacity sz = Some (push_bit j 1)" "unat sz < 2 ^ j"
    "j = 0 \<or> 2 ^ (j - 1) \<le> unat sz"
  using GetCapacity_loop_correct [OF assms, of 0] by (auto simp: GetCapacity_def)

section \<open>The ring\<close>

text \<open>Each slot holds a sequence number that belongs to it.\<close>

definition pool_wf :: "nat \<Rightarrow> collector_pool \<Rightarrow> bool" where
  "pool_wf j p \<longleftrightarrow> j < 31 \<and> po_capacity p = push_bit j 1 \<and> po_mask p = push_bit 1 (po_capacity p) - 1
     \<and> length (po_collector p) = 2 ^ Suc j
     \<and> (\<forall>i < 2 ^ Suc j. unat (co_seq (po_collector p ! i)) mod 2 ^ Suc j = i)"

lemma xor_half_ring:
  assumes "(x::nat) < 2 ^ Suc j"
  shows "x XOR 2 ^ j = (x + 2 ^ j) mod 2 ^ Suc j"
proof (cases "x < 2 ^ j")
  case True
  then have "\<not> bit x j" by (simp add: bit_iff_odd)
  then have "x XOR 2 ^ j = x + 2 ^ j"
    using flip_bit_eq_if [of j x] by (simp add: flip_bit_eq_xor push_bit_eq_mult set_bit_eq)
  then show ?thesis using True by simp
next
  case False
  then have "x - 2 ^ j < 2 ^ j" using assms by simp
  then have "\<not> bit (x - 2 ^ j) j" by (simp add: bit_iff_odd)
  then have "(x - 2 ^ j) XOR 2 ^ j = x"
    using flip_bit_eq_if [of j "x - 2 ^ j"] False by (simp add: flip_bit_eq_xor push_bit_eq_mult set_bit_eq)
  then have "x XOR 2 ^ j = x - 2 ^ j"
    by (metis xor.assoc xor_self_eq xor.right_neutral)
  moreover have "(x + 2 ^ j) mod 2 ^ Suc j = x - 2 ^ j"
    using False assms by (simp add: mod_if)
  ultimately show ?thesis by simp
qed

lemma pool_idx_mod:
  assumes "pool_wf j p"
  shows "unat (pool_idx seq p) = unat seq mod 2 ^ Suc j"
proof -
  have j: "j < 31" using assms by (simp add: pool_wf_def)
  have m: "po_mask p = mask (Suc j)"
    using assms by (simp add: pool_wf_def mask_eq_exp_minus_1)
  have "(ucast (po_mask p) :: uint64) = mask (Suc j)"
    unfolding m using j by (intro bit_word_eqI) (auto simp: bit_simps)
  then have "unat (pool_idx seq p) = take_bit 32 (take_bit (Suc j) (unat seq))"
    by (simp add: pool_idx_def take_bit_eq_mask [symmetric] unsigned_take_bit_eq unsigned_ucast_eq
        min.commute)
  then have "unat (pool_idx seq p) = take_bit (Suc j) (unat seq)" using j by (simp add: take_bit_take_bit)
  then show ?thesis by (simp only: take_bit_eq_mod)
qed

lemma pool_next_mod:
  assumes "pool_wf j p"
  shows "unat (pool_idx seq p XOR po_capacity p) = (unat seq + 2 ^ j) mod 2 ^ Suc j"
proof -
  have cap: "unat (po_capacity p) = 2 ^ j" using assms by (simp add: pool_wf_def unat_two_power)
  have "unat (pool_idx seq p XOR po_capacity p) = (unat seq mod 2 ^ Suc j) XOR 2 ^ j"
    by (simp only: unsigned_xor_eq pool_idx_mod [OF assms] cap)
  also have "\<dots> = (unat seq mod 2 ^ Suc j + 2 ^ j) mod 2 ^ Suc j" by (rule xor_half_ring) simp
  finally show ?thesis by (simp add: mod_add_left_eq)
qed

lemma GetCollector_wf:
  assumes "pool_wf j p"
  shows "GetCollector seq p = Some (po_collector p ! (unat seq mod 2 ^ Suc j))"
  using assms unfolding GetCollector_def Let_def pool_idx_mod [OF assms] by (simp add: pool_wf_def)

lemma new_pool_wf:
  assumes "unat sz < 2 ^ 29"
  obtains j p where "new_pool sz ex vc = Some p" "pool_wf j p" "2 * unat sz < 2 ^ j"
    "\<forall>s < 2 ^ Suc j. po_collector p ! s = new_collector (of_nat s) ex vc"
proof -
  have sz: "unat (sz * 2) = 2 * unat sz"
    using assms by (simp add: unat_word_ariths)
  obtain j where j: "GetCapacity (sz * 2) = Some (push_bit j 1)" "2 * unat sz < 2 ^ j" "j < 32"
    "j = 0 \<or> 2 ^ (j - 1) \<le> 2 * unat sz"
    using GetCapacity_correct [of "sz * 2"] sz assms by auto
  have "j < 31"
  proof (rule ccontr)
    assume "\<not> j < 31"
    then have "(2::nat) ^ 30 \<le> 2 ^ (j - 1)" by (intro power_increasing) auto
    then show False using j(4) assms \<open>\<not> j < 31\<close> by auto
  qed
  have len: "unat (push_bit 1 (push_bit j 1 :: uint32)) = 2 ^ Suc j"
    using unat_two_power [of "Suc j", where 'a = 32] \<open>j < 31\<close> by (simp add: push_bit_eq_mult mult.commute)
  have small: "unat (of_nat i :: uint64) = i" if "i < 2 ^ Suc j" for i
  proof -
    have "(2::nat) ^ Suc j \<le> 2 ^ 64" using \<open>j < 31\<close> by (intro power_increasing) auto
    then show ?thesis using that by (simp add: unat_of_nat)
  qed
  let ?p = "\<lparr>po_capacity = push_bit j 1, po_mask = push_bit 1 (push_bit j 1) - 1, po_has_executor = ex,
     po_enable_viewchange = vc, po_collector = map (\<lambda>i. new_collector (of_nat i) ex vc) [0 ..< 2 ^ Suc j]\<rparr>"
  have "new_pool sz ex vc = Some ?p" using j(1) len by (simp add: new_pool_def)
  moreover have "pool_wf j ?p"
    using \<open>j < 31\<close> small by (auto simp: pool_wf_def new_collector_def)
  moreover have "\<forall>s < 2 ^ Suc j. po_collector ?p ! s = new_collector (of_nat s) ex vc" by simp
  ultimately show ?thesis using that j(2) by blast
qed

section \<open>Reachable pools\<close>

text \<open>
  The life of the pool: the constructor, calls on the collectors it hands out (which never change a
  collector's sequence number), and the executor's notification \<open>Update(n + 1)\<close> after it ordered the
  message \<open>n + 1\<close>. The second index is the number of messages ordered so far.
\<close>

inductive pool_reach :: "uint32 \<Rightarrow> nat \<Rightarrow> collector_pool \<Rightarrow> bool" for sz where
  reach_new: "new_pool sz ex vc = Some p \<Longrightarrow> pool_reach sz 0 p"
| reach_call: "pool_reach sz n p \<Longrightarrow> GetCollector seq p = Some c \<Longrightarrow> co_seq c' = co_seq c \<Longrightarrow>
     pool_reach sz n (SetCollector seq c' p)"
| reach_update: "pool_reach sz n p \<Longrightarrow> pool_Update (of_nat (Suc n)) p = Some p' \<Longrightarrow> pool_reach sz (Suc n) p'"

definition pool_window :: "nat \<Rightarrow> nat \<Rightarrow> collector_pool \<Rightarrow> bool" where
  "pool_window j n p \<longleftrightarrow>
     (\<forall>s. n < s \<and> s \<le> n + 2 ^ j \<longrightarrow> co_seq (po_collector p ! (s mod 2 ^ Suc j)) = of_nat s)"

lemma SetCollector_wf:
  assumes "pool_wf j p" "GetCollector seq p = Some c" "co_seq c' = co_seq c"
  shows "pool_wf j (SetCollector seq c' p)"
    and "pool_window j n p \<Longrightarrow> pool_window j n (SetCollector seq c' p)"
proof -
  have c: "c = po_collector p ! (unat seq mod 2 ^ Suc j)" using GetCollector_wf [OF assms(1)] assms(2) by simp
  have len: "unat seq mod 2 ^ Suc j < length (po_collector p)" using assms(1) by (simp add: pool_wf_def)
  have same: "co_seq (po_collector (SetCollector seq c' p) ! i) = co_seq (po_collector p ! i)" for i
    using assms(3) c len by (simp add: SetCollector_def pool_idx_mod [OF assms(1)] nth_list_update)
  then show "pool_wf j (SetCollector seq c' p)" using assms(1)
    by (simp add: pool_wf_def SetCollector_def)
  show "pool_window j n p \<Longrightarrow> pool_window j n (SetCollector seq c' p)"
    by (simp add: pool_window_def same)
qed

lemma pool_Update_match:
  assumes wf: "pool_wf j p" and seq: "co_seq (po_collector p ! (unat seq mod 2 ^ Suc j)) = seq"
    and fit: "unat seq + 2 ^ j < 2 ^ 64"
  defines "p' \<equiv> p\<lparr>po_collector := (po_collector p)[(unat seq + 2 ^ j) mod 2 ^ Suc j :=
     new_collector (seq + 2 ^ j) (po_has_executor p) (po_enable_viewchange p)]\<rparr>"
  shows "pool_Update seq p = Some p'" "pool_wf j p'"
proof -
  have len: "length (po_collector p) = 2 ^ Suc j" and j: "j < 31" using wf by (simp_all add: pool_wf_def)
  have cap: "(ucast (po_capacity p) :: uint64) = 2 ^ j"
  proof (rule unsigned_word_eqI)
    show "unat (ucast (po_capacity p) :: uint64) = unat ((2::uint64) ^ j)"
      using wf by (simp add: pool_wf_def unsigned_ucast_eq unat_two_power take_bit_nat_eq_self)
  qed
  show "pool_Update seq p = Some p'"
    unfolding pool_Update_def Let_def pool_idx_mod [OF wf] pool_next_mod [OF wf] len cap p'_def
    by (simp add: seq not_le del: power_Suc)
  have "unat (seq + 2 ^ j) = unat seq + 2 ^ j"
    using fit j by (simp add: unat_word_ariths unat_two_power)
  then show "pool_wf j p'"
    using wf by (auto simp: pool_wf_def p'_def nth_list_update new_collector_def)
qed

lemma mod_eq_near: "(s::nat) \<le> t \<Longrightarrow> t - s < m \<Longrightarrow> s mod m = t mod m \<Longrightarrow> s = t"
  using mod_eq_dvd_iff_nat [of s t m] dvd_imp_le [of m "t - s"] by (cases "s = t") auto

lemma ring_distinct:
  assumes "(n::nat) < s" "s < n + m" "n < t" "t < n + m" "s mod m = t mod m"
  shows "s = t"
proof (cases "s \<le> t")
  case True
  then show ?thesis by (rule mod_eq_near [OF _ _ assms(5)]) (use assms(1,4) True in linarith)
next
  case False
  have "t = s" by (rule mod_eq_near [OF _ _ assms(5) [symmetric]]) (use assms(2,3) False in linarith)+
  then show ?thesis by simp
qed

lemma pool_Update_window:
  assumes wf: "pool_wf j p" and win: "pool_window j n p" and fit: "n + 2 ^ 32 < 2 ^ 64"
  obtains p' where "pool_Update (of_nat (Suc n)) p = Some p'" "pool_wf j p'" "pool_window j (Suc n) p'"
    "\<And>s. Suc n < s \<Longrightarrow> s \<le> n + 2 ^ j \<Longrightarrow> po_collector p' ! (s mod 2 ^ Suc j) = po_collector p ! (s mod 2 ^ Suc j)"
proof -
  have "j < 31" using wf by (simp add: pool_wf_def)
  then have "(2::nat) ^ j \<le> 2 ^ 31" by (intro power_increasing) auto
  then have fit': "Suc n + 2 ^ j < 2 ^ 64" using fit by simp
  then have un: "unat (of_nat (Suc n) :: uint64) = Suc n" by (simp add: unat_of_nat del: of_nat_Suc)
  have seq: "co_seq (po_collector p ! (Suc n mod 2 ^ Suc j)) = of_nat (Suc n)"
    using win by (simp add: pool_window_def del: power_Suc of_nat_Suc)
  define p' where "p' = p\<lparr>po_collector := (po_collector p)[(Suc n + 2 ^ j) mod 2 ^ Suc j :=
     new_collector (of_nat (Suc n) + 2 ^ j) (po_has_executor p) (po_enable_viewchange p)]\<rparr>"
  have up: "pool_Update (of_nat (Suc n)) p = Some p'" "pool_wf j p'"
    using pool_Update_match [OF wf, of "of_nat (Suc n)"] seq fit' unfolding un p'_def by blast+
  have keep: "po_collector p' ! (s mod 2 ^ Suc j) = po_collector p ! (s mod 2 ^ Suc j)"
    if "Suc n < s" "s \<le> n + 2 ^ j" for s
  proof -
    have "s mod 2 ^ Suc j \<noteq> (Suc n + 2 ^ j) mod 2 ^ Suc j"
      using ring_distinct [of n s "2 ^ Suc j" "Suc n + 2 ^ j"] that by auto
    then show ?thesis by (simp add: p'_def nth_list_update)
  qed
  have "(Suc n + 2 ^ j) mod 2 ^ Suc j < length (po_collector p)" using wf by (simp add: pool_wf_def)
  then have last: "co_seq (po_collector p' ! ((Suc n + 2 ^ j) mod 2 ^ Suc j)) = of_nat (Suc n + 2 ^ j)"
    by (simp add: p'_def new_collector_def del: power_Suc)
  have "pool_window j (Suc n) p'"
    unfolding pool_window_def
  proof (intro allI impI)
    fix s assume s: "Suc n < s \<and> s \<le> Suc n + 2 ^ j"
    show "co_seq (po_collector p' ! (s mod 2 ^ Suc j)) = of_nat s"
    proof (cases "s = Suc n + 2 ^ j")
      case True
      then show ?thesis using last by simp
    next
      case False
      then show ?thesis using s keep [of s] win by (simp add: pool_window_def)
    qed
  qed
  then show ?thesis using that up keep by blast
qed

lemma pool_reach_inv:
  assumes "pool_reach sz n p" "unat sz < 2 ^ 29" "n + 2 ^ 32 < 2 ^ 64"
  shows "\<exists>j. pool_wf j p \<and> 2 * unat sz < 2 ^ j \<and> pool_window j n p"
  using assms
proof (induction rule: pool_reach.induct)
  case (reach_new ex vc p)
  obtain j where j: "pool_wf j p" "2 * unat sz < 2 ^ j"
    "\<forall>s < 2 ^ Suc j. po_collector p ! s = new_collector (of_nat s) ex vc"
    using new_pool_wf [OF reach_new(2), of ex vc] reach_new(1) by auto
  have "s mod 2 ^ Suc j = s" if "s \<le> 2 ^ j" for s :: nat
  proof -
    have "(0::nat) < 2 ^ j" by simp
    then have "s < 2 ^ Suc j" unfolding power_Suc using that by linarith
    then show ?thesis by (rule mod_less)
  qed
  then have "pool_window j 0 p" using j(3) by (auto simp: pool_window_def new_collector_def)
  then show ?case using j by blast
next
  case (reach_call n p seq c c')
  then show ?case using SetCollector_wf by blast
next
  case (reach_update n p p')
  then obtain j where j: "pool_wf j p" "2 * unat sz < 2 ^ j" "pool_window j n p" by auto
  have "n + 2 ^ 32 < 2 ^ 64" using reach_update.prems by simp
  then show ?case using pool_Update_window [OF j(1,3)] j(2) reach_update.hyps(2)
    by (metis option.inject)
qed

text \<open>C34: Every sequence number in the window that the primary may use, up to twice \<open>max_process_txn\<close>
  ahead of the last ordered message, has its own collector in the pool, whatever calls the
  collectors have received. The pool never reads outside its vector.\<close>

theorem window_has_own_collector:
  assumes "pool_reach sz n p" "unat sz < 2 ^ 29" "n + 2 ^ 32 < 2 ^ 64" "n < s" "s \<le> n + 2 * unat sz"
  shows "\<exists>c. GetCollector (of_nat s) p = Some c \<and> co_seq c = of_nat s"
proof -
  obtain j where j: "pool_wf j p" "2 * unat sz < 2 ^ j" "pool_window j n p"
    using pool_reach_inv [OF assms(1-3)] by blast
  have "unat sz < 2 ^ 29" by (rule assms(2))
  then have "unat (of_nat s :: uint64) = s" using assms(3,5) by (simp add: unat_of_nat)
  then show ?thesis using GetCollector_wf [OF j(1), of "of_nat s"] j assms(4,5)
    by (simp add: pool_window_def)
qed

theorem window_has_own_collector_witness:
  "(case new_pool 2 True False of
      Some p \<Rightarrow> \<exists>c. GetCollector (of_nat 4) p = Some c \<and> co_seq c = of_nat 4 | None \<Rightarrow> False)"
proof (cases "new_pool 2 True False")
  case None
  then show ?thesis by (simp add: new_pool_def GetCapacity_def GetCapacity_loop.simps split: if_splits)
next
  case (Some p)
  then show ?thesis using window_has_own_collector [OF reach_new [OF Some], of 4] by simp
qed

text \<open>The notification for the next ordered message is always defined; it recycles one slot and
  leaves every collector of the rest of the window, with the votes it has gathered, as it was.\<close>

theorem update_keeps_votes:
  assumes "pool_reach sz n p" "unat sz < 2 ^ 29" "n + 2 ^ 32 < 2 ^ 64"
  shows "\<exists>p'. pool_Update (of_nat (Suc n)) p = Some p' \<and>
     (\<forall>s. Suc n < s \<and> s \<le> n + 2 * unat sz \<longrightarrow> GetCollector (of_nat s) p' = GetCollector (of_nat s) p)"
proof -
  obtain j where j: "pool_wf j p" "2 * unat sz < 2 ^ j" "pool_window j n p"
    using pool_reach_inv [OF assms] by blast
  obtain p' where p': "pool_Update (of_nat (Suc n)) p = Some p'" "pool_wf j p'"
    "\<And>s. Suc n < s \<Longrightarrow> s \<le> n + 2 ^ j \<Longrightarrow> po_collector p' ! (s mod 2 ^ Suc j) = po_collector p ! (s mod 2 ^ Suc j)"
    by (rule pool_Update_window [OF j(1,3) assms(3)]) blast
  have "GetCollector (of_nat s) p' = GetCollector (of_nat s) p" if s: "Suc n < s" "s \<le> n + 2 * unat sz" for s
  proof -
    have "unat (of_nat s :: uint64) = s" using assms(2,3) s by (simp add: unat_of_nat)
    then show ?thesis
      using GetCollector_wf [OF j(1), of "of_nat s"] GetCollector_wf [OF p'(2), of "of_nat s"] p'(3) [of s] s j(2) by simp
  qed
  then show ?thesis using p'(1) by blast
qed

theorem update_keeps_votes_witness:
  "(case new_pool 2 True False of
      Some p \<Rightarrow> \<exists>p'. pool_Update (of_nat (Suc 0)) p = Some p' \<and>
        (\<forall>s. Suc 0 < s \<and> s \<le> 4 \<longrightarrow> GetCollector (of_nat s) p' = GetCollector (of_nat s) p)
    | None \<Rightarrow> False)"
proof (cases "new_pool 2 True False")
  case None
  then show ?thesis by (simp add: new_pool_def GetCapacity_def GetCapacity_loop.simps split: if_splits)
next
  case (Some p)
  then show ?thesis using update_keeps_votes [OF reach_new [OF Some]] by simp
qed

end
