(* ===== verification/Checkpoint.thy ===== *)
theory Checkpoint
  imports Executor
begin

text \<open>
  \<open>ChainState\<close> (chain/state/chain_state.cpp) and \<open>CheckPointManager\<close>
  (platform/consensus/ordering/pbft/checkpoint_manager.cpp): the executed requests, the hash chain
  over them, the votes on its value every \<open>water_mark\<close> requests, the stable checkpoint the votes
  make, and the state transfer that follows a checkpoint of \<open>f + 1\<close> replicas.

  The threads are step functions, one per loop iteration; a thread's local variables that survive
  an iteration are fields of the state. The answers of other replicas to
  \<open>GetRequestFromReplica\<close> are the argument \<open>fetch\<close>. \<open>None\<close> is undefined behaviour. The scan of the votes and
  the removal of old ones are one step of \<open>UpdateStableCheckPointStatus\<close>, between which the code lets
  go of its lock: a vote that arrives there is one that arrives after the step.
\<close>

section \<open>The chain state\<close>

record chain_state =
  cs_data :: "uint64 \<rightharpoonup> request"
  cs_max_seq :: uint64

definition new_chain_state :: chain_state where
  "new_chain_state = \<lparr>cs_data = Map.empty, cs_max_seq = 0\<rparr>"

definition ChainState_Get :: "uint64 \<Rightarrow> chain_state \<Rightarrow> request option" where
  "ChainState_Get seq s = cs_data s seq"

definition ChainState_Put :: "request \<Rightarrow> chain_state \<Rightarrow> chain_state" where
  "ChainState_Put r s = s\<lparr>cs_max_seq := rq_seq r, cs_data := (cs_data s)(rq_seq r \<mapsto> r)\<rparr>"

definition GetMaxSeq :: "chain_state \<Rightarrow> uint64" where
  "GetMaxSeq s = cs_max_seq s"

section \<open>The checkpoint manager\<close>

type_synonym ckpt_key = "uint64 \<times> string"
type_synonym fetch_fn = "replica_info \<Rightarrow> uint64 \<Rightarrow> uint64 \<Rightarrow> request list option"

record checkpoint_manager =
  cm_config :: resdb_config
  cm_txn_db :: chain_state
  cm_verifier :: "signature_verifier option"
  cm_sender_ckpt :: "(ckpt_key, uint32 set) std_map"
  cm_sign_ckpt :: "(ckpt_key, signature_info list) std_map"
  cm_hash_ckpt :: "(ckpt_key, string list) std_map"
  cm_current_stable_seq :: uint64
  cm_data_queue :: "request list"
  cm_stable_ckpt :: stable_checkpoint
  cm_new_data :: int
  cm_last_seq :: uint64
  cm_last_hash :: string
  cm_highest_prepared_seq :: uint64
  cm_committable_seq :: uint64
  cm_committable_hash :: string
  cm_committable_signals :: nat
  cm_last_committable_seq :: uint64
  cm_last_ckpt_seq :: uint64

definition new_checkpoint_manager :: "resdb_config \<Rightarrow> signature_verifier option \<Rightarrow> checkpoint_manager" where
  "new_checkpoint_manager cfg verifier =
     \<lparr>cm_config = (if cd_enable_viewchange (cf_config_data cfg)
                   then cfg\<lparr>cf_is_enable_checkpoint := True\<rparr> else cfg),
      cm_txn_db = new_chain_state, cm_verifier = verifier, cm_sender_ckpt = [], cm_sign_ckpt = [],
      cm_hash_ckpt = [], cm_current_stable_seq = 0, cm_data_queue = [],
      cm_stable_ckpt = empty_stable_checkpoint, cm_new_data = 0, cm_last_seq = 0, cm_last_hash = [],
      cm_highest_prepared_seq = 0, cm_committable_seq = 0, cm_committable_hash = [],
      cm_committable_signals = 0, cm_last_committable_seq = 0, cm_last_ckpt_seq = 0\<rparr>"

definition GetHash :: "crypto \<Rightarrow> string \<Rightarrow> string \<Rightarrow> string" where
  "GetHash C h1 h2 = CalculateHash C (h1 @ h2)"

definition GetMaxTxnSeq :: "checkpoint_manager \<Rightarrow> uint64" where
  "GetMaxTxnSeq m = GetMaxSeq (cm_txn_db m)"

definition GetStableCheckpoint :: "checkpoint_manager \<Rightarrow> uint64" where
  "GetStableCheckpoint m = cm_current_stable_seq m"

definition GetStableCheckpointWithVotes :: "checkpoint_manager \<Rightarrow> stable_checkpoint" where
  "GetStableCheckpointWithVotes m = cm_stable_ckpt m"

definition GetHighestPreparedSeq :: "checkpoint_manager \<Rightarrow> uint64" where
  "GetHighestPreparedSeq m = cm_highest_prepared_seq m"

definition SetHighestPreparedSeq :: "uint64 \<Rightarrow> checkpoint_manager \<Rightarrow> checkpoint_manager" where
  "SetHighestPreparedSeq seq m = m\<lparr>cm_highest_prepared_seq := seq\<rparr>"

definition AddCommitData :: "request \<Rightarrow> checkpoint_manager \<Rightarrow> checkpoint_manager" where
  "AddCommitData r m =
     (if cf_is_enable_checkpoint (cm_config m)
      then m\<lparr>cm_data_queue := cm_data_queue m @ [r]\<rparr>
      else m\<lparr>cm_txn_db := ChainState_Put r (cm_txn_db m)\<rparr>)"

text \<open>The loop reads the manager's own stable checkpoint; of the argument only the sequence number
  is used. A null verifier is dereferenced when there is a signature.\<close>

definition IsValidCheckpointProof :: "crypto \<Rightarrow> checkpoint_manager \<Rightarrow> stable_checkpoint \<Rightarrow> bool option" where
  "IsValidCheckpointProof C m ckpt =
     (let sigs = sc_signatures (cm_stable_ckpt m);
          senders = (\<lambda>s. word_of_int (sg_node_id s) :: uint32) ` set sigs;
          enough = (GetMinDataReceiveNum (cm_config m) \<le> int (card senders)
                    \<or> sc_seq ckpt = 0 \<and> card senders = 0)
      in case cm_verifier m of
           None \<Rightarrow> if sigs = [] then Some enough else None
         | Some sv \<Rightarrow>
             Some ((\<forall>s \<in> set sigs. VerifyMessage C sv (sc_hash (cm_stable_ckpt m)) s) \<and> enough))"

section \<open>Votes\<close>

definition add_ckpt_vote :: "checkpoint_data \<Rightarrow> uint32 \<Rightarrow> checkpoint_manager \<Rightarrow> checkpoint_manager" where
  "add_ckpt_vote d sender m =
     (let k = (cp_seq d, cp_hash d);
          old = sm_get {} k (cm_sender_ckpt m);
          m1 = m\<lparr>cm_sender_ckpt := sm_put k (insert sender old) (cm_sender_ckpt m)\<rparr>;
          m2 = (if sender \<in> old then m1
                else m1\<lparr>cm_sign_ckpt := sm_put k (sm_get [] k (cm_sign_ckpt m1) @ [cp_hash_signature d])
                                               (cm_sign_ckpt m1),
                        cm_new_data := i32 (cm_new_data m1 + 1)\<rparr>)
      in if card (insert sender old) = 1 \<and> cp_hashs d \<noteq> []
         then m2\<lparr>cm_hash_ckpt := sm_put k (sm_get [] k (cm_hash_ckpt m2) @ cp_hashs d) (cm_hash_ckpt m2)\<rparr>
         else m2)"

definition ProcessCheckPoint ::
  "crypto \<Rightarrow> (string \<Rightarrow> checkpoint_data option) \<Rightarrow> request \<Rightarrow> checkpoint_manager
     \<Rightarrow> (int \<times> checkpoint_manager) option" where
  "ProcessCheckPoint C parse r m =
     (case parse (rq_data r) of
        None \<Rightarrow> Some (-2, m)
      | Some d \<Rightarrow>
          let water_mark = word_of_int (cf_checkpoint_water_mark (cm_config m)) :: uint64
          in if water_mark = 0 then None
             else if cp_seq d mod water_mark \<noteq> 0 then Some (-2, m)
             else if (case cm_verifier m of
                        None \<Rightarrow> False
                      | Some sv \<Rightarrow> \<not> VerifyMessage C sv (cp_hash d) (cp_hash_signature d))
                  then Some (-2, m)
             else Some (0, add_ckpt_vote d (word_of_int (rq_sender_id r)) m))"

section \<open>The checkpoint thread\<close>

definition BroadcastCheckPoint ::
  "crypto \<Rightarrow> (checkpoint_data \<Rightarrow> string) \<Rightarrow> uint64 \<Rightarrow> string \<Rightarrow> checkpoint_manager \<Rightarrow> out_msg list" where
  "BroadcastCheckPoint C ser seq hash m =
     (let sig = (case cm_verifier m of None \<Rightarrow> empty_signature | Some sv \<Rightarrow> SignMessage C sv hash);
          d = \<lparr>cp_seq = seq, cp_hash = hash, cp_hash_signature = sig, cp_hashs = []\<rparr>;
          r = NewRequest TYPE_CHECKPOINT empty_request (rep_id (cf_self_info (cm_config m)))
      in [Broadcast (r\<lparr>rq_data := ser d\<rparr>)])"

definition UpdateCheckPointStatus_step ::
  "crypto \<Rightarrow> (checkpoint_data \<Rightarrow> string) \<Rightarrow> checkpoint_manager \<Rightarrow> checkpoint_manager \<times> out_msg list" where
  "UpdateCheckPointStatus_step C ser m =
     (case cm_data_queue m of
        [] \<Rightarrow> (m, [])
      | r # q \<Rightarrow>
          let m1 = m\<lparr>cm_data_queue := q\<rparr>
          in if rq_seq r \<noteq> cm_last_seq m1 + 1 then (m1, [])
             else let m2 = m1\<lparr>cm_last_hash := GetHash C (cm_last_hash m1) (rq_hash r),
                              cm_last_seq := cm_last_seq m1 + 1,
                              cm_txn_db := ChainState_Put r (cm_txn_db m1)\<rparr>
                  in if rq_seq r = cm_last_ckpt_seq m2 + word_of_int (cf_checkpoint_water_mark (cm_config m2))
                     then (m2\<lparr>cm_last_ckpt_seq := rq_seq r\<rparr>,
                           if rq_is_recovery r then []
                           else BroadcastCheckPoint C ser (rq_seq r) (cm_last_hash m2) m2)
                     else (m2, []))"

section \<open>The stable checkpoint thread\<close>

text \<open>The hash chain over fetched requests, \<open>None\<close> when a request does not have its hash.\<close>

fun chain_requests :: "crypto \<Rightarrow> string \<Rightarrow> request list \<Rightarrow> string option" where
  "chain_requests C h [] = Some h"
| "chain_requests C h (r # rs) =
     (if CalculateHash C (rq_data r) \<noteq> rq_hash r then None
      else chain_requests C (GetHash C h (rq_hash r)) rs)"

text \<open>The loop over the replicas: the first voter whose answer chains to the voted hash is used.\<close>

fun transfer_loop ::
  "crypto \<Rightarrow> fetch_fn \<Rightarrow> uint32 set \<Rightarrow> replica_info list
     \<Rightarrow> checkpoint_manager \<times> 's executor option \<Rightarrow> checkpoint_manager \<times> 's executor option" where
  "transfer_loop C fetch senders [] (m, ex) = (m, ex)"
| "transfer_loop C fetch senders (rep # reps) (m, ex) =
     (if word_of_int (rep_id rep) \<in> senders \<and> cm_last_seq m < cm_committable_seq m
      then case fetch rep (cm_last_seq m + 1) (cm_committable_seq m) of
             None \<Rightarrow> transfer_loop C fetch senders reps (m, ex)
           | Some rs \<Rightarrow>
               if chain_requests C (cm_last_hash m) rs \<noteq> Some (cm_committable_hash m)
               then transfer_loop C fetch senders reps (m, ex)
               else (SetHighestPreparedSeq (cm_committable_seq m)
                       (m\<lparr>cm_last_committable_seq := cm_committable_seq m\<rparr>),
                     map_option (\<lambda>e. fold executor_Commit rs e) ex)
      else transfer_loop C fetch senders reps (m, ex))"

text \<open>The loop over the votes, with the stable sequence number and hash found so far.\<close>

fun stable_scan ::
  "crypto \<Rightarrow> fetch_fn \<Rightarrow> (ckpt_key \<times> uint32 set) list \<Rightarrow> checkpoint_manager \<times> 's executor option
     \<Rightarrow> ckpt_key \<Rightarrow> (checkpoint_manager \<times> 's executor option) \<times> ckpt_key" where
  "stable_scan C fetch [] s found = (s, found)"
| "stable_scan C fetch ((k, senders) # es) (m, ex) found =
     (let s1 = (if GetMinCheckpointReceiveNum (cm_config m) \<le> int (card senders)
                then let m1 = m\<lparr>cm_committable_seq := fst k, cm_committable_hash := snd k,
                                cm_committable_signals := Suc (cm_committable_signals m)\<rparr>
                     in if cm_last_seq m1 < fst k \<and> cm_last_committable_seq m1 < fst k
                        then transfer_loop C fetch senders (cf_replicas (cm_config m1)) (m1, ex)
                        else (m1, ex)
                else (m, ex));
          found1 = (if GetMinDataReceiveNum (cm_config m) \<le> int (card senders) then k else found)
      in stable_scan C fetch es s1 found1)"

text \<open>Erasing the votes up to \<open>seq\<close>; \<open>sign_ckpt_.erase(end())\<close> would be undefined.\<close>

fun erase_votes ::
  "uint64 \<Rightarrow> (ckpt_key, uint32 set) std_map \<Rightarrow> (ckpt_key, signature_info list) std_map
     \<Rightarrow> ((ckpt_key, uint32 set) std_map \<times> (ckpt_key, signature_info list) std_map) option" where
  "erase_votes seq [] sg = Some ([], sg)"
| "erase_votes seq ((k, senders) # es) sg =
     (if fst k \<le> seq
      then (if sm_find k sg = None then None else erase_votes seq es (sm_erase k sg))
      else map_option (\<lambda>(es', sg'). ((k, senders) # es', sg')) (erase_votes seq es sg))"

definition UpdateStableCheckPointStatus_step ::
  "crypto \<Rightarrow> fetch_fn \<Rightarrow> checkpoint_manager \<times> 's executor option
     \<Rightarrow> (checkpoint_manager \<times> 's executor option) option" where
  "UpdateStableCheckPointStatus_step C fetch s =
     (if cm_new_data (fst s) \<le> 0 then Some s
      else let ((m1, ex1), (stable_seq, stable_hash)) = stable_scan C fetch (cm_sender_ckpt (fst s)) s (0, []);
               m2 = m1\<lparr>cm_new_data := 0\<rparr>
           in if cm_current_stable_seq m2 < stable_seq
              then let votes = sm_get [] (stable_seq, stable_hash) (cm_sign_ckpt m2)
                   in case erase_votes stable_seq (cm_sender_ckpt m2) (cm_sign_ckpt m2) of
                        None \<Rightarrow> None
                      | Some (senders, signs) \<Rightarrow>
                          Some (m2\<lparr>cm_sender_ckpt := senders, cm_sign_ckpt := signs,
                                   cm_stable_ckpt := \<lparr>sc_seq = stable_seq, sc_hash = stable_hash,
                                                      sc_signatures = votes\<rparr>,
                                   cm_current_stable_seq := stable_seq\<rparr>, ex1)
              else Some (m2, ex1))"

section \<open>Runs\<close>

text \<open>What a replica does with its checkpoint manager: a CHECKPOINT message arrives, a request has
  been executed, or one of the two threads makes an iteration.\<close>

datatype ckpt_event = CkptMsg request | CkptData request | CkptTick | CkptStable fetch_fn

fun ckpt_step ::
  "crypto \<Rightarrow> (string \<Rightarrow> checkpoint_data option) \<Rightarrow> (checkpoint_data \<Rightarrow> string) \<Rightarrow> ckpt_event
     \<Rightarrow> checkpoint_manager \<times> 's executor option \<Rightarrow> (checkpoint_manager \<times> 's executor option) option" where
  "ckpt_step C parse ser (CkptMsg r) (m, ex) =
     map_option (\<lambda>(ret, m1). (m1, ex)) (ProcessCheckPoint C parse r m)"
| "ckpt_step C parse ser (CkptData r) (m, ex) = Some (AddCommitData r m, ex)"
| "ckpt_step C parse ser CkptTick (m, ex) = Some (fst (UpdateCheckPointStatus_step C ser m), ex)"
| "ckpt_step C parse ser (CkptStable fetch) s = UpdateStableCheckPointStatus_step C fetch s"

fun ckpt_run ::
  "crypto \<Rightarrow> (string \<Rightarrow> checkpoint_data option) \<Rightarrow> (checkpoint_data \<Rightarrow> string)
     \<Rightarrow> checkpoint_manager \<times> 's executor option \<Rightarrow> ckpt_event list
     \<Rightarrow> (checkpoint_manager \<times> 's executor option) option" where
  "ckpt_run C parse ser s [] = Some s"
| "ckpt_run C parse ser s (e # es) = Option.bind (ckpt_step C parse ser e s) (\<lambda>s1. ckpt_run C parse ser s1 es)"

definition ckpt_valid :: "crypto \<Rightarrow> signature_verifier option \<Rightarrow> string \<Rightarrow> signature_info \<Rightarrow> bool" where
  "ckpt_valid C vo hash sig = (case vo of None \<Rightarrow> True | Some sv \<Rightarrow> VerifyMessage C sv hash sig)"

text \<open>The senders of the delivered votes for a key that pass the signature check.\<close>

definition ckpt_voters ::
  "crypto \<Rightarrow> (string \<Rightarrow> checkpoint_data option) \<Rightarrow> signature_verifier option \<Rightarrow> ckpt_event list \<Rightarrow> ckpt_key
     \<Rightarrow> uint32 set" where
  "ckpt_voters C parse vo es k =
     {word_of_int (rq_sender_id r) | r. CkptMsg r \<in> set es \<and>
        (\<exists>d. parse (rq_data r) = Some d \<and> (cp_seq d, cp_hash d) = k
           \<and> ckpt_valid C vo (cp_hash d) (cp_hash_signature d))}"

section \<open>The votes behind a stable checkpoint\<close>

text \<open>What the transfer leaves alone.\<close>

definition ckpt_core where
  "ckpt_core m = (cm_config m, cm_verifier m, cm_sender_ckpt m, cm_sign_ckpt m,
     cm_current_stable_seq m, cm_stable_ckpt m, cm_last_seq m, cm_last_hash m)"

lemma transfer_core: "ckpt_core (fst (transfer_loop C fetch S reps (m, ex))) = ckpt_core m"
  by (induction C fetch S reps "(m, ex)" arbitrary: m ex rule: transfer_loop.induct)
    (auto simp: ckpt_core_def SetHighestPreparedSeq_def split: option.splits)

lemma scan_core: "ckpt_core (fst (fst (stable_scan C fetch es s found))) = ckpt_core (fst s)"
proof (induction es arbitrary: s found)
  case (Cons e es)
  obtain k S m ex where [simp]: "e = (k, S)" "s = (m, ex)" by (metis surj_pair)
  show ?case
    using transfer_core [of C fetch S "cf_replicas (cm_config m)"
        "m\<lparr>cm_committable_seq := fst k, cm_committable_hash := snd k,
           cm_committable_signals := Suc (cm_committable_signals m)\<rparr>" ex]
    by (auto simp: Let_def Cons.IH) (auto simp: ckpt_core_def)
qed simp

lemma scan_found:
  assumes "stable_scan C fetch es s found = (s', k)"
  shows "k = found \<or> (\<exists>S. (k, S) \<in> set es \<and> GetMinDataReceiveNum (cm_config (fst s)) \<le> int (card S))"
  using assms
proof (induction es arbitrary: s found)
  case (Cons e es)
  obtain k1 S m ex where es: "e = (k1, S)" "s = (m, ex)" by (metis surj_pair)
  let ?s1 = "fst (stable_scan C fetch [e] s found)" and ?f1 = "snd (stable_scan C fetch [e] s found)"
  have rest: "stable_scan C fetch es ?s1 ?f1 = (s', k)"
    using Cons.prems by (auto simp: es Let_def)
  have "cm_config (fst ?s1) = cm_config (fst s)"
    using scan_core [of C fetch "[e]" s found] by (simp add: ckpt_core_def)
  with Cons.IH [OF rest] show ?case
    by (auto simp: es Let_def split: if_splits)
qed simp

lemma erase_votes_eq:
  assumes "distinct (map fst es)" "fst ` set es \<subseteq> fst ` set sg"
  shows "erase_votes seq es sg =
    Some (filter (\<lambda>e. seq < fst (fst e)) es, filter (\<lambda>e. \<not> (fst (fst e) \<le> seq \<and> fst e \<in> fst ` set es)) sg)"
  using assms
proof (induction es arbitrary: sg)
  case (Cons e es)
  obtain k S where e: "e = (k, S)" by fastforce
  have sub: "fst ` set es \<subseteq> fst ` set sg" and k: "k \<notin> fst ` set es" "k \<in> fst ` set sg"
    using Cons.prems by (auto simp: e)
  show ?case
  proof (cases "fst k \<le> seq")
    case True
    have "fst ` set es \<subseteq> fst ` set (sm_erase k sg)"
      using sub k(1) by (force simp: sm_erase_def)
    then have "erase_votes seq es (sm_erase k sg) = Some (filter (\<lambda>e. seq < fst (fst e)) es,
        filter (\<lambda>e. \<not> (fst (fst e) \<le> seq \<and> fst e \<in> fst ` set es)) (sm_erase k sg))"
      using Cons by (simp add: e)
    moreover have "filter (\<lambda>e. \<not> (fst (fst e) \<le> seq \<and> fst e \<in> fst ` set es)) (sm_erase k sg) =
        filter (\<lambda>x. \<not> (fst (fst x) \<le> seq \<and> fst x \<in> fst ` set (e # es))) sg"
      unfolding sm_erase_def filter_filter by (rule filter_cong) (use True in \<open>auto simp: e\<close>)
    moreover have "sm_find k sg \<noteq> None" using k(2) by (simp add: sm_find_None_iff)
    ultimately show ?thesis using True by (simp add: e)
  next
    case False
    have "filter (\<lambda>e. \<not> (fst (fst e) \<le> seq \<and> fst e \<in> fst ` set es)) sg =
        filter (\<lambda>x. \<not> (fst (fst x) \<le> seq \<and> fst x \<in> fst ` set (e # es))) sg"
      by (rule filter_cong) (use False in \<open>auto simp: e\<close>)
    then show ?thesis using False Cons.IH [OF _ sub] Cons.prems(1) by (simp add: e)
  qed
qed simp

lemma ckpt_voters_append [simp]:
  "ckpt_voters C parse vo (es @ es') k = ckpt_voters C parse vo es k \<union> ckpt_voters C parse vo es' k"
  by (auto simp: ckpt_voters_def)

lemma ckpt_voters_single:
  assumes "parse (rq_data r) = Some d" "ckpt_valid C vo (cp_hash d) (cp_hash_signature d)"
  shows "word_of_int (rq_sender_id r) \<in> ckpt_voters C parse vo [CkptMsg r] (cp_seq d, cp_hash d)"
  using assms by (auto simp: ckpt_voters_def)

text \<open>The votes kept for a key, and the stable checkpoint, against what has been delivered.\<close>

definition votes_ok where
  "votes_ok C parse vo es m k S \<longleftrightarrow> S \<subseteq> ckpt_voters C parse vo es k
     \<and> length (sm_get [] k (cm_sign_ckpt m)) = card S
     \<and> (\<forall>g \<in> set (sm_get [] k (cm_sign_ckpt m)). ckpt_valid C vo (snd k) g)"

definition stable_ok where
  "stable_ok C parse vo need es st current \<longleftrightarrow> sc_seq st = current \<and>
     (current \<noteq> 0 \<longrightarrow> need \<le> int (card (ckpt_voters C parse vo es (current, sc_hash st)))
        \<and> need \<le> int (length (sc_signatures st)) \<and> (\<forall>g \<in> set (sc_signatures st). ckpt_valid C vo (sc_hash st) g))"

definition ckpt_inv where
  "ckpt_inv C parse vo cfg es m \<longleftrightarrow>
     cm_verifier m = vo \<and> cf_replicas (cm_config m) = cf_replicas cfg
   \<and> cf_checkpoint_water_mark (cm_config m) = cf_checkpoint_water_mark cfg
   \<and> sm_wf (cm_sender_ckpt m) \<and> sm_wf (cm_sign_ckpt m)
   \<and> fst ` set (cm_sender_ckpt m) = fst ` set (cm_sign_ckpt m)
   \<and> (\<forall>(k, S) \<in> set (cm_sender_ckpt m). votes_ok C parse vo es m k S)
   \<and> stable_ok C parse vo (GetMinDataReceiveNum cfg) es (cm_stable_ckpt m) (cm_current_stable_seq m)"

lemma votes_ok_mono: "votes_ok C parse vo es m k S \<Longrightarrow> votes_ok C parse vo (es @ es') m k S"
  by (auto simp: votes_ok_def)

lemma stable_ok_mono:
  assumes "stable_ok C parse vo need es st current"
  shows "stable_ok C parse vo need (es @ es') st current"
proof -
  have "card (ckpt_voters C parse vo es k) \<le> card (ckpt_voters C parse vo (es @ es') k)" for k
    by (intro card_mono) auto
  note le = this [of "(current, sc_hash st)"]
  from assms show ?thesis unfolding stable_ok_def
    by (elim conjE, intro conjI impI) (use le in linarith | blast)+
qed

lemma ckpt_inv_mono: "ckpt_inv C parse vo cfg es m \<Longrightarrow> ckpt_inv C parse vo cfg (es @ es') m"
  by (auto simp: ckpt_inv_def intro: votes_ok_mono stable_ok_mono)

lemma ckpt_inv_core:
  assumes "ckpt_core m' = ckpt_core m"
  shows "ckpt_inv C parse vo cfg es m' = ckpt_inv C parse vo cfg es m"
  using assms by (simp add: ckpt_inv_def ckpt_core_def votes_ok_def)

lemma ckpt_inv_new: "ckpt_inv C parse vo cfg [] (new_checkpoint_manager cfg vo)"
  by (simp add: ckpt_inv_def new_checkpoint_manager_def stable_ok_def empty_stable_checkpoint_def)

lemma min_receive_cong:
  "cf_replicas c = cf_replicas c' \<Longrightarrow> GetMinDataReceiveNum c = GetMinDataReceiveNum c'"
  by (simp add: GetMinDataReceiveNum_def max_faulty_def)

lemma add_ckpt_vote_inv:
  assumes inv: "ckpt_inv C parse vo cfg es m"
    and vote: "sender \<in> ckpt_voters C parse vo es (cp_seq d, cp_hash d)"
      "ckpt_valid C vo (cp_hash d) (cp_hash_signature d)"
  shows "ckpt_inv C parse vo cfg es (add_ckpt_vote d sender m)"
proof -
  let ?k = "(cp_seq d, cp_hash d)" and ?m' = "add_ckpt_vote d sender m"
  let ?old = "sm_get {} ?k (cm_sender_ckpt m)" and ?sg = "sm_get [] ?k (cm_sign_ckpt m)"
  have wf: "sm_wf (cm_sender_ckpt m)" "sm_wf (cm_sign_ckpt m)"
    and dom: "fst ` set (cm_sender_ckpt m) = fst ` set (cm_sign_ckpt m)"
    and votes: "(k, S) \<in> set (cm_sender_ckpt m) \<Longrightarrow> votes_ok C parse vo es m k S" for k S
    using inv by (auto simp: ckpt_inv_def)
  have senders: "cm_sender_ckpt ?m' = sm_put ?k (insert sender ?old) (cm_sender_ckpt m)"
    and signs: "cm_sign_ckpt ?m' = (if sender \<in> ?old then cm_sign_ckpt m
        else sm_put ?k (?sg @ [cp_hash_signature d]) (cm_sign_ckpt m))"
    and rest: "cm_verifier ?m' = cm_verifier m" "cm_config ?m' = cm_config m"
      "cm_stable_ckpt ?m' = cm_stable_ckpt m" "cm_current_stable_seq ?m' = cm_current_stable_seq m"
    by (simp_all add: add_ckpt_vote_def Let_def)
  have old: "?old \<subseteq> ckpt_voters C parse vo es ?k \<and> length ?sg = card ?old \<and> (\<forall>g\<in>set ?sg. ckpt_valid C vo (cp_hash d) g)"
  proof (cases "sm_find ?k (cm_sender_ckpt m)")
    case None
    then have "sm_find ?k (cm_sign_ckpt m) = None" using dom by (simp add: sm_find_None_iff)
    with None show ?thesis by (simp add: sm_get_def)
  next
    case (Some S)
    then show ?thesis using votes [OF sm_find_in_set [OF Some]] by (simp add: votes_ok_def sm_get_def)
  qed
  have wf': "sm_wf (cm_sender_ckpt ?m')" using wf by (simp add: senders)
  have found: "sm_find k (cm_sender_ckpt ?m') = Some S" if "(k, S) \<in> set (cm_sender_ckpt ?m')" for k S
    using sm_find_eq_set [OF wf', of k S] that by simp
  have "votes_ok C parse vo es ?m' k S" if "(k, S) \<in> set (cm_sender_ckpt ?m')" for k S
  proof (cases "k = ?k")
    case True
    have "S = insert sender ?old" using True found [OF that] by (simp add: senders)
    then show ?thesis using True old vote by (auto simp: votes_ok_def signs insert_absorb)
  next
    case False
    then have "(k, S) \<in> set (cm_sender_ckpt m)"
      using found [OF that] sm_find_in_set by (simp add: senders)
    then show ?thesis using votes False by (simp add: votes_ok_def signs)
  qed
  moreover have "fst ` set (cm_sender_ckpt ?m') = fst ` set (cm_sign_ckpt ?m')"
  proof (cases "sender \<in> ?old")
    case True
    then have "sm_find ?k (cm_sender_ckpt m) \<noteq> None" by (auto simp: sm_get_def split: option.splits)
    then have "?k \<in> fst ` set (cm_sender_ckpt m)" unfolding sm_find_None_iff by simp
    then show ?thesis using True dom by (simp add: senders signs insert_absorb)
  qed (simp add: senders signs dom)
  moreover have "sm_wf (cm_sign_ckpt ?m')" using wf by (simp add: signs)
  ultimately show ?thesis using inv wf' by (simp add: ckpt_inv_def rest case_prod_unfold)
qed

lemma ProcessCheckPoint_inv:
  assumes inv: "ckpt_inv C parse vo cfg es m" and "ProcessCheckPoint C parse r m = Some (ret, m')"
  shows "ckpt_inv C parse vo cfg (es @ [CkptMsg r]) m'"
proof -
  have vo: "cm_verifier m = vo" using inv by (simp add: ckpt_inv_def)
  have inv': "ckpt_inv C parse vo cfg (es @ [CkptMsg r]) m" by (rule ckpt_inv_mono [OF inv])
  consider "m' = m"
    | d where "parse (rq_data r) = Some d" "m' = add_ckpt_vote d (word_of_int (rq_sender_id r)) m"
        "ckpt_valid C vo (cp_hash d) (cp_hash_signature d)"
    using assms(2) unfolding ProcessCheckPoint_def Let_def vo ckpt_valid_def
    by (auto split: option.splits if_splits)
  then show ?thesis
  proof cases
    case 1
    then show ?thesis using inv' by simp
  next
    case (2 d)
    then show ?thesis
      using add_ckpt_vote_inv [OF inv' _ 2(3), of "word_of_int (rq_sender_id r)"]
        ckpt_voters_single [of parse r d, OF 2(1,3)] by auto
  qed
qed

lemma make_stable_inv:
  assumes inv: "ckpt_inv C parse vo cfg es m" and key: "(k, S) \<in> set (cm_sender_ckpt m)"
    and need: "GetMinDataReceiveNum cfg \<le> int (card S)"
  obtains senders signs where "erase_votes (fst k) (cm_sender_ckpt m) (cm_sign_ckpt m) = Some (senders, signs)"
    "ckpt_inv C parse vo cfg es (m\<lparr>cm_sender_ckpt := senders, cm_sign_ckpt := signs,
       cm_stable_ckpt := \<lparr>sc_seq = fst k, sc_hash = snd k, sc_signatures = sm_get [] k (cm_sign_ckpt m)\<rparr>,
       cm_current_stable_seq := fst k\<rparr>)"
proof -
  let ?senders = "filter (\<lambda>e. fst k < fst (fst e)) (cm_sender_ckpt m)"
  let ?signs = "filter (\<lambda>e. \<not> (fst (fst e) \<le> fst k \<and> fst e \<in> fst ` set (cm_sender_ckpt m))) (cm_sign_ckpt m)"
  have wf: "sm_wf (cm_sender_ckpt m)" "sm_wf (cm_sign_ckpt m)"
    and dom: "fst ` set (cm_sender_ckpt m) = fst ` set (cm_sign_ckpt m)"
    and votes: "(k, S) \<in> set (cm_sender_ckpt m) \<Longrightarrow> votes_ok C parse vo es m k S" for k S
    using inv by (auto simp: ckpt_inv_def)
  have signs: "?signs = filter (\<lambda>e. fst k < fst (fst e)) (cm_sign_ckpt m)"
    by (rule filter_cong) (auto simp: dom not_le)
  have same: "sm_get [] k' ?signs = sm_get [] k' (cm_sign_ckpt m)" if "fst k < fst k'" for k'
  proof -
    have "sm_find k' (filter (\<lambda>e. fst k < fst (fst e)) xs) = sm_find k' xs"
      for xs :: "(ckpt_key \<times> signature_info list) list"
      using that by (induction xs) auto
    then show ?thesis unfolding signs sm_get_def by simp
  qed
  have er: "erase_votes (fst k) (cm_sender_ckpt m) (cm_sign_ckpt m) = Some (?senders, ?signs)"
    by (rule erase_votes_eq) (simp_all add: wf sm_wf_distinct dom)
  have v: "votes_ok C parse vo es m k S" by (rule votes [OF key])
  have "card S \<le> card (ckpt_voters C parse vo es k)"
    using v by (intro card_mono) (auto simp: votes_ok_def)
  then have st: "stable_ok C parse vo (GetMinDataReceiveNum cfg) es
      \<lparr>sc_seq = fst k, sc_hash = snd k, sc_signatures = sm_get [] k (cm_sign_ckpt m)\<rparr> (fst k)"
    using v need by (simp add: stable_ok_def votes_ok_def)
  show ?thesis
  proof (rule that [OF er])
    have kept: "\<forall>(k', S) \<in> set ?senders. votes_ok C parse vo es (m\<lparr>cm_sender_ckpt := ?senders,
        cm_sign_ckpt := ?signs, cm_stable_ckpt := st, cm_current_stable_seq := fst k\<rparr>) k' S" for st
      using votes same by (auto simp: votes_ok_def)
    have doms: "fst ` set ?senders = fst ` set ?signs"
      unfolding signs using dom by (force simp: image_iff set_eq_iff)
    show "ckpt_inv C parse vo cfg es (m\<lparr>cm_sender_ckpt := ?senders, cm_sign_ckpt := ?signs,
       cm_stable_ckpt := \<lparr>sc_seq = fst k, sc_hash = snd k, sc_signatures = sm_get [] k (cm_sign_ckpt m)\<rparr>,
       cm_current_stable_seq := fst k\<rparr>)"
      using inv kept doms wf st by (simp add: ckpt_inv_def)
  qed
qed

lemma stable_step_inv:
  assumes inv: "ckpt_inv C parse vo cfg es m"
  obtains m' ex' where "UpdateStableCheckPointStatus_step C fetch (m, ex) = Some (m', ex')"
    "ckpt_inv C parse vo cfg es m'" "cm_current_stable_seq m \<le> cm_current_stable_seq m'"
proof (cases "cm_new_data m \<le> 0")
  case True
  then show ?thesis using that [of m ex] inv by (simp add: UpdateStableCheckPointStatus_step_def)
next
  case False
  obtain m1 ex1 k where scan: "stable_scan C fetch (cm_sender_ckpt m) (m, ex) (0, []) = ((m1, ex1), k)"
    by (metis surj_pair)
  let ?m2 = "m1\<lparr>cm_new_data := 0\<rparr>"
  have core: "ckpt_core ?m2 = ckpt_core m"
    using scan_core [of C fetch "cm_sender_ckpt m" "(m, ex)" "(0, [])"] by (simp add: scan ckpt_core_def)
  have inv2: "ckpt_inv C parse vo cfg es ?m2" using inv ckpt_inv_core [OF core] by simp
  have eqs: "cm_current_stable_seq m1 = cm_current_stable_seq m" "cm_sender_ckpt m1 = cm_sender_ckpt m"
    using core by (simp_all add: ckpt_core_def)
  have need: "GetMinDataReceiveNum (cm_config m) = GetMinDataReceiveNum cfg"
    by (rule min_receive_cong) (use inv in \<open>simp add: ckpt_inv_def\<close>)
  show ?thesis
  proof (cases "cm_current_stable_seq m < fst k")
    case True
    then have "k \<noteq> (0, [])" by auto
    then obtain S where S: "(k, S) \<in> set (cm_sender_ckpt ?m2)" "GetMinDataReceiveNum cfg \<le> int (card S)"
      using scan_found [OF scan] need eqs by auto
    obtain senders signs where "erase_votes (fst k) (cm_sender_ckpt ?m2) (cm_sign_ckpt ?m2) = Some (senders, signs)"
      "ckpt_inv C parse vo cfg es (?m2\<lparr>cm_sender_ckpt := senders, cm_sign_ckpt := signs,
         cm_stable_ckpt := \<lparr>sc_seq = fst k, sc_hash = snd k, sc_signatures = sm_get [] k (cm_sign_ckpt ?m2)\<rparr>,
         cm_current_stable_seq := fst k\<rparr>)"
      by (rule make_stable_inv [OF inv2 S])
    then show ?thesis using that False True eqs scan
      by (cases k) (simp add: UpdateStableCheckPointStatus_step_def Let_def)
  next
    case not: False
    then show ?thesis using that [of ?m2 ex1] False eqs scan inv2
      by (cases k) (simp add: UpdateStableCheckPointStatus_step_def Let_def)
  qed
qed

lemma status_step_core:
  "ckpt_inv C parse vo cfg es (fst (UpdateCheckPointStatus_step C' ser m)) = ckpt_inv C parse vo cfg es m"
  by (cases "cm_data_queue m")
    (auto simp: UpdateCheckPointStatus_step_def Let_def ckpt_inv_def votes_ok_def)

lemma ckpt_step_inv:
  assumes inv: "ckpt_inv C parse vo cfg es m"
    and mark: "(word_of_int (cf_checkpoint_water_mark cfg) :: uint64) \<noteq> 0"
  obtains m' ex' where "ckpt_step C parse ser e (m, ex) = Some (m', ex')"
    "ckpt_inv C parse vo cfg (es @ [e]) m'"
proof (cases e)
  case (CkptMsg r)
  have "cf_checkpoint_water_mark (cm_config m) = cf_checkpoint_water_mark cfg" using inv by (simp add: ckpt_inv_def)
  then have "ProcessCheckPoint C parse r m \<noteq> None"
    using mark by (auto simp: ProcessCheckPoint_def Let_def split: option.splits)
  then obtain ret m' where "ProcessCheckPoint C parse r m = Some (ret, m')" by auto
  then show ?thesis using that ProcessCheckPoint_inv [OF inv] CkptMsg by simp
next
  case (CkptData r)
  have "ckpt_inv C parse vo cfg es (AddCommitData r m)"
    using inv by (auto simp: AddCommitData_def ckpt_inv_def votes_ok_def)
  then show ?thesis using that CkptData by (simp add: ckpt_inv_mono)
next
  case CkptTick
  then show ?thesis using that ckpt_inv_mono [OF inv] by (simp add: status_step_core)
next
  case (CkptStable fetch)
  obtain m' ex' where "UpdateStableCheckPointStatus_step C fetch (m, ex) = Some (m', ex')"
    "ckpt_inv C parse vo cfg es m'"
    using stable_step_inv [OF inv] by blast
  then show ?thesis using that CkptStable by (simp add: ckpt_inv_mono)
qed

lemma ckpt_run_inv:
  assumes "ckpt_inv C parse vo cfg es0 m" "(word_of_int (cf_checkpoint_water_mark cfg) :: uint64) \<noteq> 0"
  shows "\<exists>m' ex'. ckpt_run C parse ser (m, ex) es = Some (m', ex') \<and> ckpt_inv C parse vo cfg (es0 @ es) m'"
  using assms(1)
proof (induction es arbitrary: es0 m ex)
  case (Cons e es)
  obtain m1 ex1 where "ckpt_step C parse ser e (m, ex) = Some (m1, ex1)" "ckpt_inv C parse vo cfg (es0 @ [e]) m1"
    by (rule ckpt_step_inv [OF Cons.prems assms(2)])
  then show ?case using Cons.IH [of "es0 @ [e]" m1 ex1] by simp
qed simp

section \<open>What a transfer hands to the executor\<close>

lemma fold_commit_queue: "te_commit_queue (fold executor_Commit rs e) = te_commit_queue e @ rs"
  by (induction rs arbitrary: e) (auto simp: executor_Commit_def)

lemma transfer_batch:
  assumes "transfer_loop C fetch S reps (m, Some e) = (m', ex')"
  shows "\<exists>rs e'. ex' = Some e' \<and> te_commit_queue e' = te_commit_queue e @ rs
    \<and> (rs = [] \<or> chain_requests C (cm_last_hash m) rs = Some (cm_committable_hash m))"
  using assms
  by (induction C fetch S reps "(m, Some e)" arbitrary: m e rule: transfer_loop.induct)
    (auto simp: fold_commit_queue split: if_splits option.splits)

definition transferable :: "checkpoint_manager \<Rightarrow> string \<Rightarrow> bool" where
  "transferable m h \<longleftrightarrow> (\<exists>seq S. ((seq, h), S) \<in> set (cm_sender_ckpt m)
      \<and> GetMinCheckpointReceiveNum (cm_config m) \<le> int (card S))"

lemma scan_batches:
  assumes "stable_scan C fetch es (m, Some e) found = ((m', ex'), k)" "set es \<subseteq> set (cm_sender_ckpt m)"
  shows "\<exists>batches e'. ex' = Some e' \<and> te_commit_queue e' = te_commit_queue e @ concat batches
    \<and> (\<forall>rs \<in> set batches. \<exists>h. transferable m h \<and> chain_requests C (cm_last_hash m) rs = Some h)"
  using assms
proof (induction es arbitrary: m e found)
  case Nil
  then show ?case by (auto intro!: exI [of _ "[]"])
next
  case (Cons v es)
  obtain k1 S where v: "v = (k1, S)" by fastforce
  obtain m1 ex1 f1 where one: "stable_scan C fetch [v] (m, Some e) found = ((m1, ex1), f1)" by (metis surj_pair)
  have core: "ckpt_core m1 = ckpt_core m" using scan_core [of C fetch "[v]" "(m, Some e)" found] one by simp
  have rest: "stable_scan C fetch es (m1, ex1) f1 = ((m', ex'), k)"
    using one Cons.prems(1) by (simp add: v Let_def)
  let ?m0 = "m\<lparr>cm_committable_seq := fst k1, cm_committable_hash := snd k1,
     cm_committable_signals := Suc (cm_committable_signals m)\<rparr>"
  have "\<exists>rs e1. ex1 = Some e1 \<and> te_commit_queue e1 = te_commit_queue e @ rs
      \<and> (rs = [] \<or> transferable m (snd k1) \<and> chain_requests C (cm_last_hash m) rs = Some (snd k1))"
  proof (cases "GetMinCheckpointReceiveNum (cm_config m) \<le> int (card S)
      \<and> cm_last_seq m < fst k1 \<and> cm_last_committable_seq m < fst k1")
    case True
    then have "transfer_loop C fetch S (cf_replicas (cm_config m)) (?m0, Some e) = (m1, ex1)"
      using one by (simp add: v Let_def)
    moreover have "transferable m (snd k1)"
      using True Cons.prems(2) v by (cases k1) (auto simp: transferable_def)
    ultimately show ?thesis using transfer_batch by fastforce
  next
    case False
    then show ?thesis using one by (auto simp: v Let_def split: if_splits)
  qed
  then obtain rs e1 where b: "ex1 = Some e1" "te_commit_queue e1 = te_commit_queue e @ rs"
    "rs = [] \<or> transferable m (snd k1) \<and> chain_requests C (cm_last_hash m) rs = Some (snd k1)" by blast
  have eqs: "cm_sender_ckpt m1 = cm_sender_ckpt m" "cm_last_hash m1 = cm_last_hash m"
    "transferable m1 = transferable m"
    using core by (auto simp: ckpt_core_def transferable_def fun_eq_iff)
  obtain batches e' where "ex' = Some e'" "te_commit_queue e' = te_commit_queue e1 @ concat batches"
    "\<forall>rs \<in> set batches. \<exists>h. transferable m h \<and> chain_requests C (cm_last_hash m) rs = Some h"
    using Cons.IH [OF rest [unfolded b(1)]] Cons.prems(2) eqs by auto
  then show ?case using b(2,3)
    by (intro exI [of _ "if rs = [] then batches else rs # batches"] exI [of _ e']) auto
qed

section \<open>The hash chain\<close>

text \<open>The strings that are hashed while a list of requests is chained.\<close>

fun hash_inputs :: "crypto \<Rightarrow> string \<Rightarrow> request list \<Rightarrow> string set" where
  "hash_inputs C h [] = {}"
| "hash_inputs C h (r # rs) = {rq_data r, h @ rq_hash r} \<union> hash_inputs C (GetHash C h (rq_hash r)) rs"

lemma chain_snoc:
  "chain_requests C h (rs @ [r]) = Some x \<longleftrightarrow>
     (\<exists>y. chain_requests C h rs = Some y \<and> CalculateHash C (rq_data r) = rq_hash r \<and> x = GetHash C y (rq_hash r))"
  by (induction rs arbitrary: h) auto

lemma chain_append:
  "chain_requests C h (rs @ rs') = Option.bind (chain_requests C h rs) (\<lambda>y. chain_requests C y rs')"
  by (induction rs arbitrary: h) auto

lemma hash_inputs_snoc:
  "chain_requests C h rs = Some y \<Longrightarrow> hash_inputs C h (rs @ [r]) = hash_inputs C h rs \<union> {rq_data r, y @ rq_hash r}"
  by (induction rs arbitrary: h) (auto split: if_splits)

lemma chain_inj:
  assumes len: "\<And>x. length (CalculateHash C x) = n" "0 < n"
    and "chain_requests C [] rs = Some x" "chain_requests C [] rs' = Some x"
    and "inj_on (CalculateHash C) (hash_inputs C [] rs \<union> hash_inputs C [] rs')"
  shows "map rq_data rs = map rq_data rs'"
  using assms(3-5)
proof (induction rs arbitrary: rs' x rule: rev_induct)
  case Nil
  then show ?case
  proof (cases rs' rule: rev_cases)
    case (snoc rs1 r)
    then show ?thesis using Nil len by (auto simp: chain_snoc GetHash_def) (metis less_irrefl list.size(3))
  qed simp
next
  case (snoc r rs)
  obtain y where y: "chain_requests C [] rs = Some y" "CalculateHash C (rq_data r) = rq_hash r" "x = GetHash C y (rq_hash r)"
    using snoc.prems(1) by (auto simp: chain_snoc)
  obtain rs1 r1 where rs': "rs' = rs1 @ [r1]"
    using snoc.prems(2) y(3) len by (cases rs' rule: rev_cases) (auto simp: GetHash_def, metis less_irrefl list.size(3))
  obtain z where z: "chain_requests C [] rs1 = Some z" "CalculateHash C (rq_data r1) = rq_hash r1" "x = GetHash C z (rq_hash r1)"
    using snoc.prems(2) by (auto simp: rs' chain_snoc)
  have inj: "inj_on (CalculateHash C) (hash_inputs C [] rs \<union> {rq_data r, y @ rq_hash r}
      \<union> (hash_inputs C [] rs1 \<union> {rq_data r1, z @ rq_hash r1}))"
    using snoc.prems(3) by (simp add: rs' hash_inputs_snoc [OF y(1)] hash_inputs_snoc [OF z(1)])
  have "y @ rq_hash r = z @ rq_hash r1"
    by (rule inj_onD [OF inj]) (use y(3) z(3) in \<open>auto simp: GetHash_def\<close>)
  moreover have "length (rq_hash r) = length (rq_hash r1)" using y(2) z(2) len(1) by metis
  ultimately have "y = z" "rq_hash r = rq_hash r1" by auto
  moreover have "rq_data r = rq_data r1"
    by (rule inj_onD [OF inj]) (use y(2) z(2) \<open>rq_hash r = rq_hash r1\<close> in auto)
  moreover have "map rq_data rs = map rq_data rs1"
    by (rule snoc.IH [OF y(1)]) (use z(1) \<open>y = z\<close> inj in \<open>auto intro: inj_on_subset\<close>)
  ultimately show ?case by (simp add: rs')
qed

section \<open>Properties\<close>

text \<open>C9: whatever messages, executed requests, answers of other replicas and thread iterations a
  checkpoint manager sees, it never runs into undefined behaviour, and the stable checkpoint it
  announces is the current one and is backed by \<open>2 f + 1\<close> different replicas that voted for its
  sequence number and hash, with as many valid signatures over the hash.\<close>

theorem stable_checkpoint_certified:
  assumes "(word_of_int (cf_checkpoint_water_mark cfg) :: uint64) \<noteq> 0"
  shows "\<exists>m ex'. ckpt_run C parse ser (new_checkpoint_manager cfg vo, ex) es = Some (m, ex')
    \<and> sc_seq (GetStableCheckpointWithVotes m) = GetStableCheckpoint m
    \<and> (GetStableCheckpoint m = 0 \<or>
        GetMinDataReceiveNum cfg
          \<le> int (card (ckpt_voters C parse vo es (GetStableCheckpoint m, sc_hash (GetStableCheckpointWithVotes m))))
      \<and> GetMinDataReceiveNum cfg \<le> int (length (sc_signatures (GetStableCheckpointWithVotes m)))
      \<and> (\<forall>g \<in> set (sc_signatures (GetStableCheckpointWithVotes m)).
           ckpt_valid C vo (sc_hash (GetStableCheckpointWithVotes m)) g))"
proof -
  obtain m ex' where "ckpt_run C parse ser (new_checkpoint_manager cfg vo, ex) es = Some (m, ex')"
    "ckpt_inv C parse vo cfg ([] @ es) m"
    using ckpt_run_inv [OF ckpt_inv_new assms] by blast
  then show ?thesis
    by (auto simp: ckpt_inv_def stable_ok_def GetStableCheckpoint_def GetStableCheckpointWithVotes_def)
qed

definition demo_ckpt_msg :: "int \<Rightarrow> ckpt_event" where
  "demo_ckpt_msg i = CkptMsg (empty_request\<lparr>rq_type := TYPE_CHECKPOINT, rq_sender_id := i, rq_data := ''v''\<rparr>)"

definition demo_ckpt_parse :: "string \<Rightarrow> checkpoint_data option" where
  "demo_ckpt_parse d = (if d = ''v'' then Some \<lparr>cp_seq = 5, cp_hash = ''h'',
     cp_hash_signature = empty_signature, cp_hashs = []\<rparr> else None)"

theorem stable_checkpoint_certified_witness:
  "\<exists>m (ex' :: unit executor option).
     ckpt_run demo_crypto demo_ckpt_parse (\<lambda>_. []) (new_checkpoint_manager (demo_config [1, 2, 3, 4]) None, None)
       [demo_ckpt_msg 1, demo_ckpt_msg 2, demo_ckpt_msg 3, CkptStable (\<lambda>_ _ _. None)] = Some (m, ex')
   \<and> sc_seq (GetStableCheckpointWithVotes m) = GetStableCheckpoint m"
  using stable_checkpoint_certified [of "demo_config [1, 2, 3, 4]" demo_crypto demo_ckpt_parse "\<lambda>_. []" None
      "None :: unit executor option"
      "[demo_ckpt_msg 1, demo_ckpt_msg 2, demo_ckpt_msg 3, CkptStable (\<lambda>_ _ _. None)]"]
  by (auto simp: demo_config_def)


text \<open>A digest of one byte, a replica that has executed nothing, and a checkpoint voted by two of four.\<close>

definition demo_digest :: crypto where
  "demo_digest = demo_crypto\<lparr>cr_sha256 := (\<lambda>x. take 1 (x @ ''0''))\<rparr>"

definition demo_behind :: "string \<Rightarrow> checkpoint_manager" where
  "demo_behind h = (new_checkpoint_manager (demo_config [1, 2, 3, 4]) None)
     \<lparr>cm_sender_ckpt := [((5, h), {1, 2})], cm_new_data := 1\<rparr>"

definition demo_entry :: "uint64 \<Rightarrow> string \<Rightarrow> request" where
  "demo_entry seq d = empty_request\<lparr>rq_seq := seq, rq_data := d, rq_hash := d\<rparr>"

lemma demo_receive_nums:
  "GetMinCheckpointReceiveNum (demo_config [1, 2, 3, 4]) = 2"
  "GetMinDataReceiveNum (demo_config [1, 2, 3, 4]\<lparr>cf_is_enable_checkpoint := True\<rparr>) = 3"
  "GetMinCheckpointReceiveNum (demo_config [1, 2, 3, 4]\<lparr>cf_is_enable_checkpoint := True\<rparr>) = 2"
  by (simp_all add: GetMinDataReceiveNum_def GetMinCheckpointReceiveNum_def max_faulty_eq demo_config_def)

lemmas demo_behind_simps = demo_behind_def new_checkpoint_manager_def UpdateStableCheckPointStatus_step_def
  Let_def demo_receive_nums SetHighestPreparedSeq_def

lemma demo_cfg: "cd_enable_viewchange (cf_config_data (demo_config ids))"
  "cf_replicas (demo_config [1, 2, 3, 4]) =
     map (\<lambda>i. \<lparr>rep_id = i, rep_ip = ''ip'', rep_port = 1\<rparr>) [1, 2, 3, 4]"
  by (simp_all add: demo_config_def)

lemma concat_single: "concat bs = [a] \<Longrightarrow> rs \<in> set bs \<Longrightarrow> rs = [] \<or> rs = [a]"
  by (induction bs) (auto simp: append_eq_Cons_conv)

lemma demo_transfer:
  "\<exists>m' e'. UpdateStableCheckPointStatus_step demo_digest (\<lambda>_ _ _. Some [demo_entry 1 ''a''])
       (demo_behind ''a'', Some (new_executor None () :: unit executor)) = Some (m', Some e')
     \<and> te_commit_queue e' = [demo_entry 1 ''a'']"
  by (simp add: demo_behind_simps demo_cfg demo_digest_def demo_entry_def CalculateHash_def GetHash_def
      executor_Commit_def is_out_of_order_def new_executor_def)


text \<open>The chain does not cover sequence numbers. Two of four replicas vote for the chain value of
  a ledger with \<open>a\<close> at 1 and \<open>b\<close> at 2; an answer that carries the same requests with exchanged
  sequence numbers passes the check and is handed to the executor as it is.\<close>

theorem transfer_ignores_sequence_numbers:
  "chain_requests demo_crypto [] [demo_entry 1 ''a'', demo_entry 2 ''b''] = Some ''ab''
   \<and> (\<exists>m' e'. UpdateStableCheckPointStatus_step demo_crypto
          (\<lambda>_ _ _. Some [demo_entry 2 ''a'', demo_entry 1 ''b''])
          (demo_behind ''ab'', Some (new_executor None () :: unit executor)) = Some (m', Some e')
        \<and> te_commit_queue e' = [demo_entry 2 ''a'', demo_entry 1 ''b''])"
  by (simp add: demo_behind_simps demo_cfg demo_crypto_def demo_entry_def CalculateHash_def GetHash_def
      executor_Commit_def is_out_of_order_def new_executor_def)

end
