(* ===== verification/System_Info.thy ===== *)
theory System_Info
  imports Config
begin

text \<open>
  \<open>SystemInfo\<close> (platform/consensus/execution/system_info.cpp): the current view, its primary and
  the replica list. The codec of \<open>NewReplicaRequest\<close> is an argument.
\<close>

record system_info =
  si_primary_id :: uint32
  si_view :: uint64
  si_replicas :: "replica_info list"

text \<open>The constructor reads the first replica, which is undefined for an empty list.\<close>

definition new_system_info :: "resdb_config \<Rightarrow> system_info option" where
  "new_system_info cfg =
     (case cf_replicas cfg of
        [] \<Rightarrow> None
      | r # _ \<Rightarrow> Some \<lparr>si_primary_id = word_of_int (rep_id r), si_view = 1, si_replicas = cf_replicas cfg\<rparr>)"

definition GetPrimaryId :: "system_info \<Rightarrow> uint32" where
  "GetPrimaryId s = si_primary_id s"

definition SetPrimary :: "uint32 \<Rightarrow> system_info \<Rightarrow> system_info" where
  "SetPrimary i s = s\<lparr>si_primary_id := i\<rparr>"

definition GetCurrentView :: "system_info \<Rightarrow> uint64" where
  "GetCurrentView s = si_view s"

definition SetCurrentView :: "uint64 \<Rightarrow> system_info \<Rightarrow> system_info" where
  "SetCurrentView v s = s\<lparr>si_view := v\<rparr>"

definition GetReplicas :: "system_info \<Rightarrow> replica_info list" where
  "GetReplicas s = si_replicas s"

definition SetReplicas :: "replica_info list \<Rightarrow> system_info \<Rightarrow> system_info" where
  "SetReplicas rs s = s\<lparr>si_replicas := rs\<rparr>"

definition AddReplica :: "replica_info \<Rightarrow> system_info \<Rightarrow> system_info" where
  "AddReplica r s =
     (if rep_id r = 0 \<or> rep_ip r = [] \<or> rep_port r = 0 then s
      else if \<exists>c \<in> set (si_replicas s). rep_id c = rep_id r then s
      else s\<lparr>si_replicas := si_replicas s @ [r]\<rparr>)"

datatype system_info_request = SI_NONE | ADD_REPLICA string

definition SystemInfo_ProcessRequest ::
  "(string \<Rightarrow> replica_info option) \<Rightarrow> system_info_request \<Rightarrow> system_info \<Rightarrow> system_info" where
  "SystemInfo_ProcessRequest parse req s =
     (case req of
        SI_NONE \<Rightarrow> s
      | ADD_REPLICA d \<Rightarrow> (case parse d of None \<Rightarrow> s | Some r \<Rightarrow> AddReplica r s))"

lemma AddReplica_distinct [resdb_inv]:
  "distinct (map rep_id (si_replicas s)) \<Longrightarrow> distinct (map rep_id (si_replicas (AddReplica r s)))"
  by (auto simp: AddReplica_def)

end
