(* ===== verification/Message_Manager.thy ===== *)
theory Message_Manager
  imports Vote_Certificates Collector_Pool Checkpoint System_Info
begin

text \<open>
  \<open>MessageManager\<close> (platform/consensus/ordering/pbft/message_manager.cpp): the sequence numbers of
  the primary, the validity of a message, the status machine of a sequence number
  (\<open>MayConsensusChangeStatus\<close>), and the hand-over from the collectors to the executor and from the
  executor to the checkpoint manager and the response queue.

  The objects the class points to (the checkpoint manager, the system information) are fields of
  its state: the manager is the one place where the model keeps them. The time is an argument.
\<close>

section \<open>State\<close>

datatype CollectorResultCode = RC_INVALID | RC_OK | RC_STATE_CHANGED

fun rc_val :: "CollectorResultCode \<Rightarrow> int" where
  "rc_val RC_INVALID = -2"
| "rc_val RC_OK = 0"
| "rc_val RC_STATE_CHANGED = 1"

record request_with_proof =
  rw_request :: request
  rw_proofs :: "(request \<times> signature_info) list"
  rw_seq :: uint64

record 's message_manager =
  mm_config :: resdb_config
  mm_next_seq :: uint64
  mm_queue :: "batch_user_response list"
  mm_system_info :: system_info
  mm_checkpoint :: checkpoint_manager
  mm_committed_proof :: "(uint64, request_info list) std_map"
  mm_committed_data :: "(uint64, request) std_map"
  mm_executor :: "'s executor"
  mm_pool :: collector_pool
  mm_last_committed_time :: "(uint64, uint64) std_map"

definition new_message_manager ::
  "resdb_config \<Rightarrow> 's txn_manager option \<Rightarrow> 's \<Rightarrow> checkpoint_manager \<Rightarrow> system_info \<Rightarrow> 's message_manager option" where
  "new_message_manager cfg tm db ckpt si =
     (case new_pool (GetMaxProcessTxn cfg) True (cd_enable_viewchange (cf_config_data cfg)) of
        None \<Rightarrow> None
      | Some pool \<Rightarrow>
          Some \<lparr>mm_config = cfg, mm_next_seq = 1, mm_queue = [], mm_system_info = si, mm_checkpoint = ckpt,
                mm_committed_proof = [], mm_committed_data = [], mm_executor = new_executor tm db,
                mm_pool = pool, mm_last_committed_time = []\<rparr>)"

definition GetCurrentPrimary :: "'s message_manager \<Rightarrow> int" where
  "GetCurrentPrimary m = uint (GetPrimaryId (mm_system_info m))"

definition mm_view :: "'s message_manager \<Rightarrow> uint64" where
  "mm_view m = GetCurrentView (mm_system_info m)"

text \<open>The function given to the executor to be called after each execution.\<close>

definition post_execute ::
  "request \<times> batch_user_response \<Rightarrow> 's message_manager \<Rightarrow> 's message_manager" where
  "post_execute x m =
     (let (r, resp) = x; m1 = m\<lparr>mm_checkpoint := AddCommitData r (mm_checkpoint m)\<rparr>
      in if rq_is_recovery r then m1
         else let resp1 = resp\<lparr>rs_proxy_id := i32 (rq_proxy_id r), rs_seq := rq_seq r,
                               rs_current_view := rq_current_view r,
                               rs_primary_id := GetCurrentPrimary m\<rparr>
              in if NeedResponse (mm_executor m) \<and> rs_proxy_id resp1 \<noteq> 0
                 then m1\<lparr>mm_queue := mm_queue m1 @ [resp1]\<rparr> else m1)"

text \<open>The function the executor calls when its next sequence number has moved to \<open>seq\<close>.\<close>

definition seq_update_notify :: "uint64 \<Rightarrow> 's message_manager \<Rightarrow> 's message_manager option" where
  "seq_update_notify seq m =
     map_option (\<lambda>p. m\<lparr>mm_pool := p\<rparr>) (pool_Update (seq - 1) (mm_pool m))"

definition GetResponseMsg :: "'s message_manager \<Rightarrow> batch_user_response option \<times> 's message_manager" where
  "GetResponseMsg m = (case mm_queue m of [] \<Rightarrow> (None, m) | r # q \<Rightarrow> (Some r, m\<lparr>mm_queue := q\<rparr>))"

section \<open>Sequence numbers\<close>

definition SetNextSeq :: "uint64 \<Rightarrow> 's message_manager \<Rightarrow> 's message_manager" where
  "SetNextSeq seq m = m\<lparr>mm_next_seq := seq\<rparr>"

text \<open>\<open>int64_t GetNextSeq()\<close> reads the \<open>uint64_t\<close> counter as a signed number.\<close>

definition GetNextSeq :: "'s message_manager \<Rightarrow> int" where
  "GetNextSeq m = sint (mm_next_seq m)"

text \<open>\<open>uint32_t max_executed_seq\<close> narrows the executor's 64-bit counter.\<close>

definition AssignNextSeq :: "'s message_manager \<Rightarrow> uint64 option \<times> 's message_manager" where
  "AssignNextSeq m =
     (let max_executed_seq = ucast (GetMaxPendingExecutedSeq (mm_executor m)) :: uint32
      in if mm_next_seq m - ucast max_executed_seq > ucast (GetMaxProcessTxn (mm_config m))
         then (None, m)
         else (Some (mm_next_seq m), m\<lparr>mm_next_seq := mm_next_seq m + 1\<rparr>))"

section \<open>Messages\<close>

definition IsValidMsg :: "request \<Rightarrow> 's message_manager \<Rightarrow> bool" where
  "IsValidMsg r m =
     (if rq_type r = TYPE_RESPONSE then True
      else if rq_current_view r \<noteq> mm_view m then False
      else if rq_seq r < GetMaxPendingExecutedSeq (mm_executor m) then False
      else True)"

definition MayConsensusChangeStatus ::
  "resdb_config \<Rightarrow> request_type \<Rightarrow> int \<Rightarrow> TransactionStatue \<Rightarrow> bool \<Rightarrow> TransactionStatue \<times> bool" where
  "MayConsensusChangeStatus cfg t count status ret =
     (case t of
        TYPE_PRE_PREPARE \<Rightarrow>
          if status = STATUE_None then (READY_PREPARE, True) else (status, ret)
      | TYPE_PREPARE \<Rightarrow>
          if status = READY_PREPARE \<and> GetMinDataReceiveNum cfg \<le> count
          then (READY_COMMIT, True) else (status, ret)
      | TYPE_COMMIT \<Rightarrow>
          if status = READY_COMMIT \<and> GetMinDataReceiveNum cfg \<le> count
          then (READY_EXECUTE, True) else (status, ret)
      | _ \<Rightarrow> (status, ret))"

text \<open>The callback \<open>AddConsensusMsg\<close> gives to the collector.\<close>

definition consensus_cb :: "resdb_config \<Rightarrow> bool callback" where
  "consensus_cb cfg r count status force =
     MayConsensusChangeStatus cfg (rq_type r) (int count) status force"

definition SetLastCommittedTime :: "uint64 \<Rightarrow> uint64 \<Rightarrow> 's message_manager \<Rightarrow> 's message_manager" where
  "SetLastCommittedTime proxy_id now m =
     m\<lparr>mm_last_committed_time := sm_put proxy_id now (mm_last_committed_time m)\<rparr>"

definition GetLastCommittedTime :: "uint64 \<Rightarrow> 's message_manager \<Rightarrow> uint64 \<times> 's message_manager" where
  "GetLastCommittedTime proxy_id m =
     (let v = sm_get 0 proxy_id (mm_last_committed_time m)
      in (v, m\<lparr>mm_last_committed_time := sm_put proxy_id v (mm_last_committed_time m)\<rparr>))"

text \<open>\<open>pos\<close> is the rank of a stored proposal among the addresses, as in the collector.\<close>

definition AddConsensusMsg ::
  "nat \<Rightarrow> uint64 \<Rightarrow> signature_info \<Rightarrow> request option \<Rightarrow> 's message_manager
     \<Rightarrow> (CollectorResultCode \<times> 's message_manager) option" where
  "AddConsensusMsg pos now sig ro m =
     (case ro of
        None \<Rightarrow> Some (RC_INVALID, m)
      | Some r \<Rightarrow>
          if \<not> IsValidMsg r m then Some (RC_INVALID, m)
          else case GetCollector (rq_seq r) (mm_pool m) of
                 None \<Rightarrow> None
               | Some c \<Rightarrow>
                   (case AddRequest pos (consensus_cb (mm_config m)) (Some r) sig
                           (rq_type r = TYPE_PRE_PREPARE) c of
                      None \<Rightarrow> None
                    | Some (ret, c', res, out) \<Rightarrow>
                        let m1 = m\<lparr>mm_pool := SetCollector (rq_seq r) c' (mm_pool m),
                                   mm_executor := fold executor_Commit (opt_list out) (mm_executor m)\<rparr>;
                            m2 = (if ret = 1 then SetLastCommittedTime (of_int (i32 (rq_proxy_id r))) now m1 else m1)
                        in if ret \<noteq> 1 \<and> ret \<noteq> 0 then Some (RC_INVALID, m2)
                           else if res = Some True then Some (RC_STATE_CHANGED, m2)
                           else Some (RC_OK, m2)))"

section \<open>Reading\<close>

text \<open>The loop \<open>for (i = min_seq; i <= max_seq; ++i)\<close>; for the greatest \<open>uint64_t\<close> as the bound the
  condition always holds and the call does not return.\<close>

definition request_set_entry :: "'s message_manager \<Rightarrow> uint64 \<Rightarrow> request_with_proof option" where
  "request_set_entry m i =
     map_option (\<lambda>r. \<lparr>rw_request = r,
         rw_proofs = map (\<lambda>p. (the (ri_request p), ri_signature p)) (sm_get [] i (mm_committed_proof m)),
         rw_seq = i\<rparr>)
       (sm_find i (mm_committed_data m))"

definition GetRequestSet :: "uint64 \<Rightarrow> uint64 \<Rightarrow> 's message_manager \<Rightarrow> request_with_proof list option" where
  "GetRequestSet min_seq max_seq m =
     (if max_seq = - 1 then None
      else Some (List.map_filter (\<lambda>i. request_set_entry m (of_nat i)) [unat min_seq ..< Suc (unat max_seq)]))"

definition GetRequest :: "uint64 \<Rightarrow> 's message_manager \<Rightarrow> request option" where
  "GetRequest seq m = ChainState_Get seq (cm_txn_db (mm_checkpoint m))"

definition mm_GetPreparedProof :: "uint64 \<Rightarrow> 's message_manager \<Rightarrow> request_info list option" where
  "mm_GetPreparedProof seq m = map_option GetPreparedProof (GetCollector seq (mm_pool m))"

definition GetTransactionState :: "uint64 \<Rightarrow> 's message_manager \<Rightarrow> TransactionStatue option" where
  "GetTransactionState seq m = map_option co_status (GetCollector seq (mm_pool m))"

definition IsPreapared :: "uint64 \<Rightarrow> 's message_manager \<Rightarrow> bool option" where
  "IsPreapared seq m = map_option co_is_prepared (GetCollector seq (mm_pool m))"

definition mm_GetHighestPreparedSeq :: "'s message_manager \<Rightarrow> uint64" where
  "mm_GetHighestPreparedSeq m = GetHighestPreparedSeq (mm_checkpoint m)"

definition mm_SetHighestPreparedSeq :: "uint64 \<Rightarrow> 's message_manager \<Rightarrow> 's message_manager" where
  "mm_SetHighestPreparedSeq seq m = m\<lparr>mm_checkpoint := SetHighestPreparedSeq seq (mm_checkpoint m)\<rparr>"

definition mm_SetDuplicateManager :: "duplicate_manager \<Rightarrow> 's message_manager \<Rightarrow> 's message_manager" where
  "mm_SetDuplicateManager d m = m\<lparr>mm_executor := SetDuplicateManager d (mm_executor m)\<rparr>"

definition SendResponse :: "uint64 \<Rightarrow> request \<Rightarrow> 's message_manager \<Rightarrow> 's message_manager" where
  "SendResponse now r m =
     (let resp = empty_response\<lparr>rs_createtime := now, rs_hash := rq_hash r, rs_proxy_id := i32 (rq_proxy_id r),
                   rs_seq := rq_seq r, rs_current_view := mm_view m, rs_primary_id := GetCurrentPrimary m\<rparr>
      in if NeedResponse (mm_executor m) \<and> rs_proxy_id resp \<noteq> 0
         then m\<lparr>mm_queue := mm_queue m @ [resp]\<rparr> else m)"

section \<open>The contract of the collector's callback\<close>

lemma consensus_cb_sound:
  assumes "consensus_cb cfg r n st force = (st', x)" "st' \<noteq> st"
  shows "vote_step (nat (GetMinDataReceiveNum cfg)) (rq_type r) n st st'"
  using assms
  by (auto simp: consensus_cb_def MayConsensusChangeStatus_def vote_step_iff split: request_type.splits if_splits)

lemma consensus_cb_complete:
  "vote_step (nat (GetMinDataReceiveNum cfg)) (rq_type r) n st st' \<Longrightarrow> fst (consensus_cb cfg r n st force) = st'"
  by (auto simp: consensus_cb_def MayConsensusChangeStatus_def vote_step_iff)

lemma consensus_cb_reports: "consensus_cb cfg r n st force = (st', x) \<Longrightarrow> x \<longleftrightarrow> st' \<noteq> st \<or> force"
  by (auto simp: consensus_cb_def MayConsensusChangeStatus_def split: request_type.splits if_splits)

interpretation pbft_votes: ordering_callback consensus_cb "\<lambda>cfg. nat (GetMinDataReceiveNum cfg)"
  using consensus_cb_sound consensus_cb_complete consensus_cb_reports by unfold_locales blast+

section \<open>Runs of the message manager\<close>

text \<open>Consensus messages arrive and the executor reports progress; the executor's own threads take
  requests off the commit queue elsewhere, so here the queue shows everything handed over.\<close>

datatype mm_event = MmMsg nat uint64 signature_info "request option" | MmUpdate uint64

fun mm_step :: "mm_event \<Rightarrow> 's message_manager \<Rightarrow> 's message_manager option" where
  "mm_step (MmMsg pos now sig ro) m = map_option snd (AddConsensusMsg pos now sig ro m)"
| "mm_step (MmUpdate seq) m = seq_update_notify seq m"

fun mm_run :: "'s message_manager \<Rightarrow> mm_event list \<Rightarrow> 's message_manager option" where
  "mm_run m [] = Some m"
| "mm_run m (e # es) = Option.bind (mm_step e m) (\<lambda>m1. mm_run m1 es)"

definition delivered :: "mm_event list \<Rightarrow> request set" where
  "delivered es = {r. \<exists>pos now sig. MmMsg pos now sig (Some r) \<in> set es}"

definition senders_of :: "request_type \<Rightarrow> string \<Rightarrow> uint64 \<Rightarrow> mm_event list \<Rightarrow> int set" where
  "senders_of t h seq es = rq_sender_id ` {r \<in> delivered es. rq_type r = t \<and> rq_hash r = h \<and> rq_seq r = seq}"

definition certified_request :: "resdb_config \<Rightarrow> mm_event list \<Rightarrow> request \<Rightarrow> bool" where
  "certified_request cfg es r \<longleftrightarrow>
     (\<exists>p \<in> delivered es. rq_type p = TYPE_PRE_PREPARE \<and> (\<exists>certs. r = add_certs certs p))
   \<and> (\<exists>h. GetMinDataReceiveNum cfg \<le> int (card (senders_of TYPE_PREPARE h (rq_seq r) es)))
   \<and> (\<exists>h. GetMinDataReceiveNum cfg \<le> int (card (senders_of TYPE_COMMIT h (rq_seq r) es)))"

definition slot_ok :: "resdb_config \<Rightarrow> mm_event list \<Rightarrow> collector \<Rightarrow> bool" where
  "slot_ok cfg es c \<longleftrightarrow> (\<exists>ces seq ex vc outs rs. coll_run (consensus_cb cfg) (new_collector seq ex vc) ces = Some (c, outs, rs)
     \<and> fst ` set ces \<subseteq> delivered es)"

definition mm_inv :: "resdb_config \<Rightarrow> mm_event list \<Rightarrow> 's message_manager \<Rightarrow> bool" where
  "mm_inv cfg es m \<longleftrightarrow> mm_config m = cfg
     \<and> (\<forall>c \<in> set (po_collector (mm_pool m)). slot_ok cfg es c)
     \<and> (\<forall>r \<in> set (te_commit_queue (mm_executor m)). certified_request cfg es r)"

lemma delivered_append [simp]: "delivered (es @ es') = delivered es \<union> delivered es'"
  by (auto simp: delivered_def)

lemma delivered_single: "delivered [MmMsg pos now sig (Some r)] = {r}"
  by (auto simp: delivered_def)

lemma finite_delivered [simp]: "finite (delivered es)"
proof -
  have "delivered es \<subseteq> (\<lambda>e. case e of MmMsg _ _ _ (Some r) \<Rightarrow> r | _ \<Rightarrow> empty_request) ` set es"
    by (force simp: delivered_def)
  then show ?thesis by (rule finite_subset) simp
qed

lemma senders_of_mono: "card (senders_of t h seq es) \<le> card (senders_of t h seq (es @ es'))"
  by (intro card_mono) (auto simp: senders_of_def)

lemma certified_mono:
  assumes "certified_request cfg es r"
  shows "certified_request cfg (es @ es') r"
proof -
  have le: "n \<le> int (card (senders_of t h seq es)) \<Longrightarrow> n \<le> int (card (senders_of t h seq (es @ es')))" for n t h seq
    using senders_of_mono [of t h seq es es'] by linarith
  from assms show ?thesis unfolding certified_request_def
    by (elim conjE exE bexE, intro conjI) (auto intro: le)
qed

lemma slot_ok_new: "slot_ok cfg es (new_collector seq ex vc)"
  unfolding slot_ok_def by (intro exI [of _ "[]"] exI [of _ seq] exI [of _ ex] exI [of _ vc]) simp

lemma slot_ok_mono:
  assumes "slot_ok cfg es c"
  shows "slot_ok cfg (es @ es') c"
proof -
  obtain ces seq ex vc outs rs where "coll_run (consensus_cb cfg) (new_collector seq ex vc) ces = Some (c, outs, rs)"
    "fst ` set ces \<subseteq> delivered es" using assms by (auto simp: slot_ok_def)
  moreover from this(2) have "fst ` set ces \<subseteq> delivered (es @ es')" by auto
  ultimately show ?thesis unfolding slot_ok_def by blast
qed

lemma vote_senders_of:
  assumes "fst ` set ces \<subseteq> delivered es"
  shows "card (vote_senders seq t h ces) \<le> card (senders_of t h seq es)"
  using assms by (intro card_mono) (auto simp: senders_of_def vote_senders_def)

lemma slot_step:
  assumes "slot_ok cfg es c" "coll_step (consensus_cb cfg) (r, sig, pos) c = Some (ret, c', res, out)"
    "r \<in> delivered es"
  shows "slot_ok cfg es c'" and "out = Some m' \<Longrightarrow> certified_request cfg es m'"
proof -
  obtain ces seq ex vc outs rs where
    run: "coll_run (consensus_cb cfg) (new_collector seq ex vc) ces = Some (c, outs, rs)"
    and sub: "fst ` set ces \<subseteq> delivered es"
    using assms(1) by (auto simp: slot_ok_def)
  let ?ces = "ces @ [(r, sig, pos)]"
  have run': "coll_run (consensus_cb cfg) (new_collector seq ex vc) ?ces
      = Some (c', outs @ opt_list out, rs @ map (Pair r) (opt_list res))"
    using run assms(2) by (simp add: coll_run_append del: coll_step.simps)
  have sub': "fst ` set ?ces \<subseteq> delivered es" using sub assms(3) by auto
  show "slot_ok cfg es c'" unfolding slot_ok_def using run' sub' by blast
  show "certified_request cfg es m'" if "out = Some m'"
  proof -
    have "m' \<in> set (outs @ opt_list out)" using that by simp
    from pbft_votes.release_certificate [OF run' this] obtain p certs h h' where
      p: "p \<in> proposals seq ?ces" "m' = add_certs certs p"
      and q: "nat (GetMinDataReceiveNum cfg) \<le> card (vote_senders seq TYPE_PREPARE h ?ces)"
        "nat (GetMinDataReceiveNum cfg) \<le> card (vote_senders seq TYPE_COMMIT h' ?ces)" by blast
    have seq: "rq_seq m' = seq" using p by (auto simp: add_certs_def proposals_def)
    have le: "nat (GetMinDataReceiveNum cfg) \<le> n \<Longrightarrow> GetMinDataReceiveNum cfg \<le> int n" for n by linarith
    have "GetMinDataReceiveNum cfg \<le> int (card (senders_of TYPE_PREPARE h seq es))"
      "GetMinDataReceiveNum cfg \<le> int (card (senders_of TYPE_COMMIT h' seq es))"
      by (rule le, rule order_trans [OF q(1) vote_senders_of [OF sub']],
          rule le, rule order_trans [OF q(2) vote_senders_of [OF sub']])
    moreover have "p \<in> delivered es" "rq_type p = TYPE_PRE_PREPARE" using p(1) sub' by (auto simp: proposals_def)
    ultimately show ?thesis using p(2) seq unfolding certified_request_def by blast
  qed
qed

lemma mm_inv_mono: "mm_inv cfg es m \<Longrightarrow> mm_inv cfg (es @ es') m"
  by (auto simp: mm_inv_def intro: slot_ok_mono certified_mono)

lemma AddConsensusMsg_cases:
  assumes "AddConsensusMsg pos now sig ro m = Some (code, m')"
  obtains (invalid) "m' = m" "code = RC_INVALID"
  | (added) r c ret c' res out where "ro = Some r" "IsValidMsg r m" "GetCollector (rq_seq r) (mm_pool m) = Some c"
      "coll_step (consensus_cb (mm_config m)) (r, sig, pos) c = Some (ret, c', res, out)"
      "mm_pool m' = SetCollector (rq_seq r) c' (mm_pool m)" "mm_config m' = mm_config m"
      "mm_executor m' = fold executor_Commit (opt_list out) (mm_executor m)"
      "code = RC_STATE_CHANGED \<Longrightarrow> res = Some True"
      "mm_checkpoint m' = mm_checkpoint m" "mm_system_info m' = mm_system_info m"
proof (cases "\<exists>r. ro = Some r \<and> IsValidMsg r m")
  case False
  then have "m' = m \<and> code = RC_INVALID" using assms by (auto simp: AddConsensusMsg_def split: option.splits if_splits)
  then show ?thesis using invalid by blast
next
  case True
  then obtain r where r: "ro = Some r" "IsValidMsg r m" by blast
  obtain c where c: "GetCollector (rq_seq r) (mm_pool m) = Some c"
    using assms r by (cases "GetCollector (rq_seq r) (mm_pool m)") (auto simp: AddConsensusMsg_def)
  obtain ret c' res out where st: "coll_step (consensus_cb (mm_config m)) (r, sig, pos) c = Some (ret, c', res, out)"
    using assms r c by (cases "coll_step (consensus_cb (mm_config m)) (r, sig, pos) c") (auto simp: AddConsensusMsg_def)
  have "mm_pool m' = SetCollector (rq_seq r) c' (mm_pool m) \<and> mm_config m' = mm_config m
      \<and> mm_executor m' = fold executor_Commit (opt_list out) (mm_executor m)
      \<and> (code = RC_STATE_CHANGED \<longrightarrow> res = Some True)
      \<and> mm_checkpoint m' = mm_checkpoint m \<and> mm_system_info m' = mm_system_info m"
    using assms r c st by (auto simp: AddConsensusMsg_def Let_def SetLastCommittedTime_def split: if_splits)
  then show ?thesis using added [OF r c st] by blast
qed

lemma GetCollector_mem: "GetCollector seq p = Some c \<Longrightarrow> c \<in> set (po_collector p)"
  by (auto simp: GetCollector_def Let_def split: if_splits)

lemma SetCollector_mem: "set (po_collector (SetCollector seq c p)) \<subseteq> insert c (set (po_collector p))"
  by (simp add: SetCollector_def set_update_subset_insert)

lemma AddConsensusMsg_inv:
  assumes inv: "mm_inv cfg es m" and step: "AddConsensusMsg pos now sig ro m = Some (code, m')"
  shows "mm_inv cfg (es @ [MmMsg pos now sig ro]) m'"
proof -
  let ?es = "es @ [MmMsg pos now sig ro]"
  have inv': "mm_inv cfg ?es m" by (rule mm_inv_mono [OF inv])
  from step show ?thesis
  proof (cases rule: AddConsensusMsg_cases)
    case invalid
    then show ?thesis using inv' by simp
  next
    case (added r c ret c' res out)
    have cfg: "mm_config m = cfg" using inv by (simp add: mm_inv_def)
    have r: "r \<in> delivered ?es" using added(1) by (simp add: delivered_single)
    have c: "slot_ok cfg ?es c" using inv' GetCollector_mem [OF added(3)] by (simp add: mm_inv_def)
    note st = slot_step [OF c added(4) [unfolded cfg] r]
    have q: "te_commit_queue (mm_executor m') = te_commit_queue (mm_executor m) @ opt_list out"
      by (simp add: added(7) fold_commit_queue)
    have "\<forall>c \<in> set (po_collector (mm_pool m')). slot_ok cfg ?es c"
      using inv' st(1) SetCollector_mem added(5) by (fastforce simp: mm_inv_def)
    moreover have "\<forall>r \<in> set (te_commit_queue (mm_executor m')). certified_request cfg ?es r"
      using inv' st(2) by (cases out) (auto simp: mm_inv_def q)
    ultimately show ?thesis using added(6) cfg by (simp add: mm_inv_def)
  qed
qed

lemma seq_update_notify_inv:
  assumes "mm_inv cfg es m" "seq_update_notify seq m = Some m'"
  shows "mm_inv cfg es m'"
proof -
  obtain p where p: "pool_Update (seq - 1) (mm_pool m) = Some p" "m' = m\<lparr>mm_pool := p\<rparr>"
    using assms(2) by (auto simp: seq_update_notify_def)
  have "set (po_collector p) \<subseteq> insert (new_collector (seq - 1 + ucast (po_capacity (mm_pool m)))
      (po_has_executor (mm_pool m)) (po_enable_viewchange (mm_pool m))) (set (po_collector (mm_pool m)))"
    using p(1) unfolding pool_Update_def Let_def
    by (auto split: if_splits dest: subsetD [OF set_update_subset_insert])
  then show ?thesis using assms(1) slot_ok_new p(2) by (fastforce simp: mm_inv_def)
qed

lemma mm_run_inv:
  assumes "mm_inv cfg es0 m0" "mm_run m0 es = Some m"
  shows "mm_inv cfg (es0 @ es) m"
  using assms
proof (induction es arbitrary: es0 m0)
  case (Cons e es)
  obtain m1 where m1: "mm_step e m0 = Some m1" "mm_run m1 es = Some m" using Cons.prems(2) by (auto simp: bind_eq_Some)
  have "mm_inv cfg (es0 @ [e]) m1"
    using m1(1) AddConsensusMsg_inv [OF Cons.prems(1)] mm_inv_mono [OF seq_update_notify_inv [OF Cons.prems(1)]]
    by (cases e) auto
  then show ?case using Cons.IH [OF _ m1(2)] by fastforce
qed simp

lemma new_message_manager_inv:
  assumes "new_message_manager cfg tm db ckpt si = Some m"
  shows "mm_inv cfg [] m"
proof -
  obtain p where p: "new_pool (GetMaxProcessTxn cfg) True (cd_enable_viewchange (cf_config_data cfg)) = Some p"
    "mm_pool m = p" "mm_config m = cfg" "mm_executor m = new_executor tm db"
    using assms by (auto simp: new_message_manager_def split: option.splits)
  have "\<forall>c \<in> set (po_collector p). slot_ok cfg [] c"
    using p(1) slot_ok_new by (auto simp: new_pool_def split: option.splits)
  then show ?thesis using p by (simp add: mm_inv_def new_executor_def)
qed

section \<open>Properties\<close>

text \<open>C3: whatever consensus messages arrive in whatever order, and however the collectors are
  recycled in between, a request that the message manager hands to the executor is a PRE-PREPARE it
  has received, and for its sequence number PREPARE messages of one hash from at least
  \<open>GetMinDataReceiveNum\<close> different senders and COMMIT messages of one hash from as many have arrived.\<close>

theorem executed_requests_certified:
  assumes "new_message_manager cfg tm db ckpt si = Some m0" "mm_run m0 es = Some m"
    and "r \<in> set (te_commit_queue (mm_executor m))"
  shows "certified_request cfg es r"
  using mm_run_inv [OF new_message_manager_inv [OF assms(1)] assms(2)] assms(3) by (simp add: mm_inv_def)

text \<open>Votes for one sequence number: a type, a sender and a hash.\<close>

definition demo_vote :: "request_type \<Rightarrow> int \<Rightarrow> string \<Rightarrow> coll_event" where
  "demo_vote t i h = (empty_request\<lparr>rq_type := t, rq_seq := 1, rq_sender_id := i, rq_hash := h, rq_current_view := 1\<rparr>,
     empty_signature, 0)"

lemmas demo_vote_simps = demo_vote_def AddRequest_def AddMainRequest_def AddVote_def AddPrepare_def record_sender_def
  add_sender_def received_count_def consensus_cb_def MayConsensusChangeStatus_def demo_config_4 CollectorCommit_def
  aup_Set_def aup_Reference_def aup_Clear_def aup_new_def new_collector_def adopt_main_def add_certs_def opt_list_def
  Let_def empty_request_def filter_proof_def

definition demo_manager_of :: "collector list \<Rightarrow> unit executor \<Rightarrow> (uint64, uint64) std_map \<Rightarrow> unit message_manager" where
  "demo_manager_of cs e t = \<lparr>mm_config = demo_config [1, 2, 3, 4], mm_next_seq = 1, mm_queue = [],
     mm_system_info = \<lparr>si_primary_id = 1, si_view = 1, si_replicas = []\<rparr>,
     mm_checkpoint = new_checkpoint_manager (demo_config [1, 2, 3, 4]) None, mm_committed_proof = [], mm_committed_data = [],
     mm_executor = e, mm_pool = \<lparr>po_capacity = 8, po_mask = 15, po_has_executor = True, po_enable_viewchange = True,
       po_collector = cs\<rparr>, mm_last_committed_time = t\<rparr>"

definition demo_collectors :: "collector \<Rightarrow> collector list" where
  "demo_collectors c = (map (\<lambda>i. new_collector (of_nat i) True True) [0 ..< 16])[1 := c]"

lemma new_demo_manager:
  "new_message_manager (demo_config [1, 2, 3, 4]) None () (new_checkpoint_manager (demo_config [1, 2, 3, 4]) None)
     \<lparr>si_primary_id = 1, si_view = 1, si_replicas = []\<rparr>
   = Some (demo_manager_of (demo_collectors (new_collector 1 True True)) (new_executor None ()) [])"
proof -
  have "GetMaxProcessTxn (demo_config [1, 2, 3, 4]) = 2" "cd_enable_viewchange (cf_config_data (demo_config [1, 2, 3, 4]))"
    by (simp_all add: GetMaxProcessTxn_def demo_config_def)
  moreover have "new_pool 2 True True = Some \<lparr>po_capacity = 8, po_mask = 15, po_has_executor = True,
     po_enable_viewchange = True, po_collector = map (\<lambda>i. new_collector (of_nat i) True True) [0 ..< 16]\<rparr>"
    by (simp add: new_pool_def GetCapacity_def GetCapacity_loop.simps del: upt_rec_numeral)
  moreover have "demo_collectors (new_collector 1 True True) = map (\<lambda>i. new_collector (of_nat i) True True) [0 ..< 16]"
    by (simp add: demo_collectors_def list_eq_iff_nth_eq nth_list_update del: upt_rec_numeral)
  ultimately show ?thesis by (simp add: new_message_manager_def demo_manager_of_def)
qed

text \<open>A message for sequence number 1 is a step of the collector in slot 1.\<close>

lemma demo_manager_step:
  assumes "rq_seq r = 1" "rq_current_view r = 1" "rq_proxy_id r = 0" "te_next_execute_seq e = 1"
    and "coll_step (consensus_cb (demo_config [1, 2, 3, 4])) (r, sig, pos) c = Some (ret, c', res, out)"
  shows "\<exists>t'. mm_step (MmMsg pos now sig (Some r)) (demo_manager_of (demo_collectors c) e t)
    = Some (demo_manager_of (demo_collectors c') (fold executor_Commit (opt_list out) e) t')"
  using assms
  by (simp add: AddConsensusMsg_def IsValidMsg_def mm_view_def GetCurrentView_def GetMaxPendingExecutedSeq_def
      demo_manager_of_def GetCollector_def pool_idx_def demo_collectors_def SetCollector_def SetLastCommittedTime_def
      Let_def del: upt_rec_numeral)


lemma vote_senders_Cons:
  "vote_senders s t h (e # es) =
     (if rq_type (fst e) = t \<and> rq_hash (fst e) = h \<and> rq_seq (fst e) = s then {rq_sender_id (fst e)} else {})
       \<union> vote_senders s t h es"
  "proposals s (e # es) = (if rq_type (fst e) = TYPE_PRE_PREPARE \<and> rq_seq (fst e) = s then {fst e} else {}) \<union> proposals s es"
  "vote_senders s t h [] = {}" "proposals s [] = {}"
  by (auto simp: vote_senders_def proposals_def)

lemma demo_vote_sel [simp]:
  "rq_type (fst (demo_vote t i h)) = t" "rq_sender_id (fst (demo_vote t i h)) = i"
  "rq_hash (fst (demo_vote t i h)) = h" "rq_seq (fst (demo_vote t i h)) = 1"
  "rq_current_view (fst (demo_vote t i h)) = 1" "rq_proxy_id (fst (demo_vote t i h)) = 0"
  by (simp_all add: demo_vote_def empty_request_def)

lemma demo_prepared:
  "coll_run (consensus_cb (demo_config [1, 2, 3, 4])) (new_collector 1 True True) [demo_vote TYPE_PRE_PREPARE 1 h]
   = Some ((new_collector 1 True True)\<lparr>co_main := \<lparr>ap_ptr = Some \<lparr>ri_request = Some (fst (demo_vote TYPE_PRE_PREPARE 1 h)),
       ri_signature = empty_signature\<rparr>, ap_v = 2\<rparr>, co_status := READY_PREPARE, co_view := 1\<rparr>, [],
       [(fst (demo_vote TYPE_PRE_PREPARE 1 h), True)])"
  by (simp add: demo_vote_simps)

definition demo_votes :: "string \<Rightarrow> coll_event list" where
  "demo_votes h = map (\<lambda>i. demo_vote TYPE_PREPARE i h) [1, 2, 3] @ map (\<lambda>i. demo_vote TYPE_COMMIT i h) [1, 2, 3]"

lemma demo_run:
  "\<exists>c rs. coll_run (consensus_cb (demo_config [1, 2, 3, 4]))
     ((new_collector 1 True True)\<lparr>co_main := \<lparr>ap_ptr = Some \<lparr>ri_request = Some (fst (demo_vote TYPE_PRE_PREPARE 1 h)),
       ri_signature = empty_signature\<rparr>, ap_v = 2\<rparr>, co_status := READY_PREPARE, co_view := 1\<rparr>)
     (demo_votes h) = Some (c, [fst (demo_vote TYPE_PRE_PREPARE 1 h)], rs)"
  by (simp add: demo_vote_simps demo_votes_def)


lemma executor_Commit_next [simp]: "te_next_execute_seq (fold executor_Commit rs e) = te_next_execute_seq e"
  by (induction rs arbitrary: e) (auto simp: executor_Commit_def)

lemma demo_manager_run:
  assumes "\<forall>x \<in> set ces. rq_seq (fst x) = 1 \<and> rq_current_view (fst x) = 1 \<and> rq_proxy_id (fst x) = 0"
    "te_next_execute_seq e = 1"
    "coll_run (consensus_cb (demo_config [1, 2, 3, 4])) c ces = Some (c', outs, rs)"
  shows "\<exists>t'. mm_run (demo_manager_of (demo_collectors c) e t) (map (\<lambda>(r, sig, pos). MmMsg pos 0 sig (Some r)) ces)
    = Some (demo_manager_of (demo_collectors c') (fold executor_Commit outs e) t')"
  using assms
proof (induction ces arbitrary: c e t outs rs)
  case (Cons x ces)
  obtain r sig pos where x: "x = (r, sig, pos)" by (metis surj_pair)
  obtain ret c1 res out outs1 rs1 where st: "coll_step (consensus_cb (demo_config [1, 2, 3, 4])) (r, sig, pos) c = Some (ret, c1, res, out)"
    and run: "coll_run (consensus_cb (demo_config [1, 2, 3, 4])) c1 ces = Some (c', outs1, rs1)" and outs: "outs = opt_list out @ outs1"
    using Cons.prems(3) by (auto simp del: coll_step.simps simp: x split: option.splits)
  obtain t1 where "mm_step (MmMsg pos 0 sig (Some r)) (demo_manager_of (demo_collectors c) e t)
      = Some (demo_manager_of (demo_collectors c1) (fold executor_Commit (opt_list out) e) t1)"
    using demo_manager_step [OF _ _ _ Cons.prems(2) st] Cons.prems(1) x by force
  moreover obtain t2 where "mm_run (demo_manager_of (demo_collectors c1) (fold executor_Commit (opt_list out) e) t1)
      (map (\<lambda>(r, sig, pos). MmMsg pos 0 sig (Some r)) ces)
      = Some (demo_manager_of (demo_collectors c') (fold executor_Commit outs1 (fold executor_Commit (opt_list out) e)) t2)"
    using Cons.IH [of "fold executor_Commit (opt_list out) e" c1 outs1 rs1 t1] Cons.prems(1,2) run by auto
  ultimately show ?case by (simp add: x outs del: mm_step.simps) blast
qed (auto intro: exI)

theorem executed_requests_certified_witness:
  "\<exists>m. mm_run (demo_manager_of (demo_collectors (new_collector 1 True True)) (new_executor None ()) [])
      (map (\<lambda>(r, sig, pos). MmMsg pos 0 sig (Some r)) (demo_vote TYPE_PRE_PREPARE 1 ''h'' # demo_votes ''h'')) = Some m
   \<and> te_commit_queue (mm_executor m) = [fst (demo_vote TYPE_PRE_PREPARE 1 ''h'')]
   \<and> certified_request (demo_config [1, 2, 3, 4])
        (map (\<lambda>(r, sig, pos). MmMsg pos 0 sig (Some r)) (demo_vote TYPE_PRE_PREPARE 1 ''h'' # demo_votes ''h''))
        (fst (demo_vote TYPE_PRE_PREPARE 1 ''h''))"
proof -
  obtain c rs where "coll_run (consensus_cb (demo_config [1, 2, 3, 4])) (new_collector 1 True True)
        (demo_vote TYPE_PRE_PREPARE 1 ''h'' # demo_votes ''h'') = Some (c, [fst (demo_vote TYPE_PRE_PREPARE 1 ''h'')], rs)"
    using demo_run [of "''h''"] coll_run_append [of "consensus_cb (demo_config [1, 2, 3, 4])" "new_collector 1 True True"
      "[demo_vote TYPE_PRE_PREPARE 1 ''h'']" "demo_votes ''h''"] demo_prepared [of "''h''"] by auto
  from demo_manager_run [OF _ _ this, of "new_executor None ()" "[]"]
  obtain t where run: "mm_run (demo_manager_of (demo_collectors (new_collector 1 True True)) (new_executor None ()) [])
      (map (\<lambda>(r, sig, pos). MmMsg pos 0 sig (Some r)) (demo_vote TYPE_PRE_PREPARE 1 ''h'' # demo_votes ''h''))
      = Some (demo_manager_of (demo_collectors c) (fold executor_Commit [fst (demo_vote TYPE_PRE_PREPARE 1 ''h'')] (new_executor None ())) t)"
    by (auto simp: demo_votes_def demo_vote_def empty_request_def new_executor_def)
  have q: "te_commit_queue (mm_executor (demo_manager_of (demo_collectors c)
      (fold executor_Commit [fst (demo_vote TYPE_PRE_PREPARE 1 ''h'')] (new_executor None ())) t))
    = [fst (demo_vote TYPE_PRE_PREPARE 1 ''h'')]"
    by (simp only: demo_manager_of_def message_manager.simps fold_commit_queue) (simp add: new_executor_def)
  show ?thesis using run q executed_requests_certified [OF new_demo_manager run] by (metis list.set_intros(1))
qed

text \<open>C6: the votes do lead to execution. When the messages of one sequence number all carry one
  hash and senders within range, a proposal is among them, and the last PREPARE and a later COMMIT
  complete quorums, then the collector hands exactly one request, with that hash, to the executor.\<close>

theorem votes_lead_to_execution:
  assumes "uniform seq h (as @ [p] @ bs @ [q] @ ds)" "proposals seq as \<noteq> {}"
    and "rq_type (fst p) = TYPE_PREPARE" "GetMinDataReceiveNum cfg \<le> int (card (vote_senders seq TYPE_PREPARE h (as @ [p])))"
    and "rq_type (fst q) = TYPE_COMMIT"
      "GetMinDataReceiveNum cfg \<le> int (card (vote_senders seq TYPE_COMMIT h (as @ [p] @ bs @ [q])))"
  shows "\<exists>c m rs. coll_run (consensus_cb cfg) (new_collector seq True vc) (as @ [p] @ bs @ [q] @ ds) = Some (c, [m], rs)
    \<and> rq_hash m = h"
  by (rule pbft_votes.run_releases [OF assms(1,2,3) _ assms(5)]) (use assms(4,6) in \<open>simp_all add: nat_le_iff\<close>)

theorem votes_lead_to_execution_witness:
  "\<exists>c m rs. coll_run (consensus_cb (demo_config [1, 2, 3, 4])) (new_collector 1 True False)
     ([demo_vote TYPE_PREPARE 2 ''h'', demo_vote TYPE_PREPARE 3 ''h'', demo_vote TYPE_PRE_PREPARE 1 ''h'']
        @ [demo_vote TYPE_PREPARE 4 ''h''] @ [demo_vote TYPE_COMMIT 4 ''h'', demo_vote TYPE_COMMIT 3 ''h'']
        @ [demo_vote TYPE_COMMIT 2 ''h''] @ []) = Some (c, [m], rs) \<and> rq_hash m = ''h''"
proof -
  let ?as = "[demo_vote TYPE_PREPARE 2 ''h'', demo_vote TYPE_PREPARE 3 ''h'', demo_vote TYPE_PRE_PREPARE 1 ''h'']"
    and ?p = "demo_vote TYPE_PREPARE 4 ''h''" and ?bs = "[demo_vote TYPE_COMMIT 4 ''h'', demo_vote TYPE_COMMIT 3 ''h'']"
    and ?q = "demo_vote TYPE_COMMIT 2 ''h''"
  have "vote_senders 1 TYPE_PREPARE ''h'' (?as @ [?p]) = {2, 3, 4}"
    "vote_senders 1 TYPE_COMMIT ''h'' (?as @ [?p] @ ?bs @ [?q]) = {2, 3, 4}"
    by (auto simp: vote_senders_Cons)
  then show ?thesis
    by (intro votes_lead_to_execution)
      (simp_all add: demo_config_4 uniform_def vote_senders_Cons case_prod_unfold)
qed



text \<open>Without view changes a replica executes its main request whatever hash the votes name. A
  primary that proposes \<open>a\<close> to this replica and \<open>b\<close> to the others makes it execute \<open>a\<close> on the
  votes the others cast for \<open>b\<close>.\<close>

theorem votes_for_other_hash_execute:
  "\<exists>c rs. coll_run (consensus_cb (demo_config [1, 2, 3, 4])) (new_collector 1 True False)
      (demo_vote TYPE_PRE_PREPARE 1 ''a'' # map (\<lambda>i. demo_vote TYPE_PREPARE i ''b'') [1, 2, 3]
         @ map (\<lambda>i. demo_vote TYPE_COMMIT i ''b'') [1, 2, 3])
    = Some (c, [fst (demo_vote TYPE_PRE_PREPARE 1 ''a'')], rs)"
  by (simp add: demo_vote_simps)

text \<open>With view changes, a proposal that arrives after the prepare quorum takes the place of the
  main request that the quorum's hash has removed, and is executed with no vote for it.\<close>

theorem late_proposal_executes_unvoted:
  "\<exists>c rs. coll_run (consensus_cb (demo_config [1, 2, 3, 4])) (new_collector 1 True True)
      (demo_vote TYPE_PRE_PREPARE 1 ''a'' # map (\<lambda>i. demo_vote TYPE_PREPARE i ''b'') [1, 2, 3]
         @ demo_vote TYPE_PRE_PREPARE 1 ''c'' # map (\<lambda>i. demo_vote TYPE_COMMIT i ''b'') [1, 2, 3])
    = Some (c, [fst (demo_vote TYPE_PRE_PREPARE 1 ''c'')], rs)"
  by (simp add: demo_vote_simps)

text \<open>C33: the primary's window. While fewer than \<open>2 ^ 32\<close> requests have been ordered for execution,
  \<open>AssignNextSeq\<close> gives out consecutive numbers, each at most \<open>GetMaxProcessTxn\<close> beyond the last
  ordered one, and refuses only when the window is used up.\<close>

theorem assigned_sequence_in_window:
  assumes "unat (GetMaxPendingExecutedSeq (mm_executor m)) < 2 ^ 32"
    and "GetMaxPendingExecutedSeq (mm_executor m) \<le> mm_next_seq m"
  shows "case AssignNextSeq m of
      (Some s, m') \<Rightarrow> s = mm_next_seq m \<and> m' = m\<lparr>mm_next_seq := s + 1\<rparr>
        \<and> unat s \<le> unat (GetMaxPendingExecutedSeq (mm_executor m)) + unat (GetMaxProcessTxn (mm_config m))
    | (None, m') \<Rightarrow> m' = m
        \<and> unat (GetMaxPendingExecutedSeq (mm_executor m)) + unat (GetMaxProcessTxn (mm_config m)) < unat (mm_next_seq m)"
proof -
  let ?e = "GetMaxPendingExecutedSeq (mm_executor m)" and ?p = "GetMaxProcessTxn (mm_config m)"
  have e: "(ucast (ucast ?e :: uint32) :: uint64) = ?e"
    using assms(1) by (simp add: word_unat_eq_iff unsigned_ucast_eq unsigned_take_bit_eq take_bit_nat_eq_self)
  have "unat ?p < 2 ^ LENGTH(32)" by (rule unsigned_less)
  then have p: "unat (ucast ?p :: uint64) = unat ?p"
    by (simp add: unsigned_ucast_eq take_bit_nat_eq_self)
  have "unat (mm_next_seq m - ?e) = unat (mm_next_seq m) - unat ?e"
    using assms(2) by (rule unat_sub)
  moreover have "unat ?e \<le> unat (mm_next_seq m)" using assms(2) by (simp add: word_le_nat_alt)
  ultimately have "mm_next_seq m - ?e > ucast ?p \<longleftrightarrow> unat ?e + unat ?p < unat (mm_next_seq m)"
    unfolding word_less_nat_alt p by linarith
  then show ?thesis by (auto simp: AssignNextSeq_def Let_def e)
qed

text \<open>Once \<open>2 ^ 32\<close> requests have been ordered the counter is truncated in the comparison: with
  nothing outstanding at all, the primary is refused every further sequence number.\<close>

theorem sequence_numbers_run_out:
  assumes "2 ^ 32 \<le> unat (GetMaxPendingExecutedSeq (mm_executor m))"
    and "mm_next_seq m = GetMaxPendingExecutedSeq (mm_executor m) + 1"
    and "unat (mm_next_seq m) \<noteq> 0"
  shows "AssignNextSeq m = (None, m)"
proof -
  let ?e = "GetMaxPendingExecutedSeq (mm_executor m)" and ?p = "GetMaxProcessTxn (mm_config m)"
  let ?t = "ucast (ucast ?e :: uint32) :: uint64"
  have te: "unat ?t = unat ?e mod 2 ^ 32"
    by (simp add: unsigned_ucast_eq unsigned_take_bit_eq) (simp add: take_bit_eq_mod)
  have "unat ?p < 2 ^ LENGTH(32)" by (rule unsigned_less)
  then have p: "unat (ucast ?p :: uint64) < 2 ^ 32"
    by (simp add: unsigned_ucast_eq take_bit_nat_eq_self)
  have "unat ?e < 2 ^ LENGTH(64)" by (rule unsigned_less)
  moreover have "unat ?e + 1 \<noteq> 2 ^ 64" using assms(2,3) by (auto simp: unat_word_ariths)
  ultimately have n: "unat (mm_next_seq m) = unat ?e + 1" unfolding assms(2) by (intro unat_plus_one) simp
  have "2 ^ 32 * (unat ?e div 2 ^ 32) \<ge> 2 ^ 32" using assms(1) by (simp add: div_greater_zero_iff)
  then have "2 ^ 32 + unat ?t \<le> unat ?e" unfolding te
    by (metis add_le_mono1 mult_div_mod_eq)
  moreover have "unat (mm_next_seq m - ?t) = unat (mm_next_seq m) - unat ?t"
    by (rule unat_sub) (use calculation n in \<open>simp add: word_le_nat_alt\<close>)
  ultimately have "mm_next_seq m - ?t > ucast ?p"
    unfolding word_less_nat_alt using p n by linarith
  then show ?thesis by (simp add: AssignNextSeq_def Let_def)
qed

theorem assigned_sequence_in_window_witness:
  "AssignNextSeq (demo_manager_of [] (new_executor None ()) [])
     = (Some 1, (demo_manager_of [] (new_executor None ()) [])\<lparr>mm_next_seq := 2\<rparr>)"
proof -
  have "GetMaxPendingExecutedSeq (new_executor None ()) = 0" "GetMaxProcessTxn (demo_config [1, 2, 3, 4]) = 2"
    by (simp_all add: GetMaxPendingExecutedSeq_def new_executor_def GetMaxProcessTxn_def demo_config_def)
  then show ?thesis
    using assigned_sequence_in_window [of "demo_manager_of [] (new_executor None ()) []"]
    by (cases "AssignNextSeq (demo_manager_of [] (new_executor None ()) [])") (auto simp: demo_manager_of_def split: option.splits)
qed

theorem sequence_numbers_run_out_witness:
  "AssignNextSeq ((demo_manager_of [] ((new_executor None ())\<lparr>te_next_execute_seq := 4294967297\<rparr>) [])\<lparr>mm_next_seq := 4294967297\<rparr>)
     = (None, (demo_manager_of [] ((new_executor None ())\<lparr>te_next_execute_seq := 4294967297\<rparr>) [])\<lparr>mm_next_seq := 4294967297\<rparr>)"
  by (rule sequence_numbers_run_out) (simp_all add: GetMaxPendingExecutedSeq_def demo_manager_of_def)

end
