(* ===== verification/Commitment.thy ===== *)
theory Commitment
  imports Message_Manager
begin

text \<open>
  \<open>Commitment\<close> (platform/consensus/ordering/pbft/commitment.cpp): the handlers of a new request and
  of the PRE-PREPARE, PREPARE and COMMIT messages, and the thread that returns executed requests to
  the proxy.

  A handler returns its return value, the new state and the messages it sends, in order; \<open>None\<close> is
  undefined behaviour. The duplicate manager the class owns is the one it installs in the executor,
  and the model keeps it there. \<open>pre_verify\<close> is the user's check, \<open>ser\<close> the codec of a response;
  \<open>ct_is_faulty\<close> is the switch \<open>global_stats_->IsFaulty()\<close>.
\<close>

record 's commitment =
  ct_mm :: "'s message_manager"
  ct_verifier :: "signature_verifier option"
  ct_need_qc :: bool
  ct_is_faulty :: bool
  ct_request_complained :: "(net_context \<times> request) list"

type_synonym 's handler_result = "(int \<times> 's commitment \<times> out_msg list) option"

text \<open>What a handler depends on: the clock, the ranks of addresses, the signature schemes and the
  user's check.\<close>

record env =
  en_now :: uint64
  en_pos :: nat
  en_crypto :: crypto
  en_pre_verify :: "(request \<Rightarrow> bool) option"

definition new_commitment ::
  "'s message_manager \<Rightarrow> signature_verifier option \<Rightarrow> 's commitment" where
  "new_commitment m verifier =
     \<lparr>ct_mm = mm_SetDuplicateManager
        (new_duplicate_manager (cd_duplicate_check_frequency_useconds (cf_config_data (mm_config m)))) m,
      ct_verifier = verifier, ct_need_qc = False, ct_is_faulty = False, ct_request_complained = []\<rparr>"

definition SetNeedCommitQC :: "bool \<Rightarrow> 's commitment \<Rightarrow> 's commitment" where
  "SetNeedCommitQC b s = s\<lparr>ct_need_qc := b\<rparr>"

definition self_id :: "'s commitment \<Rightarrow> int" where
  "self_id s = rep_id (cf_self_info (mm_config (ct_mm s)))"

definition duplicates :: "'s commitment \<Rightarrow> duplicate_manager option" where
  "duplicates s = te_duplicate_manager (mm_executor (ct_mm s))"

definition set_duplicates :: "duplicate_manager \<Rightarrow> 's commitment \<Rightarrow> 's commitment" where
  "set_duplicates d s = s\<lparr>ct_mm := mm_SetDuplicateManager d (ct_mm s)\<rparr>"

definition pre_verified :: "env \<Rightarrow> request \<Rightarrow> bool" where
  "pre_verified E r = (case en_pre_verify E of None \<Rightarrow> True | Some f \<Rightarrow> f r)"

section \<open>New requests\<close>

text \<open>The answer to the proxy when no sequence number is left.\<close>

definition seq_fail_response :: "'s commitment \<Rightarrow> request \<Rightarrow> request" where
  "seq_fail_response s r =
     empty_request\<lparr>rq_type := TYPE_RESPONSE, rq_sender_id := self_id s, rq_proxy_id := rq_proxy_id r,
                   rq_ret := -2, rq_hash := rq_hash r\<rparr>"

definition proposal :: "'s commitment \<Rightarrow> uint64 \<Rightarrow> request \<Rightarrow> request" where
  "proposal s seq r =
     r\<lparr>rq_type := TYPE_PRE_PREPARE, rq_current_view := mm_view (ct_mm s), rq_seq := seq,
       rq_sender_id := self_id s, rq_primary_id := self_id s\<rparr>"

text \<open>The part of \<open>ProcessNewRequest\<close> after the checks: the duplicate check and the sequence number.\<close>

definition propose_request :: "env \<Rightarrow> duplicate_manager \<Rightarrow> request \<Rightarrow> 's commitment \<Rightarrow> 's handler_result" where
  "propose_request E d r s =
     (let (dup, d1) = CheckAndAddProposed (rq_hash r) (en_now E) d; s1 = set_duplicates d1 s
      in if dup then Some (-2, s1, [])
         else case AssignNextSeq (ct_mm s1) of
                (None, m1) \<Rightarrow>
                  Some (-2, set_duplicates (EraseProposed (rq_hash r) d1) (s1\<lparr>ct_mm := m1\<rparr>),
                        [SendTo (seq_fail_response s1 r) (rq_proxy_id r)])
              | (Some seq, m1) \<Rightarrow>
                  Some (0, s1\<lparr>ct_mm := m1\<rparr>, [Broadcast (proposal s1 seq r)]))"

definition ProcessNewRequest :: "env \<Rightarrow> net_context option \<Rightarrow> request \<Rightarrow> 's commitment \<Rightarrow> 's handler_result" where
  "ProcessNewRequest E context r s =
     (if \<not> has_signature context then Some (-2, s, [])
      else case duplicates s of
             None \<Rightarrow> None
           | Some d \<Rightarrow>
               if CheckIfExecuted (rq_hash r) d \<noteq> 0
               then Some (-2, s\<lparr>ct_mm := SendResponse (en_now E) (r\<lparr>rq_seq := CheckIfExecuted (rq_hash r) d\<rparr>) (ct_mm s)\<rparr>, [])
               else if self_id s \<noteq> GetCurrentPrimary (ct_mm s)
               then Some (-3, s\<lparr>ct_request_complained := ct_request_complained s @ [(the context, r)]\<rparr>,
                          [SendTo r (GetCurrentPrimary (ct_mm s))])
               else case ct_verifier s of
                      None \<Rightarrow> None
                    | Some sv \<Rightarrow>
                        if \<not> VerifyMessage (en_crypto E) sv (rq_data r) (data_signature r) then Some (-2, s, [])
                        else if \<not> pre_verified E r then Some (-2, s, [])
                        else propose_request E d r s)"

section \<open>Consensus messages\<close>

text \<open>The call of \<open>AddConsensusMsg\<close>, with the new message manager stored back.\<close>

definition add_msg :: "env \<Rightarrow> signature_info \<Rightarrow> request \<Rightarrow> 's commitment \<Rightarrow> (CollectorResultCode \<times> 's commitment) option" where
  "add_msg E sig r s =
     map_option (\<lambda>(code, m). (code, s\<lparr>ct_mm := m\<rparr>)) (AddConsensusMsg (en_pos E) (en_now E) sig (Some r) (ct_mm s))"

definition ret_of :: "CollectorResultCode \<Rightarrow> int" where
  "ret_of code = (if code = RC_INVALID then -2 else 0)"

definition recovery_msg :: "env \<Rightarrow> signature_info \<Rightarrow> request \<Rightarrow> 's commitment \<Rightarrow> 's handler_result" where
  "recovery_msg E sig r s = map_option (\<lambda>(code, s1). (rc_val code, s1, [])) (add_msg E sig r s)"

text \<open>The checks a proposal of another replica passes; the last one records its hash.\<close>

definition check_proposal :: "env \<Rightarrow> request \<Rightarrow> 's commitment \<Rightarrow> (bool \<times> 's commitment) option" where
  "check_proposal E r s =
     (if rq_sender_id r = self_id s then Some (True, s)
      else if \<not> pre_verified E r then Some (False, s)
      else case (ct_verifier s, duplicates s) of
             (Some sv, Some d) \<Rightarrow>
               if \<not> VerifyMessage (en_crypto E) sv (rq_data r) (data_signature r) then Some (False, s)
               else let (dup, d1) = CheckAndAddProposed (rq_hash r) (en_now E) d
                    in Some (\<not> dup, set_duplicates d1 s)
           | _ \<Rightarrow> None)"

definition ProcessProposeMsg :: "env \<Rightarrow> net_context option \<Rightarrow> request \<Rightarrow> 's commitment \<Rightarrow> 's handler_result" where
  "ProcessProposeMsg E context r s =
     (if ct_is_faulty s \<or> \<not> has_signature context then Some (-2, s, [])
      else let sig = cx_signature (the context)
      in if rq_is_recovery r
         then if GetNextSeq (ct_mm s) = 0 \<or> rq_seq r = mm_next_seq (ct_mm s)
              then recovery_msg E sig r (s\<lparr>ct_mm := SetNextSeq (rq_seq r + 1) (ct_mm s)\<rparr>)
              else Some (0, s, [])
         else if rq_sender_id r \<noteq> GetCurrentPrimary (ct_mm s) then Some (-2, s, [])
         else case check_proposal E r s of
                None \<Rightarrow> None
              | Some (False, s1) \<Rightarrow> Some (-2, s1, [])
              | Some (True, s1) \<Rightarrow>
                  (let prepare = (NewRequest TYPE_PREPARE r (self_id s))\<lparr>rq_data := []\<rparr>
                   in case add_msg E sig r s1 of
                        None \<Rightarrow> None
                      | Some (code, s2) \<Rightarrow>
                          Some (ret_of code, s2, if code = RC_STATE_CHANGED then [Broadcast prepare] else [])))"

definition ProcessPrepareMsg :: "env \<Rightarrow> net_context option \<Rightarrow> request \<Rightarrow> 's commitment \<Rightarrow> 's handler_result" where
  "ProcessPrepareMsg E context r s =
     (if \<not> has_signature context then Some (-2, s, [])
      else let sig = cx_signature (the context)
      in if rq_is_recovery r then recovery_msg E sig r s
         else let commit = (NewRequest TYPE_COMMIT r (self_id s))\<lparr>rq_data_signature := Some empty_signature\<rparr>
              in case add_msg E sig r s of
                   None \<Rightarrow> None
                 | Some (code, s1) \<Rightarrow>
                     if code = RC_STATE_CHANGED
                     then let s2 = (if mm_GetHighestPreparedSeq (ct_mm s1) < rq_seq r
                                    then s1\<lparr>ct_mm := mm_SetHighestPreparedSeq (rq_seq r) (ct_mm s1)\<rparr> else s1);
                              commit1 = (case ct_verifier s of
                                 Some sv \<Rightarrow> if ct_need_qc s
                                   then commit\<lparr>rq_data_signature := Some (SignMessage (en_crypto E) sv (rq_hash commit))\<rparr>
                                   else commit
                               | None \<Rightarrow> commit)
                          in Some (0, s2, [Broadcast commit1])
                     else Some (ret_of code, s1, []))"

definition ProcessCommitMsg :: "env \<Rightarrow> net_context option \<Rightarrow> request \<Rightarrow> 's commitment \<Rightarrow> 's handler_result" where
  "ProcessCommitMsg E context r s =
     (if \<not> has_signature context then Some (-2, s, [])
      else let sig = cx_signature (the context)
      in if rq_is_recovery r then recovery_msg E sig r s
         else map_option (\<lambda>(code, s1). (ret_of code, s1, [])) (add_msg E sig r s))"

section \<open>Responses\<close>

definition PostProcessExecutedMsg_step ::
  "(batch_user_response \<Rightarrow> string) \<Rightarrow> 's commitment \<Rightarrow> 's commitment \<times> out_msg list" where
  "PostProcessExecutedMsg_step ser s =
     (case GetResponseMsg (ct_mm s) of
        (None, m) \<Rightarrow> (s\<lparr>ct_mm := m\<rparr>, [])
      | (Some resp, m) \<Rightarrow>
          let r = empty_request\<lparr>rq_hash := rs_hash resp, rq_seq := rs_seq resp, rq_type := TYPE_RESPONSE,
                    rq_sender_id := self_id s, rq_current_view := rs_current_view resp,
                    rq_proxy_id := rs_proxy_id resp, rq_primary_id := rs_primary_id resp, rq_data := ser resp\<rparr>
          in (s\<lparr>ct_mm := m\<rparr>, [SendTo r (rq_proxy_id r)]))"

section \<open>What a handler's message rests on\<close>

lemmas handler_splits = option.splits if_splits prod.splits bool.splits

lemma check_proposal_True:
  assumes "check_proposal E r s = Some (True, s1)"
  shows "rq_sender_id r = self_id s \<and> s1 = s \<or>
    (\<exists>sv d. ct_verifier s = Some sv \<and> duplicates s = Some d
       \<and> VerifyMessage (en_crypto E) sv (rq_data r) (data_signature r) \<and> pre_verified E r
       \<and> \<not> CheckIfProposed (rq_hash r) d
       \<and> s1 = set_duplicates (AddProposed (rq_hash r) (en_now E) d) s)"
  using assms
  by (auto simp: check_proposal_def Let_def CheckAndAddProposed_def CheckIfProposed_def split: handler_splits)

lemma set_duplicates_frame [simp]:
  "mm_view (ct_mm (set_duplicates d s)) = mm_view (ct_mm s)" "mm_config (ct_mm (set_duplicates d s)) = mm_config (ct_mm s)"
  "mm_pool (ct_mm (set_duplicates d s)) = mm_pool (ct_mm s)" "self_id (set_duplicates d s) = self_id s"
  "mm_next_seq (ct_mm (set_duplicates d s)) = mm_next_seq (ct_mm s)"
  "te_commit_queue (mm_executor (ct_mm (set_duplicates d s))) = te_commit_queue (mm_executor (ct_mm s))"
  "te_next_execute_seq (mm_executor (ct_mm (set_duplicates d s))) = te_next_execute_seq (mm_executor (ct_mm s))"
  "IsValidMsg r (ct_mm (set_duplicates d s)) = IsValidMsg r (ct_mm s)" "duplicates (set_duplicates d s) = Some d"
  by (simp_all add: set_duplicates_def mm_SetDuplicateManager_def SetDuplicateManager_def mm_view_def self_id_def
      IsValidMsg_def GetMaxPendingExecutedSeq_def duplicates_def)

lemma add_msg_STATE_CHANGED:
  assumes "add_msg E sig r s = Some (RC_STATE_CHANGED, s')"
  shows "IsValidMsg r (ct_mm s) \<and> (\<exists>c ret c' out. GetCollector (rq_seq r) (mm_pool (ct_mm s)) = Some c
    \<and> coll_step (consensus_cb (mm_config (ct_mm s))) (r, sig, en_pos E) c = Some (ret, c', Some True, out))"
proof -
  obtain m' where "AddConsensusMsg (en_pos E) (en_now E) sig (Some r) (ct_mm s) = Some (RC_STATE_CHANGED, m')"
    using assms by (auto simp: add_msg_def)
  then show ?thesis by (cases rule: AddConsensusMsg_cases) auto
qed

text \<open>A vote that the callback reports completes a quorum of its own hash.\<close>

lemma reported_vote:
  assumes "coll_step (consensus_cb cfg) (r, sig, pos) c = Some (ret, c', Some True, out)"
    and "rq_type r = TYPE_PREPARE \<or> rq_type r = TYPE_COMMIT"
  shows "nat (GetMinDataReceiveNum cfg) \<le> card (co_senders c' (rq_type r) (rq_hash r))"
proof -
  have quorum: "nat (GetMinDataReceiveNum cfg) \<le> n" if "consensus_cb cfg r n st False = (st', True)" for n st st'
    using consensus_cb_sound [OF that] consensus_cb_reports [OF that] assms(2) by (auto simp: vote_step_iff)
  have vote: ?thesis if v: "AddVote (consensus_cb cfg) r sig c = Some (ret, c', Some True, out)"
    using v
  proof (cases rule: AddVote_cases)
    case (counted c1 st x certs)
    then show ?thesis using quorum [of "received_count r c1"] by (auto simp: received_count_def)
  next
    case (committed c1 x ret' certs)
    then show ?thesis using quorum [of "received_count r c1"] CollectorCommit_frame [OF committed(3)]
      by (auto simp: received_count_def)
  qed
  have prep: ?thesis if v: "AddPrepare (consensus_cb cfg) r sig c = Some (ret, c', Some True, out)"
    using v
  proof (cases rule: AddPrepare_cases)
    case (counted c1 st x)
    then show ?thesis using quorum [of "received_count r c1"] by (auto simp: received_count_def)
  next
    case (prepared c1 x c3)
    then show ?thesis using quorum [of "received_count r c1"] adopt_main_frame [OF prepared(3)]
      by (auto simp: received_count_def)
  qed simp
  from assms have "AddRequest pos (consensus_cb cfg) (Some r) sig False c = Some (ret, c', Some True, out)" by auto
  then show ?thesis by (cases rule: AddRequest_cases) (use vote prep in auto)
qed

section \<open>Properties\<close>

text \<open>C8: a replica answers a proposal with a PREPARE only if the packet was signed, the proposal came
  from the primary of the replica's current view, carries that view and a sequence number that is
  not behind execution, and, unless the replica proposed it itself, its data carries a valid
  signature, passes the user's check and has not been proposed before. The PREPARE is for that very
  view, sequence number and hash, and carries no data.\<close>

theorem prepare_is_justified:
  assumes "ProcessProposeMsg E context r s = Some (ret, s', out)" "Broadcast p \<in> set out"
  shows "p = (NewRequest TYPE_PREPARE r (self_id s))\<lparr>rq_data := []\<rparr>
    \<and> has_signature context \<and> \<not> ct_is_faulty s \<and> \<not> rq_is_recovery r
    \<and> rq_sender_id r = GetCurrentPrimary (ct_mm s)
    \<and> (rq_type r = TYPE_RESPONSE \<or> rq_current_view r = mm_view (ct_mm s)
         \<and> GetMaxPendingExecutedSeq (mm_executor (ct_mm s)) \<le> rq_seq r)
    \<and> (rq_sender_id r = self_id s \<or> (\<exists>sv d. ct_verifier s = Some sv \<and> duplicates s = Some d
         \<and> VerifyMessage (en_crypto E) sv (rq_data r) (data_signature r) \<and> pre_verified E r
         \<and> \<not> CheckIfProposed (rq_hash r) d))"
proof -
  obtain s1 where chk: "check_proposal E r s = Some (True, s1)"
    and add: "add_msg E (cx_signature (the context)) r s1 = Some (RC_STATE_CHANGED, s')"
    and out: "out = [Broadcast ((NewRequest TYPE_PREPARE r (self_id s))\<lparr>rq_data := []\<rparr>)]"
    and pre: "has_signature context" "\<not> ct_is_faulty s" "\<not> rq_is_recovery r" "rq_sender_id r = GetCurrentPrimary (ct_mm s)"
    using assms unfolding ProcessProposeMsg_def recovery_msg_def Let_def by (auto split: handler_splits)
  have "IsValidMsg r (ct_mm s1)" using add_msg_STATE_CHANGED [OF add] by simp
  then have "IsValidMsg r (ct_mm s)" using check_proposal_True [OF chk] by auto
  then have "rq_type r = TYPE_RESPONSE \<or> rq_current_view r = mm_view (ct_mm s)
         \<and> GetMaxPendingExecutedSeq (mm_executor (ct_mm s)) \<le> rq_seq r"
    by (auto simp: IsValidMsg_def split: if_splits)
  then show ?thesis using check_proposal_True [OF chk] pre out assms(2) by auto
qed

text \<open>A replica 1 of four, with replica 2 as primary, that knows the key of node 9.\<close>

definition demo_verifier :: signature_verifier where
  "demo_verifier = \<lparr>sv_private_key = \<lparr>ki_key = ''p'', ki_hash_type = HT_ED25519\<rparr>, sv_node_id = 1,
     sv_admin_public_key = \<lparr>ki_key = ''A'', ki_hash_type = HT_RSA\<rparr>, sv_keys = [(9, demo_key 9 ''q'')]\<rparr>"

definition demo_env :: env where
  "demo_env = \<lparr>en_now = 0, en_pos = 0, en_crypto = demo_crypto, en_pre_verify = None\<rparr>"

definition demo_replica :: "collector list \<Rightarrow> unit commitment" where
  "demo_replica cs = new_commitment ((demo_manager_of cs (new_executor None ()) [])
     \<lparr>mm_system_info := \<lparr>si_primary_id = 2, si_view = 1, si_replicas = []\<rparr>\<rparr>) (Some demo_verifier)"

definition demo_proposal :: "uint64 \<Rightarrow> string \<Rightarrow> request" where
  "demo_proposal seq h = empty_request\<lparr>rq_type := TYPE_PRE_PREPARE, rq_seq := seq, rq_current_view := 1, rq_sender_id := 2,
     rq_hash := h, rq_data := ''m'',
     rq_data_signature := Some \<lparr>sg_hash_type = HT_ED25519, sg_node_id = 9, sg_signature = ''qm''\<rparr>\<rparr>"

definition demo_context :: "net_context option" where
  "demo_context = Some \<lparr>cx_signature = \<lparr>sg_hash_type = HT_ED25519, sg_node_id = 2, sg_signature = ''s''\<rparr>, cx_client = None\<rparr>"

definition fresh_collectors :: "collector list" where
  "fresh_collectors = map (\<lambda>i. new_collector (of_nat i) True True) [0 ..< 16]"

lemmas demo_propose_simps = ProcessProposeMsg_def has_signature_def demo_context_def demo_proposal_def demo_replica_def
  new_commitment_def demo_manager_of_def check_proposal_def self_id_def GetCurrentPrimary_def GetPrimaryId_def
  pre_verified_def demo_env_def duplicates_def VerifyMessage_def GetPublicKey_def demo_verifier_def demo_key_def
  VerifyWithKey_def demo_crypto_def data_signature_def CheckAndAddProposed_def AddProposed_def new_duplicate_manager_def
  mm_SetDuplicateManager_def SetDuplicateManager_def set_duplicates_def add_msg_def AddConsensusMsg_def IsValidMsg_def
  mm_view_def GetCurrentView_def GetMaxPendingExecutedSeq_def new_executor_def GetCollector_def pool_idx_def
  ret_of_def SetCollector_def empty_request_def

lemma demo_self: "rep_id (cf_self_info (demo_config ids)) = 1"
  "cd_duplicate_check_frequency_useconds (cf_config_data (demo_config ids)) = 0"
  by (simp_all add: demo_config_def)

text \<open>What the replica sends for a proposal \<open>h\<close> at \<open>seq\<close>.\<close>

definition demo_prepare :: "uint64 \<Rightarrow> string \<Rightarrow> request" where
  "demo_prepare seq h = (NewRequest TYPE_PREPARE (demo_proposal seq h) 1)\<lparr>rq_data := []\<rparr>"

lemma demo_first_prepare:
  "\<exists>s. ProcessProposeMsg demo_env demo_context (demo_proposal 9 ''a'') (demo_replica fresh_collectors)
    = Some (0, s, [Broadcast (demo_prepare 9 ''a'')])"
  by (simp add: demo_propose_simps demo_vote_simps fresh_collectors_def demo_self demo_prepare_def NewRequest_def
      del: upt_rec_numeral)

theorem prepare_is_justified_witness:
  "\<exists>s. ProcessProposeMsg demo_env demo_context (demo_proposal 9 ''a'') (demo_replica fresh_collectors)
      = Some (0, s, [Broadcast (demo_prepare 9 ''a'')])
   \<and> rq_sender_id (demo_proposal 9 ''a'') = GetCurrentPrimary (ct_mm (demo_replica fresh_collectors))"
proof -
  obtain s where s: "ProcessProposeMsg demo_env demo_context (demo_proposal 9 ''a'') (demo_replica fresh_collectors)
    = Some (0, s, [Broadcast (demo_prepare 9 ''a'')])" using demo_first_prepare by blast
  have "rq_sender_id (demo_proposal 9 ''a'') = GetCurrentPrimary (ct_mm (demo_replica fresh_collectors))"
    using prepare_is_justified [OF s, of "demo_prepare 9 ''a''"] by simp
  with s show ?thesis by blast
qed

text \<open>A replica can be made to send PREPARE for two hashes of one view and sequence number. A
  proposal for a sequence number beyond the window is accepted, the collector that remembers it is
  replaced when execution advances, and a second proposal for the same number is accepted again.\<close>

theorem window_reset_prepares_twice:
  "\<exists>s1 m2 s3. ProcessProposeMsg demo_env demo_context (demo_proposal 9 ''a'') (demo_replica fresh_collectors)
        = Some (0, s1, [Broadcast (demo_prepare 9 ''a'')])
   \<and> seq_update_notify 2 (ct_mm s1) = Some m2
   \<and> ProcessProposeMsg demo_env demo_context (demo_proposal 9 ''b'') (s1\<lparr>ct_mm := m2\<rparr>)
        = Some (0, s3, [Broadcast (demo_prepare 9 ''b'')])"
  by (simp add: demo_propose_simps demo_vote_simps fresh_collectors_def demo_self demo_prepare_def NewRequest_def
      seq_update_notify_def pool_Update_def nth_list_update del: upt_rec_numeral)

text \<open>C7: a replica that has seen the messages \<open>es\<close> answers a PREPARE with a COMMIT only if, with this
  message, at least \<open>GetMinDataReceiveNum\<close> different senders sent it a PREPARE for this sequence
  number and this hash; the COMMIT is for them, and the highest prepared number covers it.\<close>

theorem commit_needs_prepare_quorum:
  assumes inv: "mm_inv cfg es (ct_mm s)" and t: "rq_type r = TYPE_PREPARE"
    and step: "ProcessPrepareMsg E context r s = Some (ret, s', out)" "Broadcast c \<in> set out"
  shows "rq_type c = TYPE_COMMIT \<and> rq_hash c = rq_hash r \<and> rq_seq c = rq_seq r \<and> rq_sender_id c = self_id s
    \<and> GetMinDataReceiveNum cfg
        \<le> int (card (insert (rq_sender_id r) (senders_of TYPE_PREPARE (rq_hash r) (rq_seq r) es)))
    \<and> rq_seq r \<le> mm_GetHighestPreparedSeq (ct_mm s')"
proof -
  let ?sig = "cx_signature (the context)"
  obtain s1 where add: "add_msg E ?sig r s = Some (RC_STATE_CHANGED, s1)"
    and s': "s' = (if mm_GetHighestPreparedSeq (ct_mm s1) < rq_seq r
                   then s1\<lparr>ct_mm := mm_SetHighestPreparedSeq (rq_seq r) (ct_mm s1)\<rparr> else s1)"
    and c: "rq_type c = TYPE_COMMIT \<and> rq_hash c = rq_hash r \<and> rq_seq c = rq_seq r \<and> rq_sender_id c = self_id s"
    using step unfolding ProcessPrepareMsg_def recovery_msg_def Let_def by (auto split: handler_splits)
  have cfg: "mm_config (ct_mm s) = cfg" using inv by (simp add: mm_inv_def)
  obtain c0 ret' c' out' where col: "GetCollector (rq_seq r) (mm_pool (ct_mm s)) = Some c0" "IsValidMsg r (ct_mm s)"
    and cs: "coll_step (consensus_cb cfg) (r, ?sig, en_pos E) c0 = Some (ret', c', Some True, out')"
    using add_msg_STATE_CHANGED [OF add] cfg by auto
  let ?ev = "MmMsg (en_pos E) (en_now E) ?sig (Some r)"
  have "slot_ok cfg (es @ [?ev]) c0"
    using inv GetCollector_mem [OF col(1)] by (auto simp: mm_inv_def intro: slot_ok_mono)
  then have slot: "slot_ok cfg (es @ [?ev]) c'" by (rule slot_step(1) [OF _ cs]) (simp add: delivered_single)
  then obtain ces seq ex vc outs rs where
    run: "coll_run (consensus_cb cfg) (new_collector seq ex vc) ces = Some (c', outs, rs)"
    and sub: "fst ` set ces \<subseteq> delivered (es @ [?ev])" by (auto simp: slot_ok_def)
  have seq: "seq = rq_seq r"
  proof -
    have "co_seq c' = seq" using pbft_votes.run_facts(4) [OF run] by simp
    moreover have "co_seq c' = co_seq c0 \<and> co_seq c0 = rq_seq r"
      using cs coll_step_frame(1) [OF cs] by (auto simp: AddRequest_def split: if_splits)
    ultimately show ?thesis by simp
  qed
  have "nat (GetMinDataReceiveNum cfg) \<le> card (co_senders c' TYPE_PREPARE (rq_hash r))"
    using reported_vote [OF cs] t by simp
  also have "\<dots> \<le> card (vote_senders seq TYPE_PREPARE (rq_hash r) ces)"
    by (intro card_mono pbft_votes.run_facts(5) [OF run]) simp
  also have "\<dots> \<le> card (senders_of TYPE_PREPARE (rq_hash r) seq (es @ [?ev]))" by (rule vote_senders_of [OF sub])
  also have "\<dots> \<le> card (insert (rq_sender_id r) (senders_of TYPE_PREPARE (rq_hash r) (rq_seq r) es))"
    by (intro card_mono) (auto simp: senders_of_def delivered_single seq)
  finally show ?thesis using c s'
    by (auto simp: nat_le_iff mm_GetHighestPreparedSeq_def mm_SetHighestPreparedSeq_def GetHighestPreparedSeq_def
        SetHighestPreparedSeq_def)
qed

text \<open>Three PREPARE messages reach a replica that has accepted a proposal.\<close>

definition demo_one :: "unit commitment" where
  "demo_one = demo_replica (demo_collectors ((new_collector 1 True True)\<lparr>co_main := \<lparr>ap_ptr = Some
       \<lparr>ri_request = Some (fst (demo_vote TYPE_PRE_PREPARE 1 ''h'')), ri_signature = empty_signature\<rparr>, ap_v = 2\<rparr>,
       co_status := READY_PREPARE, co_view := 1, co_senders := (\<lambda>t h. if t = TYPE_PREPARE \<and> h = ''h'' then {2, 3} else {}),
       co_prepared_proof := map (\<lambda>i. \<lparr>ri_request = Some (fst (demo_vote TYPE_PREPARE i ''h'')), ri_signature = empty_signature\<rparr>) [2, 3]\<rparr>))"

definition demo_history :: "mm_event list" where
  "demo_history = map (\<lambda>r. MmMsg 0 0 empty_signature (Some (fst r)))
     [demo_vote TYPE_PRE_PREPARE 1 ''h'', demo_vote TYPE_PREPARE 2 ''h'', demo_vote TYPE_PREPARE 3 ''h'']"

lemma demo_one_run:
  "coll_run (consensus_cb (demo_config [1, 2, 3, 4])) (new_collector 1 True True)
     [demo_vote TYPE_PRE_PREPARE 1 ''h'', demo_vote TYPE_PREPARE 2 ''h'', demo_vote TYPE_PREPARE 3 ''h'']
   = Some ((new_collector 1 True True)\<lparr>co_main := \<lparr>ap_ptr = Some
       \<lparr>ri_request = Some (fst (demo_vote TYPE_PRE_PREPARE 1 ''h'')), ri_signature = empty_signature\<rparr>, ap_v = 2\<rparr>,
       co_status := READY_PREPARE, co_view := 1, co_senders := (\<lambda>t h. if t = TYPE_PREPARE \<and> h = ''h'' then {2, 3} else {}),
       co_prepared_proof := map (\<lambda>i. \<lparr>ri_request = Some (fst (demo_vote TYPE_PREPARE i ''h'')), ri_signature = empty_signature\<rparr>) [2, 3]\<rparr>,
     [], [(fst (demo_vote TYPE_PRE_PREPARE 1 ''h''), True), (fst (demo_vote TYPE_PREPARE 2 ''h''), False),
          (fst (demo_vote TYPE_PREPARE 3 ''h''), False)])"
  by (auto simp: demo_vote_simps fun_eq_iff)

lemma demo_one_inv: "mm_inv (demo_config [1, 2, 3, 4]) demo_history (ct_mm demo_one)"
proof -
  let ?c = "(new_collector 1 True True)\<lparr>co_main := \<lparr>ap_ptr = Some
       \<lparr>ri_request = Some (fst (demo_vote TYPE_PRE_PREPARE 1 ''h'')), ri_signature = empty_signature\<rparr>, ap_v = 2\<rparr>,
       co_status := READY_PREPARE, co_view := 1, co_senders := (\<lambda>t h. if t = TYPE_PREPARE \<and> h = ''h'' then {2, 3} else {}),
       co_prepared_proof := map (\<lambda>i. \<lparr>ri_request = Some (fst (demo_vote TYPE_PREPARE i ''h'')), ri_signature = empty_signature\<rparr>) [2, 3]\<rparr>"
  have c: "slot_ok (demo_config [1, 2, 3, 4]) demo_history ?c"
    unfolding slot_ok_def
    by (rule exI, rule exI, rule exI, rule exI, rule exI, rule exI, rule conjI, rule demo_one_run)
      (auto simp: delivered_def demo_history_def)
  have "set (demo_collectors ?c) \<subseteq> insert ?c (set (map (\<lambda>i. new_collector (of_nat i) True True) [0 ..< 16]))"
    unfolding demo_collectors_def by (rule set_update_subset_insert)
  then have "\<forall>x \<in> set (demo_collectors ?c). slot_ok (demo_config [1, 2, 3, 4]) demo_history x"
    using c slot_ok_new by (auto simp del: upt_rec_numeral)
  then show ?thesis
    by (simp add: mm_inv_def demo_one_def demo_replica_def new_commitment_def demo_manager_of_def
        mm_SetDuplicateManager_def SetDuplicateManager_def new_executor_def)
qed

theorem commit_needs_prepare_quorum_witness:
  "\<exists>ret s' c. ProcessPrepareMsg demo_env demo_context (fst (demo_vote TYPE_PREPARE 4 ''h'')) demo_one
      = Some (ret, s', [Broadcast c])
   \<and> 3 \<le> int (card (insert 4 (senders_of TYPE_PREPARE ''h'' 1 demo_history)))"
proof -
  have "\<exists>ret s' c. ProcessPrepareMsg demo_env demo_context (fst (demo_vote TYPE_PREPARE 4 ''h'')) demo_one
      = Some (ret, s', [Broadcast c])"
    by (simp add: demo_one_def ProcessPrepareMsg_def demo_propose_simps demo_vote_simps demo_collectors_def
        NewRequest_def empty_signature_def del: upt_rec_numeral)
  then obtain ret s' c where step: "ProcessPrepareMsg demo_env demo_context (fst (demo_vote TYPE_PREPARE 4 ''h'')) demo_one
      = Some (ret, s', [Broadcast c])" by blast
  then show ?thesis using commit_needs_prepare_quorum [OF demo_one_inv _ step, of c] by (simp add: demo_config_4)
qed

section \<open>The proposals of a primary\<close>

text \<open>Requests arrive, and the thread of the duplicate manager forgets old hashes.\<close>

datatype primary_event = PrNew env "net_context option" request | PrExpire uint64

definition expire_hashes :: "uint64 \<Rightarrow> 's commitment \<Rightarrow> 's commitment" where
  "expire_hashes time s = (case duplicates s of None \<Rightarrow> s | Some d \<Rightarrow> set_duplicates (UpdateRecentHash_step time d) s)"

fun new_requests :: "'s commitment \<Rightarrow> primary_event list \<Rightarrow> ('s commitment \<times> out_msg list) option" where
  "new_requests s [] = Some (s, [])"
| "new_requests s (PrNew E cx r # xs) =
     (case ProcessNewRequest E cx r s of
        None \<Rightarrow> None
      | Some (ret, s1, out) \<Rightarrow> map_option (\<lambda>(s2, outs). (s2, out @ outs)) (new_requests s1 xs))"
| "new_requests s (PrExpire time # xs) = new_requests (expire_hashes time s) xs"

lemma expire_hashes_next [simp]: "mm_next_seq (ct_mm (expire_hashes time s)) = mm_next_seq (ct_mm s)"
  by (simp add: expire_hashes_def set_duplicates_def mm_SetDuplicateManager_def split: option.splits)

definition broadcasts :: "out_msg list \<Rightarrow> request list" where
  "broadcasts out = List.map_filter (\<lambda>m. case m of Broadcast r \<Rightarrow> Some r | _ \<Rightarrow> None) out"

lemma broadcasts_simps [simp]:
  "broadcasts [] = []" "broadcasts (Broadcast r # out) = r # broadcasts out"
  "broadcasts (SendTo r i # out) = broadcasts out" "broadcasts (out @ out') = broadcasts out @ broadcasts out'"
  by (simp_all add: broadcasts_def map_filter_simps map_filter_def)

definition proposed :: "'s commitment \<Rightarrow> string set" where
  "proposed s = (case duplicates s of None \<Rightarrow> {} | Some d \<Rightarrow> dm_proposed_hash_set d)"

lemma propose_request_cases:
  assumes "propose_request E d r s = Some (ret, s', out)" "duplicates s = Some d"
  shows "broadcasts out = [] \<and> mm_next_seq (ct_mm s') = mm_next_seq (ct_mm s) \<and> proposed s' = proposed s
    \<or> (\<exists>p. broadcasts out = [p] \<and> rq_seq p = mm_next_seq (ct_mm s) \<and> rq_hash p = rq_hash r
         \<and> mm_next_seq (ct_mm s') = mm_next_seq (ct_mm s) + 1
         \<and> rq_hash r \<notin> proposed s \<and> proposed s' = insert (rq_hash r) (proposed s))"
proof (cases "rq_hash r \<in> dm_proposed_hash_set d")
  case True
  then show ?thesis using assms by (auto simp: propose_request_def CheckAndAddProposed_def proposed_def)
next
  case False
  let ?d = "AddProposed (rq_hash r) (en_now E) d"
  let ?s = "set_duplicates ?d s"
  have eq: "dm_proposed_hash_set (EraseProposed (rq_hash r) ?d) = dm_proposed_hash_set d"
    "dm_proposed_hash_set ?d = insert (rq_hash r) (dm_proposed_hash_set d)"
    using False by (auto simp: EraseProposed_def AddProposed_def)
  have nx: "mm_next_seq (ct_mm ?s) = mm_next_seq (ct_mm s)" "duplicates (?s\<lparr>ct_mm := (ct_mm ?s)\<lparr>mm_next_seq := n\<rparr>\<rparr>) = Some ?d" for n
    by (simp_all add: duplicates_def set_duplicates_def mm_SetDuplicateManager_def SetDuplicateManager_def)
  show ?thesis using assms False nx eq
    by (auto simp: propose_request_def CheckAndAddProposed_def AssignNextSeq_def Let_def proposal_def proposed_def
        split: if_splits)
qed

lemma ProcessNewRequest_cases:
  assumes "ProcessNewRequest E cx r s = Some (ret, s', out)"
  shows "broadcasts out = [] \<and> mm_next_seq (ct_mm s') = mm_next_seq (ct_mm s) \<and> proposed s' = proposed s
    \<or> (\<exists>p. broadcasts out = [p] \<and> rq_seq p = mm_next_seq (ct_mm s) \<and> rq_hash p = rq_hash r
         \<and> mm_next_seq (ct_mm s') = mm_next_seq (ct_mm s) + 1
         \<and> rq_hash r \<notin> proposed s \<and> proposed s' = insert (rq_hash r) (proposed s))"
proof -
  have resp: "mm_next_seq (SendResponse now q m) = mm_next_seq m" "mm_executor (SendResponse now q m) = mm_executor m"
    for now q and m :: "'a message_manager"
    by (simp_all add: SendResponse_def Let_def)
  consider "broadcasts out = [] \<and> mm_next_seq (ct_mm s') = mm_next_seq (ct_mm s) \<and> proposed s' = proposed s"
    | d where "duplicates s = Some d" "propose_request E d r s = Some (ret, s', out)"
    using assms unfolding ProcessNewRequest_def
    by (auto simp: proposed_def duplicates_def resp split: handler_splits)
  then show ?thesis
  proof cases
    case 1
    then show ?thesis by blast
  next
    case 2
    then show ?thesis using propose_request_cases by blast
  qed
qed

text \<open>C29: whatever requests reach a primary, and however the clock, the user's check and the thread that
  forgets old hashes behave, the proposals it broadcasts carry consecutive sequence numbers from its
  counter on. In a run in which no hash is forgotten no hash is proposed twice, neither among the
  proposals nor again if it had been recorded before; a hash that was forgotten may be proposed again.\<close>

theorem proposals_numbered_consecutively:
  assumes "new_requests s xs = Some (s', out)"
  shows "map rq_seq (broadcasts out) = map (\<lambda>i. mm_next_seq (ct_mm s) + of_nat i) [0 ..< length (broadcasts out)]
    \<and> mm_next_seq (ct_mm s') = mm_next_seq (ct_mm s) + of_nat (length (broadcasts out))
    \<and> ((\<forall>time. PrExpire time \<notin> set xs) \<longrightarrow>
         distinct (map rq_hash (broadcasts out)) \<and> rq_hash ` set (broadcasts out) \<inter> proposed s = {})"
  using assms
proof (induction xs arbitrary: s out)
  case (Cons x xs)
  show ?case
  proof (cases x)
    case (PrExpire time)
    then show ?thesis using Cons.IH [of "expire_hashes time s" out] Cons.prems by auto
  next
    case (PrNew E cx r)
    obtain ret s1 out1 out2 where st: "ProcessNewRequest E cx r s = Some (ret, s1, out1)"
      and run: "new_requests s1 xs = Some (s', out2)" and out: "out = out1 @ out2"
      using Cons.prems by (auto simp: PrNew split: option.splits)
    note IH = Cons.IH [OF run]
    from ProcessNewRequest_cases [OF st] show ?thesis
    proof (elim disjE exE conjE)
      assume "broadcasts out1 = []" "mm_next_seq (ct_mm s1) = mm_next_seq (ct_mm s)" "proposed s1 = proposed s"
      then show ?thesis using IH out PrNew by simp
    next
      fix p assume p: "broadcasts out1 = [p]" "rq_seq p = mm_next_seq (ct_mm s)" "rq_hash p = rq_hash r"
        "mm_next_seq (ct_mm s1) = mm_next_seq (ct_mm s) + 1" "rq_hash r \<notin> proposed s"
        "proposed s1 = insert (rq_hash r) (proposed s)"
      have "map rq_seq (broadcasts out) = mm_next_seq (ct_mm s)
          # map (\<lambda>i. mm_next_seq (ct_mm s) + of_nat (Suc i)) [0 ..< length (broadcasts out2)]"
        using IH p(1,2,4) out by (simp add: algebra_simps)
      then have "map rq_seq (broadcasts out) = map (\<lambda>i. mm_next_seq (ct_mm s) + of_nat i) [0 ..< length (broadcasts out)]"
        using p(1) out by (simp add: upt_conv_Cons map_Suc_upt [symmetric] del: upt_Suc of_nat_Suc)
      moreover have "mm_next_seq (ct_mm s') = mm_next_seq (ct_mm s) + of_nat (length (broadcasts out))"
        using IH p(1,4) out by simp
      moreover have "distinct (map rq_hash (broadcasts out)) \<and> rq_hash ` set (broadcasts out) \<inter> proposed s = {}"
        if "\<forall>time. PrExpire time \<notin> set (x # xs)" using IH p(1,3,5,6) out that by auto
      ultimately show ?thesis by blast
    qed
  qed
qed simp

definition demo_primary :: "unit commitment" where
  "demo_primary = new_commitment (demo_manager_of [] (new_executor None ()) []) (Some demo_verifier)"

definition demo_arrivals :: "primary_event list" where
  "demo_arrivals = map (\<lambda>h. PrNew demo_env demo_context (demo_proposal 0 h)) [''a'', ''a'', ''b'']"

theorem proposals_numbered_consecutively_witness:
  "\<exists>s' out. new_requests demo_primary demo_arrivals = Some (s', out)
     \<and> map rq_hash (broadcasts out) = [''a'', ''b''] \<and> map rq_seq (broadcasts out) = [1, 2]"
proof -
  have "\<exists>s' out. new_requests demo_primary demo_arrivals = Some (s', out) \<and> map rq_hash (broadcasts out) = [''a'', ''b'']"
    by (simp add: demo_arrivals_def demo_primary_def ProcessNewRequest_def demo_propose_simps CheckIfExecuted_def demo_self
        propose_request_def Let_def AssignNextSeq_def proposal_def GetMaxProcessTxn_def demo_config_def)
  then obtain s' out where run: "new_requests demo_primary demo_arrivals = Some (s', out)"
    and h: "map rq_hash (broadcasts out) = [''a'', ''b'']" by (elim exE conjE)
  have "length (broadcasts out) = 2" using arg_cong [OF h, of length] by simp
  moreover have "mm_next_seq (ct_mm demo_primary) = 1"
    by (simp add: demo_primary_def new_commitment_def mm_SetDuplicateManager_def demo_manager_of_def)
  ultimately have "map rq_seq (broadcasts out) = [1, 2]"
    using proposals_numbered_consecutively [OF run] by (simp add: upt_rec)
  with run h show ?thesis by (intro exI conjI)
qed

end
