(* ===== verification/Response_Manager.thy ===== *)
theory Response_Manager
  imports Commitment
begin

text \<open>
  \<open>ResponseManager\<close> (platform/consensus/ordering/pbft/response_manager.cpp): the proxy between the
  clients and the replicas. It batches user requests and sends each batch to the primary, counts
  the responses of the replicas in a collector per batch, answers the clients of a batch once
  enough replicas answered, and sends a batch that is not answered in time to all replicas.

  A thread is modelled by one iteration of its loop. The local variable \<open>batch_req\<close> of
  \<open>BatchProposeMsg\<close> lives across iterations and is the field \<open>rm_batch_req\<close>. The codec of the batch
  messages and the clock are arguments. \<open>None\<close> is undefined behaviour.
\<close>

record client_timeout =
  to_hash :: string
  to_timeout_time :: uint64

record response_manager =
  rm_config :: resdb_config
  rm_pool :: collector_pool
  rm_context_pool :: collector_pool
  rm_batch_queue :: "(net_context \<times> request) list"
  rm_batch_req :: "(net_context \<times> request) list"
  rm_local_id :: uint64
  rm_system_info :: system_info
  rm_send_num :: int
  rm_verifier :: "signature_verifier option"
  rm_waiting :: "(string, request option) std_map"
  rm_timeouts :: "client_timeout list"
  rm_timeout_length :: uint64
  rm_signals :: nat

record batch_codec =
  bc_ser_batch :: "batch_user_request \<Rightarrow> string"
  bc_parse_response :: "string \<Rightarrow> batch_user_response option"

text \<open>\<open>request_sent_signal_\<close> is never initialised: \<open>sem\<close> is the value found there.\<close>

definition new_response_manager ::
  "resdb_config \<Rightarrow> system_info \<Rightarrow> signature_verifier option \<Rightarrow> nat \<Rightarrow> response_manager option" where
  "new_response_manager cfg si verifier sem =
     (case new_pool (GetMaxProcessTxn cfg) False False of
        None \<Rightarrow> None
      | Some p \<Rightarrow>
          Some \<lparr>rm_config = cfg, rm_pool = p, rm_context_pool = p, rm_batch_queue = [], rm_batch_req = [],
                rm_local_id = 1, rm_system_info = si, rm_send_num = 0, rm_verifier = verifier,
                rm_waiting = [], rm_timeouts = [], rm_timeout_length = 5000000, rm_signals = sem\<rparr>)"

definition rm_GetPrimary :: "response_manager \<Rightarrow> int" where
  "rm_GetPrimary s = sint (GetPrimaryId (rm_system_info s))"

section \<open>The contexts of a batch\<close>

definition AddContextList :: "net_context list \<Rightarrow> uint64 \<Rightarrow> response_manager \<Rightarrow> (int \<times> response_manager) option" where
  "AddContextList cxs i s =
     map_option (\<lambda>c. let (ret, c') = SetContextList i cxs c
                     in (ret, s\<lparr>rm_context_pool := SetCollector i c' (rm_context_pool s)\<rparr>))
       (GetCollector i (rm_context_pool s))"

definition rm_FetchContextList :: "uint64 \<Rightarrow> response_manager \<Rightarrow> (net_context list \<times> response_manager) option" where
  "rm_FetchContextList i s =
     (case GetCollector i (rm_context_pool s) of
        None \<Rightarrow> None
      | Some c \<Rightarrow>
          let (cxs, c') = FetchContextList i c
          in map_option (\<lambda>p. (cxs, s\<lparr>rm_context_pool := p\<rparr>)) (pool_Update i (SetCollector i c' (rm_context_pool s))))"

definition NewUserRequest :: "net_context \<Rightarrow> request \<Rightarrow> response_manager \<Rightarrow> int \<times> response_manager" where
  "NewUserRequest cx r s =
     (0, s\<lparr>rm_batch_queue := rm_batch_queue s @
            [(if rq_need_response r then cx else cx\<lparr>cx_client := None\<rparr>, r)]\<rparr>)"

section \<open>Requests that wait for a response\<close>

definition AddWaitingResponseRequest :: "uint64 \<Rightarrow> request \<Rightarrow> response_manager \<Rightarrow> response_manager" where
  "AddWaitingResponseRequest now r s =
     (if \<not> cd_enable_viewchange (cf_config_data (rm_config s)) then s
      else s\<lparr>rm_timeouts := \<lparr>to_hash = rq_hash r, to_timeout_time = now + rm_timeout_length s\<rparr> # rm_timeouts s,
             rm_waiting := sm_insert (rq_hash r) (Some r) (rm_waiting s), rm_signals := Suc (rm_signals s)\<rparr>)"

definition RemoveWaitingResponseRequest :: "string \<Rightarrow> response_manager \<Rightarrow> response_manager" where
  "RemoveWaitingResponseRequest hash s =
     (if \<not> cd_enable_viewchange (cf_config_data (rm_config s)) then s
      else s\<lparr>rm_waiting := sm_erase hash (rm_waiting s)\<rparr>)"

definition CheckTimeOut :: "string \<Rightarrow> response_manager \<Rightarrow> bool" where
  "CheckTimeOut hash s \<longleftrightarrow> sm_find hash (rm_waiting s) \<noteq> None"

text \<open>The request is moved out of the map: its key stays there with a null pointer.\<close>

definition GetTimeOutRequest :: "string \<Rightarrow> response_manager \<Rightarrow> (request option \<times> response_manager) option" where
  "GetTimeOutRequest hash s =
     map_option (\<lambda>ro. (ro, s\<lparr>rm_waiting := sm_put hash None (rm_waiting s)\<rparr>)) (sm_find hash (rm_waiting s))"

text \<open>The top of the heap is a timeout with the least time; \<open>pos\<close> chooses among equal ones.\<close>

definition top_timeout :: "nat \<Rightarrow> client_timeout list \<Rightarrow> client_timeout" where
  "top_timeout pos ts =
     (let m = Min (to_timeout_time ` set ts); cands = filter (\<lambda>t. to_timeout_time t = m) ts
      in cands ! (pos mod length cands))"

definition MonitoringClientTimeOut_step :: "env \<Rightarrow> response_manager \<Rightarrow> (response_manager \<times> out_msg list) option" where
  "MonitoringClientTimeOut_step E s =
     (if rm_signals s = 0 then Some (s, [])
      else let s1 = s\<lparr>rm_signals := rm_signals s - 1\<rparr>
      in if rm_timeouts s1 = [] then Some (s1, [])
         else let t = top_timeout (en_pos E) (rm_timeouts s1);
                  s2 = s1\<lparr>rm_timeouts := remove1 t (rm_timeouts s1)\<rparr>
              in if CheckTimeOut (to_hash t) s2
                 then map_option (\<lambda>(ro, s3). (s3, map Broadcast (opt_list ro))) (GetTimeOutRequest (to_hash t) s2)
                 else Some (s2, []))"

section \<open>Responses\<close>

definition rm_MayConsensusChangeStatus ::
  "resdb_config \<Rightarrow> request_type \<Rightarrow> int \<Rightarrow> TransactionStatue \<Rightarrow> TransactionStatue \<times> bool" where
  "rm_MayConsensusChangeStatus cfg t count status =
     (if t = TYPE_RESPONSE \<and> status = STATUE_None \<and> GetMinClientReceiveNum cfg \<le> count
      then (EXECUTED, True) else (status, False))"

definition response_cb :: "resdb_config \<Rightarrow> request option callback" where
  "response_cb cfg r count status force =
     (let (st, ch) = rm_MayConsensusChangeStatus cfg (rq_type r) (int count) status
      in (st, if ch then Some r else None))"

text \<open>The second component is the request that the callback copied.\<close>

definition AddResponseMsg ::
  "env \<Rightarrow> batch_codec \<Rightarrow> signature_info \<Rightarrow> request \<Rightarrow> response_manager
     \<Rightarrow> (CollectorResultCode \<times> request option \<times> response_manager) option" where
  "AddResponseMsg E B sig r s =
     (case bc_parse_response B (rq_data r) of
        None \<Rightarrow> Some (RC_INVALID, None, RemoveWaitingResponseRequest (rq_hash r) s)
      | Some resp \<Rightarrow>
          let seq = rs_local_id resp; r1 = r\<lparr>rq_seq := seq\<rparr>
          in case GetCollector seq (rm_pool s) of
               None \<Rightarrow> None
             | Some c \<Rightarrow>
                 (case AddRequest (en_pos E) (response_cb (rm_config s)) (Some r1) sig False c of
                    None \<Rightarrow> None
                  | Some (ret, c', res, _) \<Rightarrow>
                      let s1 = s\<lparr>rm_pool := SetCollector seq c' (rm_pool s)\<rparr>
                      in if ret \<noteq> 0 then Some (RC_INVALID, None, s1)
                         else case Option.bind res (\<lambda>x. x) of
                                None \<Rightarrow> Some (RC_OK, None, s1)
                              | Some x \<Rightarrow>
                                  map_option (\<lambda>p. (RC_STATE_CHANGED, Some x,
                                      RemoveWaitingResponseRequest (rq_hash r) (s1\<lparr>rm_pool := p\<rparr>)))
                                    (pool_Update seq (rm_pool s1))))"

text \<open>\<open>response(i)\<close> for an index past the end of the repeated field is undefined.\<close>

fun client_answers :: "net_context list \<Rightarrow> string list \<Rightarrow> out_msg list option" where
  "client_answers [] _ = Some []"
| "client_answers (cx # cxs) rs =
     (case cx_client cx of
        None \<Rightarrow> client_answers cxs (tl rs)
      | Some ch \<Rightarrow>
          (case rs of
             [] \<Rightarrow> None
           | x # xs \<Rightarrow> map_option (Cons (SendClient ch x)) (client_answers cxs xs)))"

definition SendResponseToClient ::
  "batch_user_response \<Rightarrow> response_manager \<Rightarrow> (response_manager \<times> out_msg list) option" where
  "SendResponseToClient resp s =
     (let s1 = s\<lparr>rm_send_num := i32 (rm_send_num s - 1)\<rparr>
      in if IsPerformanceRunning (rm_config s1) then Some (s1, [])
         else case rm_FetchContextList (rs_local_id resp) s1 of
                None \<Rightarrow> None
              | Some (cxs, s2) \<Rightarrow> map_option (Pair s2) (client_answers cxs (rs_response resp)))"

definition ProcessResponseMsg ::
  "env \<Rightarrow> batch_codec \<Rightarrow> net_context \<Rightarrow> request \<Rightarrow> response_manager
     \<Rightarrow> (int \<times> response_manager \<times> out_msg list) option" where
  "ProcessResponseMsg E B cx r s =
     (if rq_ret r = -2 then Some (0, s\<lparr>rm_send_num := i32 (rm_send_num s - 1)\<rparr>, [])
      else case AddResponseMsg E B (cx_signature cx) r s of
             None \<Rightarrow> None
           | Some (RC_STATE_CHANGED, Some x, s1) \<Rightarrow>
               (case bc_parse_response B (rq_data x) of
                  None \<Rightarrow> Some (0, s1, [])
                | Some resp \<Rightarrow> map_option (\<lambda>(s2, out). (0, s2, out)) (SendResponseToClient resp s1))
           | Some (code, _, s1) \<Rightarrow> Some (if code = RC_INVALID then -2 else 0, s1, []))"

section \<open>Batches\<close>

definition user_batch :: "(net_context \<times> request) list \<Rightarrow> batch_user_request" where
  "user_batch items = empty_batch\<lparr>br_user_requests :=
     map (\<lambda>(i, cx, r). \<lparr>ur_request = r, ur_signature = cx_signature cx, ur_id = int i\<rparr>) (enumerate 0 items)\<rparr>"

definition batch_request :: "env \<Rightarrow> batch_codec \<Rightarrow> response_manager \<Rightarrow> batch_user_request \<Rightarrow> request" where
  "batch_request E B s b =
     (let self = rep_id (cf_self_info (rm_config s)); data = bc_ser_batch B b
      in (NewRequest TYPE_NEW_TXNS empty_request self)
           \<lparr>rq_data_signature := map_option (\<lambda>sv. SignMessage (en_crypto E) sv data) (rm_verifier s),
            rq_data := data, rq_hash := CalculateHash (en_crypto E) data, rq_proxy_id := self\<rparr>)"

definition DoBatch ::
  "env \<Rightarrow> batch_codec \<Rightarrow> (net_context \<times> request) list \<Rightarrow> response_manager
     \<Rightarrow> (int \<times> response_manager \<times> out_msg list) option" where
  "DoBatch E B items s =
     (let b = user_batch items
      in case (if IsPerformanceRunning (rm_config s) then Some (0, s, b)
               else map_option (\<lambda>(ret, s1). (ret, s1\<lparr>rm_local_id := rm_local_id s + 1\<rparr>, b\<lparr>br_local_id := rm_local_id s\<rparr>))
                      (AddContextList (map fst items) (rm_local_id s) s)) of
           None \<Rightarrow> None
         | Some (ret, s1, b1) \<Rightarrow>
             if ret \<noteq> 0 then Some (ret, s1, [])
             else let r = batch_request E B s1 (b1\<lparr>br_createtime := en_now E\<rparr>)
                  in Some (0, AddWaitingResponseRequest (en_now E) r (s1\<lparr>rm_send_num := i32 (rm_send_num s1 + 1)\<rparr>),
                           [SendTo r (rm_GetPrimary s1)]))"

text \<open>One iteration; \<open>popped\<close> says whether \<open>Pop\<close> returned an item before its timeout, which it can only
  do when there is one. The comparison \<open>send_num_ > GetMaxProcessTxn()\<close> is between an \<open>int\<close> and a
  \<open>uint32_t\<close> and is unsigned. After a failure the error loop runs over the cleared vector.\<close>

definition pop_item :: "bool \<Rightarrow> response_manager \<Rightarrow> (net_context \<times> request) option \<times> response_manager" where
  "pop_item popped s =
     (case rm_batch_queue s of
        x # q \<Rightarrow> if popped then (Some x, s\<lparr>rm_batch_queue := q\<rparr>) else (None, s)
      | [] \<Rightarrow> (None, s))"

definition send_batch :: "env \<Rightarrow> batch_codec \<Rightarrow> response_manager \<Rightarrow> (response_manager \<times> out_msg list) option" where
  "send_batch E B s =
     (if rm_batch_req s = [] then Some (s, [])
      else map_option (\<lambda>(_, s1, out). (s1\<lparr>rm_batch_req := []\<rparr>, out)) (DoBatch E B (rm_batch_req s) s))"

definition BatchProposeMsg_step ::
  "env \<Rightarrow> batch_codec \<Rightarrow> bool \<Rightarrow> response_manager \<Rightarrow> (response_manager \<times> out_msg list) option" where
  "BatchProposeMsg_step E B popped s =
     (let full = (\<lambda>t. unat (ClientBatchNum (rm_config t)) \<le> length (rm_batch_req t))
      in if (word_of_int (rm_send_num s) :: uint32) > GetMaxProcessTxn (rm_config s) then Some (s, [])
         else if full s then send_batch E B s
         else case pop_item popped s of
                (None, s1) \<Rightarrow> send_batch E B s1
              | (Some x, s1) \<Rightarrow>
                  let s2 = s1\<lparr>rm_batch_req := rm_batch_req s1 @ [x]\<rparr>
                  in if full s2 then send_batch E B s2 else Some (s2, []))"

section \<open>Runs of the proxy\<close>

datatype rm_event =
    RmUser net_context request
  | RmResponse env net_context request
  | RmBatch env bool
  | RmTimeout env

fun rm_step :: "batch_codec \<Rightarrow> rm_event \<Rightarrow> response_manager \<Rightarrow> (response_manager \<times> out_msg list) option" where
  "rm_step B (RmUser cx r) s = Some (snd (NewUserRequest cx r s), [])"
| "rm_step B (RmResponse E cx r) s = map_option snd (ProcessResponseMsg E B cx r s)"
| "rm_step B (RmBatch E popped) s = BatchProposeMsg_step E B popped s"
| "rm_step B (RmTimeout E) s = MonitoringClientTimeOut_step E s"

fun rm_run :: "batch_codec \<Rightarrow> response_manager \<Rightarrow> rm_event list \<Rightarrow> (response_manager \<times> out_msg list) option" where
  "rm_run B s [] = Some (s, [])"
| "rm_run B s (e # es) =
     (case rm_step B e s of
        None \<Rightarrow> None
      | Some (s1, out1) \<Rightarrow> map_option (\<lambda>(s2, out2). (s2, out1 @ out2)) (rm_run B s1 es))"

text \<open>The senders of the responses to a batch that have arrived, by the hash they name.\<close>

definition response_senders :: "batch_codec \<Rightarrow> string \<Rightarrow> uint64 \<Rightarrow> rm_event list \<Rightarrow> int set" where
  "response_senders B h lid es =
     rq_sender_id ` {r. (\<exists>E cx. RmResponse E cx r \<in> set es) \<and> rq_type r = TYPE_RESPONSE \<and> rq_hash r = h
        \<and> map_option rs_local_id (bc_parse_response B (rq_data r)) = Some lid}"

definition response_votes_ok :: "batch_codec \<Rightarrow> rm_event list \<Rightarrow> collector \<Rightarrow> bool" where
  "response_votes_ok B es c \<longleftrightarrow> (\<forall>h. co_senders c TYPE_RESPONSE h \<subseteq> response_senders B h (co_seq c) es)"

definition rm_inv :: "resdb_config \<Rightarrow> batch_codec \<Rightarrow> rm_event list \<Rightarrow> response_manager \<Rightarrow> bool" where
  "rm_inv cfg B es s \<longleftrightarrow> rm_config s = cfg \<and> (\<forall>c \<in> set (po_collector (rm_pool s)). response_votes_ok B es c)"

lemma finite_response_senders [simp]: "finite (response_senders B h lid es)"
proof -
  have "{r. \<exists>E cx. RmResponse E cx r \<in> set es} \<subseteq> (\<lambda>e. case e of RmResponse E cx r \<Rightarrow> r | _ \<Rightarrow> empty_request) ` set es"
    by (force split: rm_event.splits)
  then have "finite {r. \<exists>E cx. RmResponse E cx r \<in> set es}" by (rule finite_subset) simp
  then show ?thesis unfolding response_senders_def by (intro finite_imageI) (rule finite_subset, auto)
qed

lemma response_senders_mono: "set es \<subseteq> set es' \<Longrightarrow> response_senders B h lid es \<subseteq> response_senders B h lid es'"
  unfolding response_senders_def by blast

lemma response_votes_mono: "response_votes_ok B es c \<Longrightarrow> set es \<subseteq> set es' \<Longrightarrow> response_votes_ok B es' c"
  unfolding response_votes_ok_def using response_senders_mono by blast

lemma response_votes_new [simp]: "response_votes_ok B es (new_collector seq ex vc)"
  by (simp add: response_votes_ok_def new_collector_def)

lemma new_pool_collectors: "new_pool sz ex vc = Some p \<Longrightarrow> c \<in> set (po_collector p) \<Longrightarrow> \<exists>i. c = new_collector i ex vc"
  by (auto simp: new_pool_def split: option.splits)

lemma pool_Update_collectors:
  "pool_Update seq p = Some p' \<Longrightarrow> c \<in> set (po_collector p') \<Longrightarrow>
     c \<in> set (po_collector p) \<or> (\<exists>i. c = new_collector i (po_has_executor p) (po_enable_viewchange p))"
  unfolding pool_Update_def Let_def by (auto split: if_splits dest!: set_update_subset_insert [THEN subsetD])

lemma SetCollector_collectors: "c \<in> set (po_collector (SetCollector seq c' p)) \<Longrightarrow> c \<in> set (po_collector p) \<or> c = c'"
  unfolding SetCollector_def by (auto dest!: set_update_subset_insert [THEN subsetD])

lemma GetCollector_collectors: "GetCollector seq p = Some c \<Longrightarrow> c \<in> set (po_collector p)"
  by (auto simp: GetCollector_def Let_def split: if_splits)

text \<open>Only a response touches the collectors; it is counted for the sequence number it names.\<close>

lemma other_steps_pool:
  "NewUserRequest cx r s = (ret, s1) \<Longrightarrow> rm_pool s1 = rm_pool s \<and> rm_config s1 = rm_config s"
  "MonitoringClientTimeOut_step E s = Some (s2, out2) \<Longrightarrow> rm_pool s2 = rm_pool s \<and> rm_config s2 = rm_config s"
  by (auto simp: NewUserRequest_def MonitoringClientTimeOut_step_def GetTimeOutRequest_def Let_def split: if_splits)

lemma DoBatch_pool:
  assumes "DoBatch E B items s = Some (ret, s', out)"
  shows "rm_pool s' = rm_pool s \<and> rm_config s' = rm_config s"
  using assms unfolding DoBatch_def AddContextList_def AddWaitingResponseRequest_def Let_def
  by (auto split: if_splits option.splits prod.splits)

lemma send_batch_pool:
  "send_batch E B s = Some (s', out) \<Longrightarrow> rm_pool s' = rm_pool s \<and> rm_config s' = rm_config s"
  by (auto simp: send_batch_def split: if_splits dest: DoBatch_pool)

lemma BatchProposeMsg_pool:
  assumes "BatchProposeMsg_step E B popped s = Some (s', out)"
  shows "rm_pool s' = rm_pool s \<and> rm_config s' = rm_config s"
  using assms unfolding BatchProposeMsg_step_def pop_item_def Let_def
  by (auto split: if_splits option.splits prod.splits list.splits dest!: send_batch_pool)

lemma response_cb_Some:
  "response_cb cfg r n st force = (st', Some x) \<Longrightarrow>
     x = r \<and> rq_type r = TYPE_RESPONSE \<and> st = STATUE_None \<and> st' = EXECUTED \<and> GetMinClientReceiveNum cfg \<le> int n"
  by (auto simp: response_cb_def rm_MayConsensusChangeStatus_def split: if_splits)

lemma response_vote:
  assumes "AddRequest pos (response_cb cfg) (Some r) sig False c = Some (ret, c', Some (Some x), out)"
  shows "x = r \<and> rq_type r = TYPE_RESPONSE \<and> co_seq c = rq_seq r \<and> co_status c = STATUE_None \<and> co_status c' = EXECUTED
    \<and> GetMinClientReceiveNum cfg \<le> int (card (co_senders c' TYPE_RESPONSE (rq_hash r)))"
  using assms
proof (cases rule: AddRequest_cases)
  case prepare
  from prepare(4) show ?thesis
    by (cases rule: AddPrepare_cases) (auto dest!: response_cb_Some simp: prepare(3))
next
  case vote
  from vote(2) show ?thesis
  proof (cases rule: AddVote_cases)
    case (counted c1 st y certs)
    then show ?thesis using vote(5)
      by (auto dest!: response_cb_Some simp: received_count_def)
  next
    case (committed c1 y ret' certs)
    then show ?thesis by (auto dest!: response_cb_Some)
  qed
qed simp_all

lemma Remove_pool [simp]:
  "rm_pool (RemoveWaitingResponseRequest h s) = rm_pool s" "rm_config (RemoveWaitingResponseRequest h s) = rm_config s"
  by (simp_all add: RemoveWaitingResponseRequest_def)

lemma AddResponseMsg_cases:
  assumes "AddResponseMsg E B sig r s = Some (code, xo, s')"
  obtains (garbled) "bc_parse_response B (rq_data r) = None" "code = RC_INVALID" "xo = None"
      "s' = RemoveWaitingResponseRequest (rq_hash r) s"
  | (kept) resp c ret c' res out where "bc_parse_response B (rq_data r) = Some resp" "GetCollector (rs_local_id resp) (rm_pool s) = Some c"
      "AddRequest (en_pos E) (response_cb (rm_config s)) (Some (r\<lparr>rq_seq := rs_local_id resp\<rparr>)) sig False c = Some (ret, c', res, out)"
      "s' = s\<lparr>rm_pool := SetCollector (rs_local_id resp) c' (rm_pool s)\<rparr>" "code \<noteq> RC_STATE_CHANGED" "xo = None"
  | (answered) resp c c' x out p where "bc_parse_response B (rq_data r) = Some resp" "GetCollector (rs_local_id resp) (rm_pool s) = Some c"
      "AddRequest (en_pos E) (response_cb (rm_config s)) (Some (r\<lparr>rq_seq := rs_local_id resp\<rparr>)) sig False c = Some (0, c', Some (Some x), out)"
      "pool_Update (rs_local_id resp) (SetCollector (rs_local_id resp) c' (rm_pool s)) = Some p" "xo = Some x"
      "s' = RemoveWaitingResponseRequest (rq_hash r) (s\<lparr>rm_pool := p\<rparr>)" "code = RC_STATE_CHANGED"
proof (cases "bc_parse_response B (rq_data r)")
  case None
  then show ?thesis using assms garbled by (simp add: AddResponseMsg_def)
next
  case (Some resp)
  obtain c where c: "GetCollector (rs_local_id resp) (rm_pool s) = Some c"
    using assms Some by (auto simp: AddResponseMsg_def Let_def split: option.splits)
  obtain ret c' res out where add: "AddRequest (en_pos E) (response_cb (rm_config s)) (Some (r\<lparr>rq_seq := rs_local_id resp\<rparr>)) sig False c
      = Some (ret, c', res, out)"
    using assms Some c by (auto simp: AddResponseMsg_def Let_def split: option.splits)
  show ?thesis
  proof (cases "ret = 0 \<and> Option.bind res (\<lambda>x. x) \<noteq> None")
    case True
    then obtain x where "res = Some (Some x)" by (auto simp: bind_eq_Some)
    then show ?thesis using assms Some c add True answered [OF Some c, of c' x out]
      by (auto simp: AddResponseMsg_def Let_def)
  next
    case False
    then show ?thesis using assms Some c add kept [OF Some c add]
      by (auto simp: AddResponseMsg_def Let_def split: if_splits option.splits)
  qed
qed

lemma response_in: "rq_type r = TYPE_RESPONSE \<Longrightarrow> bc_parse_response B (rq_data r) = Some resp \<Longrightarrow>
    rq_sender_id r \<in> response_senders B (rq_hash r) (rs_local_id resp) (es @ [RmResponse E cx r])"
  unfolding response_senders_def by force

lemma response_votes_step:
  assumes "response_votes_ok B es c" "bc_parse_response B (rq_data r) = Some resp"
    "AddRequest pos cb (Some (r\<lparr>rq_seq := rs_local_id resp\<rparr>)) sig False c = Some (ret, c', res, out)"
  shows "response_votes_ok B (es @ [RmResponse E cx r]) c'"
  unfolding response_votes_ok_def
proof (intro allI subsetI)
  fix h i assume i: "i \<in> co_senders c' TYPE_RESPONSE h"
  have seq: "co_seq c' = co_seq c" using AddRequest_frame [OF assms(3)] by simp
  from i AddRequest_senders(2) [OF assms(3), of TYPE_RESPONSE h]
  consider "i \<in> co_senders c TYPE_RESPONSE h"
    | "i = rq_sender_id r" "rq_type r = TYPE_RESPONSE" "h = rq_hash r" "rs_local_id resp = co_seq c" by auto
  then show "i \<in> response_senders B h (co_seq c') (es @ [RmResponse E cx r])"
  proof cases
    case 1
    then have "i \<in> response_senders B h (co_seq c) es" using assms(1) by (auto simp: response_votes_ok_def)
    then show ?thesis unfolding seq using response_senders_mono [of es "es @ [RmResponse E cx r]"] by auto
  next
    case 2
    then show ?thesis unfolding seq using response_in [OF 2(2) assms(2)] by simp
  qed
qed

lemma AddResponseMsg_inv:
  assumes inv: "rm_inv cfg B es s" and add: "AddResponseMsg E B sig r s = Some (code, xo, s')"
  shows "rm_inv cfg B (es @ [RmResponse E cx r]) s'"
proof -
  let ?es = "es @ [RmResponse E cx r]"
  have old: "response_votes_ok B ?es c" if "c \<in> set (po_collector (rm_pool s))" for c
    using inv that response_votes_mono [of B es c ?es] by (auto simp: rm_inv_def)
  have cfg: "rm_config s = cfg" using inv by (simp add: rm_inv_def)
  have upd: "response_votes_ok B ?es c" if "c \<in> set (po_collector (SetCollector seq c' (rm_pool s)))" "response_votes_ok B ?es c'" for c c' seq
    using SetCollector_collectors [OF that(1)] that(2) old by auto
  have new: "response_votes_ok B ?es c'" if "bc_parse_response B (rq_data r) = Some resp" "GetCollector (rs_local_id resp) (rm_pool s) = Some c"
      "AddRequest (en_pos E) (response_cb (rm_config s)) (Some (r\<lparr>rq_seq := rs_local_id resp\<rparr>)) sig False c = Some (ret, c', res, out)"
    for resp c ret c' res out
    by (rule response_votes_step [OF _ that(1,3)]) (use inv GetCollector_collectors [OF that(2)] in \<open>auto simp: rm_inv_def\<close>)
  from add show ?thesis
  proof (cases rule: AddResponseMsg_cases)
    case garbled
    then show ?thesis using old cfg by (simp add: rm_inv_def)
  next
    case kept
    then show ?thesis using upd new [OF kept(1-3)] cfg by (auto simp: rm_inv_def)
  next
    case (answered resp c c' x out p)
    then show ?thesis using pool_Update_collectors [OF answered(4)] upd new [OF answered(1-3)] cfg by (fastforce simp: rm_inv_def)
  qed
qed

lemma SendResponseToClient_pool:
  "SendResponseToClient resp s = Some (s', out) \<Longrightarrow> rm_pool s' = rm_pool s \<and> rm_config s' = rm_config s"
  by (auto simp: SendResponseToClient_def rm_FetchContextList_def Let_def split: if_splits option.splits prod.splits)

lemma ProcessResponseMsg_cases:
  assumes "ProcessResponseMsg E B cx r s = Some (ret, s', out)"
  obtains (failed) "rq_ret r = -2" "s' = s\<lparr>rm_send_num := i32 (rm_send_num s - 1)\<rparr>" "out = []"
  | (silent) code xo where "AddResponseMsg E B (cx_signature cx) r s = Some (code, xo, s')" "out = []"
  | (answer) x s1 resp where "AddResponseMsg E B (cx_signature cx) r s = Some (RC_STATE_CHANGED, Some x, s1)"
      "bc_parse_response B (rq_data x) = Some resp" "SendResponseToClient resp s1 = Some (s', out)"
proof (cases "rq_ret r = -2")
  case True
  then show ?thesis using assms failed by (simp add: ProcessResponseMsg_def)
next
  case False
  then obtain code xo s1 where add: "AddResponseMsg E B (cx_signature cx) r s = Some (code, xo, s1)"
    using assms by (auto simp: ProcessResponseMsg_def split: option.splits)
  show ?thesis
  proof (cases "code = RC_STATE_CHANGED \<and> xo \<noteq> None")
    case True
    then show ?thesis using assms False add silent [of code xo] answer
      by (auto simp: ProcessResponseMsg_def split: option.splits)
  next
    case nc: False
    then have "s' = s1 \<and> out = []" using assms False add
      by (auto simp: ProcessResponseMsg_def split: option.splits CollectorResultCode.splits)
    then show ?thesis using add silent by blast
  qed
qed

lemma rm_inv_cong: "rm_pool s' = rm_pool s \<and> rm_config s' = rm_config s \<Longrightarrow> rm_inv cfg B es s' = rm_inv cfg B es s"
  by (simp add: rm_inv_def)

lemma rm_inv_mono: "rm_inv cfg B es s \<Longrightarrow> set es \<subseteq> set es' \<Longrightarrow> rm_inv cfg B es' s"
  unfolding rm_inv_def using response_votes_mono by blast

lemma rm_step_inv:
  assumes inv: "rm_inv cfg B es s" and st: "rm_step B e s = Some (s', out)"
  shows "rm_inv cfg B (es @ [e]) s'"
proof -
  have same: ?thesis if "rm_pool s' = rm_pool s \<and> rm_config s' = rm_config s"
    unfolding rm_inv_cong [OF that] by (rule rm_inv_mono [OF inv]) auto
  show ?thesis
  proof (cases e)
    case (RmUser cx r)
    then show ?thesis using st same other_steps_pool(1) [of cx r s] by (metis option.inject prod.sel rm_step.simps(1) surj_pair)
  next
    case (RmBatch E popped)
    then show ?thesis using st same BatchProposeMsg_pool by simp
  next
    case (RmTimeout E)
    then show ?thesis using st same other_steps_pool(2) by simp
  next
    case (RmResponse E cx r)
    then obtain ret where "ProcessResponseMsg E B cx r s = Some (ret, s', out)" using st by auto
    then show ?thesis
    proof (cases rule: ProcessResponseMsg_cases)
      case failed
      then show ?thesis using same by simp
    next
      case (silent code xo)
      then show ?thesis using AddResponseMsg_inv [OF inv silent(1)] RmResponse by simp
    next
      case (answer x s1 resp)
      then show ?thesis
        using AddResponseMsg_inv [OF inv answer(1)] rm_inv_cong [OF SendResponseToClient_pool [OF answer(3)]] RmResponse by simp
    qed
  qed
qed

lemma rm_run_inv:
  "rm_inv cfg B es0 s \<Longrightarrow> rm_run B s es = Some (s', out) \<Longrightarrow> rm_inv cfg B (es0 @ es) s'"
proof (induction es arbitrary: es0 s out)
  case (Cons e es)
  obtain s1 out1 out2 where "rm_step B e s = Some (s1, out1)" "rm_run B s1 es = Some (s', out2)"
    using Cons.prems(2) by (auto split: option.splits)
  then show ?case using Cons.IH [OF rm_step_inv [OF Cons.prems(1)]] by fastforce
qed simp

lemma new_response_manager_inv:
  assumes "new_response_manager cfg si v sem = Some s"
  shows "rm_inv cfg B es s"
proof -
  have "new_pool (GetMaxProcessTxn cfg) False False = Some (rm_pool s)" "rm_config s = cfg"
    using assms by (auto simp: new_response_manager_def split: option.splits)
  then show ?thesis using new_pool_collectors by (fastforce simp: rm_inv_def)
qed

text \<open>Only a response is answered to a client.\<close>

lemma client_answers_source: "client_answers cxs rs = Some out \<Longrightarrow> SendClient ch x \<in> set out \<Longrightarrow> x \<in> set rs"
proof (induction cxs arbitrary: rs out)
  case (Cons cx cxs)
  have tl: "x \<in> set (tl rs) \<Longrightarrow> x \<in> set rs" by (cases rs) simp_all
  show ?case
  proof (cases "cx_client cx")
    case None
    then show ?thesis using Cons.IH [of "tl rs" out] Cons.prems tl by simp
  next
    case (Some c)
    then obtain y ys out' where "rs = y # ys" "client_answers cxs ys = Some out'" "out = SendClient c y # out'"
      using Cons.prems(1) by (auto split: list.splits)
    then show ?thesis using Cons.IH [of ys out'] Cons.prems(2) by auto
  qed
qed simp

lemma no_client_answer:
  "MonitoringClientTimeOut_step E s = Some (s1, out1) \<Longrightarrow> SendClient ch x \<notin> set out1"
  "DoBatch E B items s = Some (ret, s2, out2) \<Longrightarrow> SendClient ch x \<notin> set out2"
  by (auto simp: MonitoringClientTimeOut_step_def DoBatch_def Let_def split: if_splits option.splits prod.splits)

lemma BatchProposeMsg_no_client:
  "BatchProposeMsg_step E B popped s = Some (s1, out) \<Longrightarrow> SendClient ch x \<notin> set out"
  unfolding BatchProposeMsg_step_def pop_item_def send_batch_def Let_def
  by (auto split: if_splits option.splits prod.splits list.splits dest: no_client_answer(2))


section \<open>Properties\<close>

lemma answered_response:
  assumes inv: "rm_inv cfg B es s"
    and add: "AddResponseMsg E B sig r s = Some (RC_STATE_CHANGED, Some x, s1)"
  shows "\<exists>resp. bc_parse_response B (rq_data r) = Some resp \<and> rq_data x = rq_data r
    \<and> GetMinClientReceiveNum cfg
        \<le> int (card (response_senders B (rq_hash r) (rs_local_id resp) (es @ [RmResponse E cx r])))"
  using add
proof (cases rule: AddResponseMsg_cases)
  case (answered resp c c' y out p)
  note v = response_vote [OF answered(3)]
  have "response_votes_ok B es c" using inv GetCollector_collectors [OF answered(2)] by (simp add: rm_inv_def)
  from response_votes_step [OF this answered(1,3)] have "response_votes_ok B (es @ [RmResponse E cx r]) c'" .
  moreover have "co_seq c' = rs_local_id resp" using AddRequest_frame [OF answered(3)] v by simp
  ultimately have "card (co_senders c' TYPE_RESPONSE (rq_hash r))
      \<le> card (response_senders B (rq_hash r) (rs_local_id resp) (es @ [RmResponse E cx r]))"
    by (intro card_mono) (auto simp: response_votes_ok_def)
  moreover have "GetMinClientReceiveNum cfg \<le> int (card (co_senders c' TYPE_RESPONSE (rq_hash r)))"
    using v inv by (simp add: rm_inv_def)
  ultimately have "GetMinClientReceiveNum cfg
      \<le> int (card (response_senders B (rq_hash r) (rs_local_id resp) (es @ [RmResponse E cx r])))" by linarith
  moreover have "rq_data x = rq_data r" using v answered(5) by simp
  ultimately show ?thesis using answered(1) by blast
qed simp_all

lemma outside_small_set:
  assumes "finite F" "int (card F) < n" "n \<le> int (card S)"
  shows "\<exists>i \<in> S. i \<notin> F"
  using assms card_mono [of F S] by force


text \<open>A proxy of four replicas, a client on channel 5 and a codec under which a response answers
  batch 1 with its data.\<close>

definition demo_batch_codec :: batch_codec where
  "demo_batch_codec = \<lparr>bc_ser_batch = (\<lambda>b. ''b''),
     bc_parse_response = (\<lambda>d. Some (empty_response\<lparr>rs_local_id := 1, rs_response := [d]\<rparr>))\<rparr>"

definition demo_ring :: "collector \<Rightarrow> collector_pool" where
  "demo_ring c = \<lparr>po_capacity = 8, po_mask = 15, po_has_executor = False, po_enable_viewchange = False,
     po_collector = (map (\<lambda>i. new_collector (of_nat i) False False) [0 ..< 16])[1 := c]\<rparr>"

definition demo_proxy ::
  "(net_context \<times> request) list \<Rightarrow> (net_context \<times> request) list \<Rightarrow> collector \<Rightarrow> net_context list \<Rightarrow> int \<Rightarrow> response_manager" where
  "demo_proxy queue batch c cxs n =
     \<lparr>rm_config = demo_config [1, 2, 3, 4], rm_pool = demo_ring c,
      rm_context_pool = demo_ring ((new_collector 1 False False)\<lparr>co_context_list := cxs\<rparr>),
      rm_batch_queue = queue, rm_batch_req = batch, rm_local_id = 1 + of_int n,
      rm_system_info = \<lparr>si_primary_id = 1, si_view = 1, si_replicas = []\<rparr>, rm_send_num = n, rm_verifier = None,
      rm_waiting = [], rm_timeouts = [], rm_timeout_length = 5000000, rm_signals = 0\<rparr>"

lemma demo_ring_new: "demo_ring (new_collector 1 False False) = \<lparr>po_capacity = 8, po_mask = 15, po_has_executor = False,
     po_enable_viewchange = False, po_collector = map (\<lambda>i. new_collector (of_nat i) False False) [0 ..< 16]\<rparr>"
  by (simp add: demo_ring_def list_eq_iff_nth_eq nth_list_update del: upt_rec_numeral)

lemma demo_ring_slot:
  "GetCollector 1 (demo_ring c) = Some c" "SetCollector 1 c' (demo_ring c) = demo_ring c'"
  by (simp_all add: GetCollector_def SetCollector_def pool_idx_def demo_ring_def del: upt_rec_numeral)

lemma demo_ring_Update:
  "co_seq c = 1 \<Longrightarrow> pool_Update 1 (demo_ring c) = Some (demo_ring c)"
  by (simp add: pool_Update_def pool_idx_def demo_ring_def list_eq_iff_nth_eq nth_list_update del: upt_rec_numeral)

lemma demo_client_num: "GetMinClientReceiveNum (demo_config [1, 2, 3, 4]) = 2" "GetMaxProcessTxn (demo_config [1, 2, 3, 4]) = 2"
  "ClientBatchNum (demo_config ids) = 100" "\<not> IsPerformanceRunning (demo_config ids)"
  using quorum_sizes [OF pbft_config_bounds [OF demo_config_4(1)]] demo_config_4
  by (simp_all add: GetMaxProcessTxn_def ClientBatchNum_def IsPerformanceRunning_def) (simp_all add: demo_config_def)

lemma new_demo_proxy:
  "new_response_manager (demo_config [1, 2, 3, 4]) \<lparr>si_primary_id = 1, si_view = 1, si_replicas = []\<rparr> None 0
     = Some (demo_proxy [] [] (new_collector 1 False False) [] 0)"
proof -
  have "new_pool 2 False False = Some (demo_ring (new_collector 1 False False))"
    unfolding demo_ring_new by (simp add: new_pool_def GetCapacity_def GetCapacity_loop.simps del: upt_rec_numeral)
  moreover have "(new_collector 1 False False)\<lparr>co_context_list := []\<rparr> = new_collector 1 False False" by (simp add: new_collector_def)
  ultimately show ?thesis by (simp add: new_response_manager_def demo_client_num demo_proxy_def)
qed

definition demo_user :: "net_context \<times> request" where
  "demo_user = (\<lparr>cx_signature = empty_signature, cx_client = Some 5\<rparr>, empty_request\<lparr>rq_need_response := True\<rparr>)"

definition demo_response :: "int \<Rightarrow> string \<Rightarrow> request" where
  "demo_response i d = empty_request\<lparr>rq_type := TYPE_RESPONSE, rq_sender_id := i, rq_hash := ''h'', rq_data := d\<rparr>"

definition demo_response_event :: "int \<Rightarrow> string \<Rightarrow> rm_event" where
  "demo_response_event i d = RmResponse demo_env \<lparr>cx_signature = empty_signature, cx_client = None\<rparr> (demo_response i d)"

definition demo_batch_run :: "rm_event list" where
  "demo_batch_run = [RmUser (fst demo_user) (snd demo_user), RmBatch demo_env True, RmBatch demo_env False]"

definition voted :: "int set \<Rightarrow> collector" where
  "voted is = (new_collector 1 False False)\<lparr>co_senders := (\<lambda>_ _. {})(TYPE_RESPONSE := (\<lambda>_. {})(''h'' := is))\<rparr>"

lemma demo_batch_sent:
  "\<exists>w t g out. rm_run demo_batch_codec (demo_proxy [] [] (new_collector 1 False False) [] 0) demo_batch_run
     = Some ((demo_proxy [] [] (voted {}) [fst demo_user] 1)\<lparr>rm_waiting := w, rm_timeouts := t, rm_signals := g\<rparr>, out)"
proof -
  have "voted {} = new_collector 1 False False" by (simp add: voted_def new_collector_def fun_eq_iff)
  then show ?thesis
  by (simp add: demo_batch_run_def demo_user_def NewUserRequest_def BatchProposeMsg_step_def demo_proxy_def demo_client_num
      pop_item_def send_batch_def DoBatch_def AddContextList_def demo_ring_slot SetContextList_def new_collector_def
      AddWaitingResponseRequest_def Let_def)
qed

lemma demo_first_response:
  "0 \<le> i \<Longrightarrow> i < 128 \<Longrightarrow>
   rm_step demo_batch_codec (demo_response_event i d) ((demo_proxy [] [] (voted {}) cxs n)\<lparr>rm_waiting := w, rm_timeouts := t, rm_signals := g\<rparr>)
     = Some ((demo_proxy [] [] (voted {i}) cxs n)\<lparr>rm_waiting := w, rm_timeouts := t, rm_signals := g\<rparr>, [])"
  by (simp add: demo_response_event_def demo_response_def ProcessResponseMsg_def AddResponseMsg_def demo_batch_codec_def
    demo_proxy_def demo_ring_slot AddRequest_def AddVote_def voted_def new_collector_def record_sender_def empty_request_def
    empty_response_def response_cb_def rm_MayConsensusChangeStatus_def received_count_def add_sender_def demo_client_num)

lemma demo_second_response:
  "\<exists>s. rm_step demo_batch_codec (demo_response_event 3 d) ((demo_proxy [] [] (voted {2}) [fst demo_user] n)\<lparr>rm_waiting := w, rm_timeouts := t, rm_signals := g\<rparr>)
     = Some (s, [SendClient 5 d])"
  by (simp add: demo_response_event_def demo_response_def ProcessResponseMsg_def AddResponseMsg_def demo_batch_codec_def
    demo_proxy_def demo_ring_slot AddRequest_def AddVote_def voted_def new_collector_def record_sender_def empty_request_def
    empty_response_def response_cb_def rm_MayConsensusChangeStatus_def received_count_def add_sender_def demo_client_num demo_ring_Update
    SendResponseToClient_def rm_FetchContextList_def FetchContextList_def demo_user_def RemoveWaitingResponseRequest_def Let_def)

lemma rm_run_append:
  "rm_run B s es = Some (s1, out1) \<Longrightarrow> rm_run B s1 es' = Some (s2, out2) \<Longrightarrow> rm_run B s (es @ es') = Some (s2, out1 @ out2)"
proof (induction es arbitrary: s out1)
  case (Cons e es)
  then obtain sa oa ob where "rm_step B e s = Some (sa, oa)" "rm_run B sa es = Some (s1, ob)" "out1 = oa @ ob"
    by (auto split: option.splits)
  then show ?case using Cons.IH Cons.prems(2) by simp
qed simp


text \<open>The responses are counted by the hash of the request they answer, not by what they say.
  With \<open>f = 1\<close>, the second of two replicas that answer a batch decides the answer alone: its data \<open>d'\<close>
  goes to the client, whatever the first replica sent.\<close>

theorem mixed_responses_forwarded:
  "\<exists>s out. rm_run demo_batch_codec (demo_proxy [] [] (new_collector 1 False False) [] 0)
      (demo_batch_run @ [demo_response_event 2 d, demo_response_event 3 d']) = Some (s, out) \<and> SendClient 5 d' \<in> set out"
proof -
  obtain w t g out1 where run: "rm_run demo_batch_codec (demo_proxy [] [] (new_collector 1 False False) [] 0) demo_batch_run
     = Some ((demo_proxy [] [] (voted {}) [fst demo_user] 1)\<lparr>rm_waiting := w, rm_timeouts := t, rm_signals := g\<rparr>, out1)"
    using demo_batch_sent by (elim exE)
  obtain s where s: "rm_step demo_batch_codec (demo_response_event 3 d') ((demo_proxy [] [] (voted {2}) [fst demo_user] 1)
      \<lparr>rm_waiting := w, rm_timeouts := t, rm_signals := g\<rparr>) = Some (s, [SendClient 5 d'])"
    using demo_second_response by blast
  have "rm_run demo_batch_codec (demo_proxy [] [] (new_collector 1 False False) [] 0)
      (demo_batch_run @ [demo_response_event 2 d, demo_response_event 3 d']) = Some (s, out1 @ [SendClient 5 d'])"
    by (rule rm_run_append [OF run]) (simp add: demo_first_response s del: rm_step.simps)
  moreover have "SendClient 5 d' \<in> set (out1 @ [SendClient 5 d'])" by simp
  ultimately show ?thesis by (intro exI conjI)
qed

text \<open>The count of batches under way is an \<open>int\<close> that is compared as an unsigned number. A failure
  response that reaches an idle proxy, from any sender, makes it negative; after that the proxy sends
  no batch any more, whatever users ask for and however often its thread runs.\<close>

theorem failure_response_stops_proxy:
  assumes "rm_send_num s = 0" "rq_ret r = -2" "GetMaxProcessTxn (rm_config s) \<noteq> - 1"
    and "\<forall>e \<in> set es. (\<exists>cx q. e = RmUser cx q) \<or> (\<exists>E popped. e = RmBatch E popped)"
  shows "\<exists>s'. rm_run B s (RmResponse E cx r # es) = Some (s', []) \<and> rm_batch_req s' = rm_batch_req s"
proof -
  have idle: "\<exists>t'. rm_run B t es = Some (t', []) \<and> rm_batch_req t' = rm_batch_req t"
    if "rm_send_num t = -1" "rm_config t = rm_config s" for t
    using that assms(4)
  proof (induction es arbitrary: t)
    case (Cons e es)
    have "GetMaxProcessTxn (rm_config t) < - 1" using assms(3) Cons.prems(2) word_order.not_eq_extremum by metis
    then obtain t1 where "rm_step B e t = Some (t1, [])" "rm_send_num t1 = -1" "rm_config t1 = rm_config s" "rm_batch_req t1 = rm_batch_req t"
      using Cons.prems by (auto simp: NewUserRequest_def BatchProposeMsg_step_def)
    then show ?case using Cons.IH [of t1] Cons.prems(3) by auto
  qed simp
  have "rm_step B (RmResponse E cx r) s = Some (s\<lparr>rm_send_num := -1\<rparr>, [])"
    using assms(1,2) by (simp add: ProcessResponseMsg_def)
  then show ?thesis using idle [of "s\<lparr>rm_send_num := -1\<rparr>"] by auto
qed

theorem failure_response_stops_proxy_witness:
  "\<exists>s'. rm_run demo_batch_codec (demo_proxy [] [] (new_collector 1 False False) [] 0)
      (RmResponse demo_env (fst demo_user) (empty_request\<lparr>rq_ret := -2, rq_sender_id := 77\<rparr>) # demo_batch_run) = Some (s', [])
     \<and> rm_batch_req s' = []"
proof -
  let ?p = "demo_proxy [] [] (new_collector 1 False False) [] 0"
  have p: "rm_send_num ?p = 0" "GetMaxProcessTxn (rm_config ?p) \<noteq> - 1" "rm_batch_req ?p = []"
    by (simp_all add: demo_proxy_def demo_client_num)
  have es: "\<forall>e \<in> set demo_batch_run. (\<exists>cx q. e = RmUser cx q) \<or> (\<exists>E popped. e = RmBatch E popped)"
    by (auto simp: demo_batch_run_def)
  show ?thesis
    using failure_response_stops_proxy [OF p(1) _ p(2) es, of "empty_request\<lparr>rq_ret := -2, rq_sender_id := 77\<rparr>" demo_batch_codec demo_env
      "fst demo_user"] unfolding p(3) by simp
qed

lemma GetCollector_SetCollector: "GetCollector i p = Some c \<Longrightarrow> GetCollector i (SetCollector i c' p) = Some c'"
  by (auto simp: GetCollector_def SetCollector_def pool_idx_def Let_def split: if_splits)

lemma SetCollector_twice: "SetCollector i c' (SetCollector i c p) = SetCollector i c' p"
  by (simp add: SetCollector_def pool_idx_def)

lemma pool_wf_SetCollector:
  assumes "pool_wf j p" "GetCollector i p = Some c" "co_seq c' = co_seq c"
  shows "pool_wf j (SetCollector i c' p)"
  using assms by (auto simp: pool_wf_def SetCollector_def GetCollector_def pool_idx_def Let_def nth_list_update split: if_splits)

lemma half_ring_differs: "((i::nat) + 2 ^ j) mod 2 ^ Suc j \<noteq> i mod 2 ^ Suc j"
proof
  assume "(i + 2 ^ j) mod 2 ^ Suc j = i mod 2 ^ Suc j"
  then have "(2::nat) ^ Suc j dvd 2 ^ j" using mod_eq_dvd_iff_nat [of i "i + 2 ^ j" "2 ^ Suc j"] by simp
  then have "(2::nat) ^ Suc j \<le> 2 ^ j" by (rule dvd_imp_le) simp
  then show False by simp
qed

lemma GetCollector_Update:
  assumes wf: "pool_wf j p" and up: "pool_Update i p = Some p'"
  shows "GetCollector i p' = GetCollector i p"
proof -
  have "unat (pool_idx i p XOR po_capacity p) \<noteq> unat (pool_idx i p)"
    unfolding pool_next_mod [OF wf] pool_idx_mod [OF wf] using half_ring_differs [of "unat i" j] by simp
  then show ?thesis using up
    by (auto simp: pool_Update_def GetCollector_def pool_idx_def Let_def nth_list_update split: if_splits)
qed

lemma pool_Update_defined:
  assumes wf: "pool_wf j p"
    and eq: "po_capacity q = po_capacity p" "po_mask q = po_mask p" "length (po_collector q) = length (po_collector p)"
  shows "\<exists>q'. pool_Update i q = Some q' \<and> po_capacity q' = po_capacity p \<and> po_mask q' = po_mask p
    \<and> length (po_collector q') = length (po_collector p)"
proof -
  have idx: "pool_idx i q = pool_idx i p" by (simp add: pool_idx_def eq)
  have "unat (pool_idx i p) < length (po_collector p)" "unat (pool_idx i p XOR po_capacity p) < length (po_collector p)"
    unfolding pool_next_mod [OF wf] pool_idx_mod [OF wf] using wf by (simp_all add: pool_wf_def)
  then show ?thesis by (auto simp: pool_Update_def Let_def not_le idx eq)
qed

text \<open>The contexts kept for a batch come back, whole and in order, when the batch is answered, and
  only once: a second fetch for the same batch finds nothing.\<close>

theorem batch_contexts_roundtrip:
  assumes wf: "pool_wf j (rm_context_pool s)" and add: "AddContextList cxs i s = Some (0, s1)"
  shows "\<exists>s2 s3. rm_FetchContextList i s1 = Some (cxs, s2) \<and> rm_FetchContextList i s2 = Some ([], s3)"
proof -
  let ?p = "rm_context_pool s"
  obtain c where c: "GetCollector i ?p = Some c" "co_seq c = i"
    and s1: "s1 = s\<lparr>rm_context_pool := SetCollector i (c\<lparr>co_context_list := cxs\<rparr>) ?p\<rparr>"
    using add by (auto simp: AddContextList_def SetContextList_def split: if_splits)
  let ?p2 = "SetCollector i (c\<lparr>co_context_list := []\<rparr>) ?p"
  have wf2: "pool_wf j ?p2" by (rule pool_wf_SetCollector [OF wf c(1)]) simp
  obtain p3 where p3: "pool_Update i ?p2 = Some p3" and shape: "po_capacity p3 = po_capacity ?p2" "po_mask p3 = po_mask ?p2"
    "length (po_collector p3) = length (po_collector ?p2)"
    using pool_Update_defined [OF wf2 refl refl refl] by blast
  have "rm_FetchContextList i s1 = Some (cxs, s\<lparr>rm_context_pool := p3\<rparr>)"
    using c p3 by (simp add: rm_FetchContextList_def s1 GetCollector_SetCollector FetchContextList_def SetCollector_twice)
  moreover have g3: "GetCollector i p3 = Some (c\<lparr>co_context_list := []\<rparr>)"
    using GetCollector_Update [OF wf2 p3] GetCollector_SetCollector [OF c(1)] by simp
  moreover obtain p4 where "pool_Update i (SetCollector i (c\<lparr>co_context_list := []\<rparr>) p3) = Some p4"
    using pool_Update_defined [OF wf2, of "SetCollector i (c\<lparr>co_context_list := []\<rparr>) p3" i] shape by (auto simp: SetCollector_def)
  ultimately show ?thesis using c(2) by (auto simp: rm_FetchContextList_def FetchContextList_def)
qed

theorem batch_contexts_roundtrip_witness:
  "\<exists>s1 s2 s3. AddContextList [fst demo_user] 1 (demo_proxy [] [] (new_collector 1 False False) [] 0) = Some (0, s1)
     \<and> rm_FetchContextList 1 s1 = Some ([fst demo_user], s2) \<and> rm_FetchContextList 1 s2 = Some ([], s3)"
proof -
  let ?s = "demo_proxy [] [] (new_collector 1 False False) [] 0"
  obtain j p where p: "new_pool 2 False False = Some p" "pool_wf j p" by (rule new_pool_wf [of 2 False False]) simp_all
  have "rm_context_pool ?s = p" using arg_cong [OF new_demo_proxy, of "\<lambda>x. rm_context_pool (the x)"] p(1)
    by (simp add: new_response_manager_def demo_client_num)
  then have wf: "pool_wf j (rm_context_pool ?s)" using p(2) by simp
  obtain s1 where s1: "AddContextList [fst demo_user] 1 ?s = Some (0, s1)"
    by (simp add: AddContextList_def demo_proxy_def demo_ring_slot SetContextList_def new_collector_def)
  show ?thesis using batch_contexts_roundtrip [OF wf s1] s1 by blast
qed

end
