(* ===== verification/Framework.thy ===== *)
theory Framework
  imports Response_Manager
begin

text \<open>
  The framework for further protocols (platform/consensus/ordering/common/framework): the performance
  manager and the response manager of a proxy, which count responses by their number alone, and the
  messages of \<open>common::Consensus\<close>.

  \<open>response_\<close> is an array of maps; the index is a function of the key, and the model has one map. The
  threads are step functions; \<open>popped\<close> says whether \<open>Pop\<close> returned an item before its timeout.
\<close>

section \<open>Messages of the consensus object\<close>

definition consensus_request :: "resdb_config \<Rightarrow> int \<Rightarrow> string \<Rightarrow> request" where
  "consensus_request cfg ty data = empty_request\<lparr>rq_data := data, rq_type := TYPE_CUSTOM_CONSENSUS, rq_user_type := ty,
     rq_sender_id := rep_id (cf_self_info cfg)\<rparr>"

definition consensus_Broadcast :: "resdb_config \<Rightarrow> int \<Rightarrow> string \<Rightarrow> int \<times> out_msg list" where
  "consensus_Broadcast cfg ty data = (0, [Broadcast (consensus_request cfg ty data)])"

definition consensus_SendMsg :: "resdb_config \<Rightarrow> int \<Rightarrow> string \<Rightarrow> int \<Rightarrow> int \<times> out_msg list" where
  "consensus_SendMsg cfg ty data node = (0, [SendTo (consensus_request cfg ty data) node])"

definition consensus_ResponseMsg :: "resdb_config \<Rightarrow> (batch_user_response \<Rightarrow> string) \<Rightarrow> batch_user_response \<Rightarrow> int \<times> out_msg list" where
  "consensus_ResponseMsg cfg ser resp =
     (let r = empty_request\<lparr>rq_seq := rs_seq resp, rq_type := TYPE_RESPONSE, rq_sender_id := rep_id (cf_self_info cfg),
                 rq_proxy_id := rs_proxy_id resp, rq_data := ser resp\<rparr>
      in (0, [SendTo r (rq_proxy_id r)]))"

section \<open>Performance manager\<close>

record common_performance =
  fp_config :: resdb_config
  fp_queue :: "request list"
  fp_batch :: "request list"
  fp_stop :: bool
  fp_eval_started :: bool
  fp_eval_ready :: bool
  fp_send_num :: int
  fp_total_num :: int
  fp_verifier :: "signature_verifier option"
  fp_response :: "(int, int) std_map"
  fp_primary :: int
  fp_local_id :: int
  fp_sum :: int

text \<open>The remainder by the number of replicas is undefined when there is none.\<close>

definition new_common_performance :: "resdb_config \<Rightarrow> signature_verifier option \<Rightarrow> common_performance option" where
  "new_common_performance cfg verifier =
     (let n = int (GetReplicaNum cfg); id = rep_id (cf_self_info cfg); p = sgn id * (\<bar>id\<bar> mod n)
      in if n = 0 then None
         else Some \<lparr>fp_config = cfg, fp_queue = [], fp_batch = [], fp_stop = False, fp_eval_started = False, fp_eval_ready = False,
                    fp_send_num = 0, fp_total_num = 0, fp_verifier = verifier, fp_response = [],
                    fp_primary = (if p = 0 then n else p), fp_local_id = 1, fp_sum = 0\<rparr>)"

definition fp_GenerateUserRequest :: "(nat \<Rightarrow> string) \<Rightarrow> nat \<Rightarrow> request" where
  "fp_GenerateUserRequest data i = empty_request\<lparr>rq_data := data i\<rparr>"

definition fp_eval_requests :: "(nat \<Rightarrow> string) \<Rightarrow> request list" where
  "fp_eval_requests data = map (fp_GenerateUserRequest data) [0 ..< 100000000]"

text \<open>The pushes of \<open>StartEval\<close> are one step: in the code the proposing thread can take requests from the
  queue before the last one is in it, which changes the sizes of its batches.\<close>

definition fp_StartEval :: "(nat \<Rightarrow> string) \<Rightarrow> common_performance \<Rightarrow> int \<times> common_performance" where
  "fp_StartEval data s =
     (if fp_eval_started s then (0, s)
      else (0, s\<lparr>fp_eval_started := True, fp_eval_ready := True, fp_queue := fp_queue s @ fp_eval_requests data\<rparr>))"

text \<open>The response that completes a batch is returned.\<close>

definition fp_AddResponseMsg ::
  "batch_codec \<Rightarrow> request \<Rightarrow> common_performance \<Rightarrow> CollectorResultCode \<times> batch_user_response option \<times> common_performance" where
  "fp_AddResponseMsg B r s =
     (case bc_parse_response B (rq_data r) of
        None \<Rightarrow> (RC_INVALID, None, s)
      | Some resp \<Rightarrow>
          let seq = sint (rs_local_id resp)
          in case sm_find seq (fp_response s) of
               None \<Rightarrow> (RC_OK, None, s)
             | Some n \<Rightarrow>
                 let n1 = i32 (n + 1)
                 in if GetMinClientReceiveNum (fp_config s) \<le> n1
                    then (RC_STATE_CHANGED, Some resp, s\<lparr>fp_response := sm_erase seq (fp_response s)\<rparr>)
                    else (RC_OK, None, s\<lparr>fp_response := sm_put seq n1 (fp_response s)\<rparr>))"

definition fp_SendResponseToClient :: "common_performance \<Rightarrow> common_performance" where
  "fp_SendResponseToClient s = s\<lparr>fp_send_num := i32 (fp_send_num s - 1)\<rparr>"

definition fp_ProcessResponseMsg :: "batch_codec \<Rightarrow> request \<Rightarrow> common_performance \<Rightarrow> int \<times> common_performance" where
  "fp_ProcessResponseMsg B r s =
     (if rq_ret r = -2 then (0, s\<lparr>fp_send_num := i32 (fp_send_num s - 1)\<rparr>)
      else let (ret, resp, s1) = fp_AddResponseMsg B r s
           in (if ret = RC_INVALID then -2 else 0, if ret = RC_STATE_CHANGED then fp_SendResponseToClient s1 else s1))"

definition fp_DoBatch :: "env \<Rightarrow> batch_codec \<Rightarrow> request list \<Rightarrow> common_performance \<Rightarrow> int \<times> common_performance \<times> out_msg list" where
  "fp_DoBatch E B items s =
     (let self = rep_id (cf_self_info (fp_config s)); lid = fp_local_id s;
          b = empty_batch\<lparr>br_user_requests := map (\<lambda>(i, r). \<lparr>ur_request = r, ur_signature = empty_signature, ur_id = int i\<rparr>) (enumerate 0 items),
                br_local_id := word_of_int lid, br_proxy_id := i32 self, br_createtime := en_now E\<rparr>;
          data = bc_ser_batch B b;
          r = (NewRequest TYPE_NEW_TXNS empty_request self)\<lparr>rq_data := data,
                rq_data_signature := map_option (\<lambda>sv. SignMessage (en_crypto E) sv data) (fp_verifier s),
                rq_hash := CalculateHash (en_crypto E) data, rq_proxy_id := self, rq_user_seq := lid\<rparr>
      in (0, s\<lparr>fp_local_id := i32 (lid + 1), fp_response := sm_put lid (i32 (sm_get 0 lid (fp_response s) + 1)) (fp_response s),
               fp_send_num := i32 (fp_send_num s + 1), fp_sum := i32 (fp_sum s + int (length items)),
               fp_stop := (fp_stop s \<or> fp_total_num s = 1000000), fp_total_num := i32 (fp_total_num s + 1)\<rparr>,
          [SendTo r (fp_primary s)]))"

definition fp_send_batch :: "env \<Rightarrow> batch_codec \<Rightarrow> common_performance \<Rightarrow> common_performance \<times> out_msg list" where
  "fp_send_batch E B s = (let (_, s1, out) = fp_DoBatch E B (fp_batch s) s in (s1\<lparr>fp_batch := []\<rparr>, out))"

definition fp_BatchProposeMsg_step :: "env \<Rightarrow> batch_codec \<Rightarrow> bool \<Rightarrow> common_performance \<Rightarrow> common_performance \<times> out_msg list" where
  "fp_BatchProposeMsg_step E B popped s =
     (let full = (\<lambda>t. unat (ClientBatchNum (fp_config t)) \<le> length (fp_batch t))
      in if fp_stop s \<or> \<not> fp_eval_ready s then (s, [])
         else if (word_of_int (fp_send_num s) :: uint32) > GetMaxProcessTxn (fp_config s) then (s, [])
         else if full s then fp_send_batch E B s
         else case fp_queue s of
                [] \<Rightarrow> (s, [])
              | x # q \<Rightarrow>
                  if \<not> popped then (s, [])
                  else let s1 = s\<lparr>fp_queue := q, fp_batch := fp_batch s @ [x]\<rparr>
                       in if full s1 then fp_send_batch E B s1 else (s1, []))"

section \<open>Response manager\<close>

record common_response =
  fr_config :: resdb_config
  fr_queue :: "(net_context \<times> request) list"
  fr_batch :: "(net_context \<times> request) list"
  fr_local_id :: uint64
  fr_send_num :: int
  fr_verifier :: "signature_verifier option"
  fr_response :: "(int, int) std_map"

definition new_common_response :: "resdb_config \<Rightarrow> signature_verifier option \<Rightarrow> common_response" where
  "new_common_response cfg verifier =
     \<lparr>fr_config = cfg, fr_queue = [], fr_batch = [], fr_local_id = 1, fr_send_num = 0, fr_verifier = verifier, fr_response = []\<rparr>"

definition fr_NewUserRequest :: "net_context \<Rightarrow> request \<Rightarrow> common_response \<Rightarrow> int \<times> common_response" where
  "fr_NewUserRequest cx r s = (0, s\<lparr>fr_queue := fr_queue s @ [(cx\<lparr>cx_client := None\<rparr>, r)]\<rparr>)"

definition fr_AddResponseMsg :: "request \<Rightarrow> common_response \<Rightarrow> CollectorResultCode \<times> common_response" where
  "fr_AddResponseMsg r s =
     (let seq = sint (rq_seq r); n = sm_get 0 seq (fr_response s); n1 = i32 (n + 1)
      in if n = -1 then (RC_OK, s)
         else if GetMinClientReceiveNum (fr_config s) \<le> n1
         then (RC_STATE_CHANGED, s\<lparr>fr_response := sm_put seq (-1) (fr_response s)\<rparr>)
         else (RC_OK, s\<lparr>fr_response := sm_put seq n1 (fr_response s)\<rparr>))"

definition fr_SendResponseToClient :: "common_response \<Rightarrow> common_response" where
  "fr_SendResponseToClient s = s\<lparr>fr_send_num := i32 (fr_send_num s - 1)\<rparr>"

definition fr_ProcessResponseMsg :: "batch_codec \<Rightarrow> request \<Rightarrow> common_response \<Rightarrow> int \<times> common_response" where
  "fr_ProcessResponseMsg B r s =
     (if rq_ret r = -2 then (0, s\<lparr>fr_send_num := i32 (fr_send_num s - 1)\<rparr>)
      else let (ret, s1) = fr_AddResponseMsg r s
           in (if ret = RC_INVALID then -2 else 0,
               if ret = RC_STATE_CHANGED \<and> bc_parse_response B (rq_data r) \<noteq> None then fr_SendResponseToClient s1 else s1))"

definition fr_DoBatch ::
  "env \<Rightarrow> batch_codec \<Rightarrow> (net_context \<times> request) list \<Rightarrow> common_response \<Rightarrow> int \<times> common_response \<times> out_msg list" where
  "fr_DoBatch E B items s =
     (let self = rep_id (cf_self_info (fr_config s));
          b = (user_batch items)\<lparr>br_local_id := (if IsPerformanceRunning (fr_config s) then 0 else fr_local_id s),
                                 br_createtime := en_now E\<rparr>;
          data = bc_ser_batch B b;
          r = (NewRequest TYPE_NEW_TXNS empty_request self)\<lparr>rq_data := data,
                rq_data_signature := map_option (\<lambda>sv. SignMessage (en_crypto E) sv data) (fr_verifier s),
                rq_hash := CalculateHash (en_crypto E) data, rq_proxy_id := self\<rparr>
      in (0, s\<lparr>fr_send_num := i32 (fr_send_num s + 1)\<rparr>, [SendTo r 1]))"

definition fr_send_batch :: "env \<Rightarrow> batch_codec \<Rightarrow> common_response \<Rightarrow> common_response \<times> out_msg list" where
  "fr_send_batch E B s =
     (if fr_batch s = [] then (s, [])
      else let (_, s1, out) = fr_DoBatch E B (fr_batch s) s in (s1\<lparr>fr_batch := []\<rparr>, out))"

definition fr_BatchProposeMsg_step :: "env \<Rightarrow> batch_codec \<Rightarrow> bool \<Rightarrow> common_response \<Rightarrow> common_response \<times> out_msg list" where
  "fr_BatchProposeMsg_step E B popped s =
     (let full = (\<lambda>t. unat (ClientBatchNum (fr_config t)) \<le> length (fr_batch t))
      in if (word_of_int (fr_send_num s) :: uint32) > GetMaxProcessTxn (fr_config s) then (s, [])
         else if full s then fr_send_batch E B s
         else case fr_queue s of
                x # q \<Rightarrow>
                  if popped then let s1 = s\<lparr>fr_queue := q, fr_batch := fr_batch s @ [x]\<rparr>
                                 in if full s1 then fr_send_batch E B s1 else (s1, [])
                  else fr_send_batch E B s
              | [] \<Rightarrow> fr_send_batch E B s)"

section \<open>How many responses complete a batch\<close>

text \<open>The responses to a batch, one after the other: how many of them were reported as its completion.\<close>

fun fp_replies :: "batch_codec \<Rightarrow> request list \<Rightarrow> common_performance \<Rightarrow> nat" where
  "fp_replies B [] s = 0"
| "fp_replies B (r # rs) s =
     (let (code, _, s1) = fp_AddResponseMsg B r s in (if code = RC_STATE_CHANGED then 1 else 0) + fp_replies B rs s1)"

definition answers :: "batch_codec \<Rightarrow> int \<Rightarrow> request \<Rightarrow> bool" where
  "answers B lid r \<longleftrightarrow> map_option (\<lambda>resp. sint (rs_local_id resp)) (bc_parse_response B (rq_data r)) = Some lid"

lemma fp_replies_gone:
  "\<forall>r \<in> set rs. answers B lid r \<Longrightarrow> sm_find lid (fp_response s) = None \<Longrightarrow> fp_replies B rs s = 0"
  by (induction rs arbitrary: s) (auto simp: answers_def fp_AddResponseMsg_def)

lemma fp_replies_count:
  assumes "\<forall>r \<in> set rs. answers B lid r" "sm_find lid (fp_response s) = Some (int n)" "int n < GetMinClientReceiveNum (fp_config s)"
    and "GetMinClientReceiveNum (fp_config s) < 2 ^ 31"
  shows "fp_replies B rs s = (if GetMinClientReceiveNum (fp_config s) \<le> int n + int (length rs) then 1 else 0)"
  using assms
proof (induction rs arbitrary: s n)
  case (Cons r rs)
  obtain resp where resp: "bc_parse_response B (rq_data r) = Some resp" "sint (rs_local_id resp) = lid"
    using Cons.prems(1) by (auto simp: answers_def)
  have n1: "i32 (int n + 1) = int (Suc n)" using Cons.prems(3,4) by simp
  show ?case
  proof (cases "GetMinClientReceiveNum (fp_config s) \<le> int (Suc n)")
    case True
    then have "fp_AddResponseMsg B r s = (RC_STATE_CHANGED, Some resp, s\<lparr>fp_response := sm_erase lid (fp_response s)\<rparr>)"
      using resp Cons.prems(2) n1 by (simp add: fp_AddResponseMsg_def)
    then show ?thesis using True Cons.prems(1) by (simp add: fp_replies_gone [of rs B lid])
  next
    case False
    then have add: "fp_AddResponseMsg B r s = (RC_OK, None, s\<lparr>fp_response := sm_put lid (int (Suc n)) (fp_response s)\<rparr>)"
      using resp Cons.prems(2) n1 by (simp add: fp_AddResponseMsg_def)
    have "fp_replies B rs (s\<lparr>fp_response := sm_put lid (int (Suc n)) (fp_response s)\<rparr>)
        = (if GetMinClientReceiveNum (fp_config s) \<le> int (Suc n) + int (length rs) then 1 else 0)"
      using Cons.IH [of "s\<lparr>fp_response := sm_put lid (int (Suc n)) (fp_response s)\<rparr>" "Suc n"] Cons.prems(1,4) False by simp
    then show ?thesis using add by simp
  qed
qed simp

text \<open>C39: contrary to the comments, which ask for the \<open>f + 1\<close> responses of \<open>GetMinClientReceiveNum\<close>, a
  batch is completed by one response less: sending the batch already counts as one. It is completed once.
  Who sent the responses and what they contain, their number apart, does not matter.\<close>

theorem batch_completed_one_short:
  assumes "fp_DoBatch E B items s = (ret, s1, out)" "fp_local_id s = lid" "sm_find lid (fp_response s) = None"
    and "\<forall>r \<in> set rs. answers B lid r" "1 < GetMinClientReceiveNum (fp_config s)" "GetMinClientReceiveNum (fp_config s) < 2 ^ 31"
  shows "fp_replies B rs s1 = (if GetMinClientReceiveNum (fp_config s) \<le> int (length rs) + 1 then 1 else 0)"
proof -
  have s1: "sm_find lid (fp_response s1) = Some (int 1)" "fp_config s1 = fp_config s"
    using assms(1-3) by (auto simp: fp_DoBatch_def Let_def sm_get_def)
  then show ?thesis using fp_replies_count [OF assms(4) s1(1)] assms(5,6) by (simp add: add.commute)
qed

definition demo_common :: common_performance where
  "demo_common = \<lparr>fp_config = demo_config [1, 2, 3, 4], fp_queue = [], fp_batch = [], fp_stop = False, fp_eval_started = True,
     fp_eval_ready = True, fp_send_num = 0, fp_total_num = 0, fp_verifier = None, fp_response = [], fp_primary = 1, fp_local_id = 1, fp_sum = 0\<rparr>"

theorem batch_completed_one_short_witness:
  "fp_replies demo_batch_codec [demo_response 4 ''forged''] (fst (snd (fp_DoBatch demo_env demo_batch_codec [] demo_common))) = 1"
proof -
  obtain ret s1 out where b: "fp_DoBatch demo_env demo_batch_codec [] demo_common = (ret, s1, out)" by (metis prod_cases3)
  have m: "GetMinClientReceiveNum (fp_config demo_common) = 2"
    by (simp add: demo_common_def GetMinClientReceiveNum_def demo_config_def max_faulty_eq)
  have "answers demo_batch_codec 1 (demo_response 4 ''forged'')" by (simp add: answers_def demo_batch_codec_def demo_response_def)
  then have "fp_replies demo_batch_codec [demo_response 4 ''forged''] s1 = 1"
    using batch_completed_one_short [OF b, of 1 "[demo_response 4 ''forged'']"] m by (simp add: demo_common_def)
  then show ?thesis using b by simp
qed

end
