(* ===== verification/Executor_Order.thy ===== *)
theory Executor_Order
  imports Executor "HOL-Library.Sublist"
begin

text \<open>
  Runs of the transaction executor: every interleaving of commits by the consensus threads with
  the iterations of the executor's own threads orders the committed requests by their sequence
  number, without gaps, and executes them in that order.
\<close>

datatype exec_event = ECommit request | EOrder | EExecute uint64 | EExecuteOOO

fun exec_step ::
  "(request \<Rightarrow> request) option \<Rightarrow> (string \<Rightarrow> batch_user_request) \<Rightarrow> exec_event \<Rightarrow> 's executor
     \<Rightarrow> 's executor \<times> uint64 list \<times> (request \<times> batch_user_response) list" where
  "exec_step pre parse (ECommit m) e = (executor_Commit m e, [], [])"
| "exec_step pre parse EOrder e = (let (e1, ns) = OrderMessage_step pre e in (e1, ns, []))"
| "exec_step pre parse (EExecute now) e =
     (let (e1, out) = ExecuteMessage_step parse now e in (e1, [], case out of None \<Rightarrow> [] | Some r \<Rightarrow> [r]))"
| "exec_step pre parse EExecuteOOO e = (ExecuteMessageOutOfOrder_step parse e, [], [])"

fun exec_run ::
  "(request \<Rightarrow> request) option \<Rightarrow> (string \<Rightarrow> batch_user_request) \<Rightarrow> exec_event list \<Rightarrow> 's executor
     \<Rightarrow> 's executor \<times> uint64 list \<times> (request \<times> batch_user_response) list" where
  "exec_run pre parse [] e = (e, [], [])"
| "exec_run pre parse (ev # evs) e =
     (let (e1, n1, o1) = exec_step pre parse ev e; (e2, n2, o2) = exec_run pre parse evs e1
      in (e2, n1 @ n2, o1 @ o2))"

fun commits :: "exec_event list \<Rightarrow> request list" where
  "commits [] = []"
| "commits (ECommit m # evs) = m # commits evs"
| "commits (_ # evs) = commits evs"

section \<open>The reference: what has to be ordered\<close>

definition first_with :: "nat \<Rightarrow> request list \<Rightarrow> request option" where
  "first_with k ms = List.find (\<lambda>m. unat (rq_seq m) = k) ms"

definition ready :: "nat \<Rightarrow> request list \<Rightarrow> bool" where
  "ready n ms \<longleftrightarrow> (\<forall>k. 0 < k \<and> k \<le> n \<longrightarrow> first_with k ms \<noteq> None) \<and> first_with (Suc n) ms = None"

definition apply_pre :: "(request \<Rightarrow> request) option \<Rightarrow> request \<Rightarrow> request" where
  "apply_pre pre m = (case pre of None \<Rightarrow> m | Some f \<Rightarrow> f m)"

definition in_order :: "(request \<Rightarrow> request) option \<Rightarrow> nat \<Rightarrow> request list \<Rightarrow> request list" where
  "in_order pre n ms = map (\<lambda>k. apply_pre pre (the (first_with k ms))) [1 ..< Suc n]"

lemma find_append:
  "List.find P (xs @ ys) = (case List.find P xs of None \<Rightarrow> List.find P ys | Some x \<Rightarrow> Some x)"
  by (induction xs) auto

lemma first_with_snoc:
  "first_with k (ms @ [m]) =
     (case first_with k ms of None \<Rightarrow> if unat (rq_seq m) = k then Some m else None | Some x \<Rightarrow> Some x)"
  by (simp add: first_with_def find_append split: option.split)

lemma ready_snoc_keep:
  "0 < k \<Longrightarrow> k \<le> n \<Longrightarrow> ready n ms \<Longrightarrow> first_with k (ms @ [m]) = first_with k ms"
  by (auto simp: ready_def first_with_snoc split: option.splits)

lemma in_order_snoc: "ready n ms \<Longrightarrow> in_order pre n (ms @ [m]) = in_order pre n ms"
  using ready_snoc_keep [of _ n ms m] by (auto simp: in_order_def Suc_le_eq)

text \<open>As many sequence numbers are ready as there are messages at most.\<close>

lemma ready_length:
  assumes "\<forall>k. 0 < k \<and> k \<le> n \<longrightarrow> first_with k ms \<noteq> None"
  shows "n \<le> length ms"
proof -
  have "{1..n} \<subseteq> (\<lambda>m. unat (rq_seq m)) ` set ms"
  proof
    fix k assume "k \<in> {1..n}"
    then obtain m where "first_with k ms = Some m" using assms by (auto simp: Suc_le_eq)
    then show "k \<in> (\<lambda>m. unat (rq_seq m)) ` set ms"
      by (auto simp: first_with_def find_Some_iff)
  qed
  then have "card {1..n} \<le> card ((\<lambda>m. unat (rq_seq m)) ` set ms)" by (intro card_mono) auto
  also have "\<dots> \<le> length ms" by (metis card_image_le card_length finite_set order_trans)
  finally show ?thesis by simp
qed

section \<open>The ordering loop\<close>

declare order_loop.simps [simp del]

definition cands_from :: "nat \<Rightarrow> (uint64, request) std_map \<Rightarrow> bool" where
  "cands_from n cs \<longleftrightarrow> sm_wf cs \<and> (\<forall>k. sm_find k cs \<noteq> None \<longrightarrow> n \<le> unat k)"

lemma order_loop_stop:
  assumes "order_loop pre e = (e', ns)" "te_next_execute_seq e = of_nat (Suc n)"
    "cands_from (Suc n) (te_candidates e)" "unat (of_nat (Suc n) :: uint64) = Suc n"
    "\<nexists>m cs. te_candidates e = (of_nat (Suc n), m) # cs"
  shows "e' = e" "ns = []" "sm_find (of_nat (Suc n)) (te_candidates e) = None"
proof -
  have "fst (GetNextData pre e) = None"
    using assms(2,5) by (auto simp: GetNextData_def split: list.splits)
  then show "e' = e" "ns = []"
    using assms(1) by (auto simp: order_loop.simps [of pre e] split: prod.splits)
  show "sm_find (of_nat (Suc n)) (te_candidates e) = None"
  proof (rule ccontr)
    assume f: "sm_find (of_nat (Suc n)) (te_candidates e) \<noteq> None"
    then have "te_candidates e \<noteq> []" by auto
    then obtain k v cs where cs: "te_candidates e = (k, v) # cs" by (metis neq_Nil_conv surj_pair)
    have "k \<le> of_nat (Suc n)" using sm_hd_least [OF _ cs f] assms(3) by (simp add: cands_from_def)
    moreover have "Suc n \<le> unat k" using assms(3) cs by (auto simp: cands_from_def)
    ultimately have "k = of_nat (Suc n)"
      unfolding word_le_nat_alt word_unat_eq_iff assms(4) by (rule order_antisym)
    then show False using assms(5) cs by blast
  qed
qed

text \<open>What the loop does to the state \<open>e\<close>: it moves the messages \<open>n + 1, \<dots>, m\<close> to the execute queue.\<close>

definition ordered_upto ::
  "(request \<Rightarrow> request) option \<Rightarrow> nat \<Rightarrow> nat \<Rightarrow> 's executor \<Rightarrow> 's executor \<Rightarrow> uint64 list \<Rightarrow> bool" where
  "ordered_upto pre n m e e' ns \<longleftrightarrow> n \<le> m \<and>
     (\<exists>cs. e' = e\<lparr>te_candidates := cs, te_next_execute_seq := of_nat (Suc m),
              te_execute_queue := te_execute_queue e @
                map (\<lambda>k. apply_pre pre (the (sm_find (of_nat k) (te_candidates e)))) [Suc n ..< Suc m]\<rparr>
        \<and> length cs \<le> length (te_candidates e)
        \<and> cands_from (Suc m) cs \<and> (\<forall>k. m < unat k \<longrightarrow> sm_find k cs = sm_find k (te_candidates e)))
   \<and> ns = map of_nat [Suc (Suc n) ..< Suc (Suc m)]
   \<and> (\<forall>k. n < k \<and> k \<le> m \<longrightarrow> sm_find (of_nat k) (te_candidates e) \<noteq> None)
   \<and> sm_find (of_nat (Suc m)) (te_candidates e) = None"

lemma ordered_upto_step:
  assumes cs: "te_candidates e = (of_nat (Suc n), m) # cs" and wf: "sm_wf (te_candidates e)"
    and small: "n + length (te_candidates e) < 2 ^ 64 - 1"
    and rest: "ordered_upto pre (Suc n) j (e\<lparr>te_candidates := cs,
        te_execute_queue := te_execute_queue e @ [apply_pre pre m],
        te_next_execute_seq := of_nat (Suc (Suc n))\<rparr>) e' ns" and j: "j \<le> Suc n + length cs"
  shows "ordered_upto pre n j e e' (of_nat (Suc (Suc n)) # ns)"
proof -
  have un: "unat (of_nat k :: uint64) = k" if "k \<le> Suc j" for k
    using that j small cs by (simp add: unat_of_nat)
  have neq: "of_nat k \<noteq> (of_nat (Suc n) :: uint64)" if "k \<le> Suc j" "Suc n < k" for k
  proof
    assume "of_nat k = (of_nat (Suc n) :: uint64)"
    then have "unat (of_nat k :: uint64) = unat (of_nat (Suc n) :: uint64)" by (simp only:)
    then show False using un [of k] un [of "Suc n"] that by simp
  qed
  have same: "sm_find (of_nat k) cs = sm_find (of_nat k) (te_candidates e)" if "k \<le> Suc j" "Suc n < k" for k
    using neq [OF that] by (simp add: cs del: of_nat_Suc)
  have same': "sm_find k cs = sm_find k (te_candidates e)" if "j < unat k" for k
    using that rest un [of "Suc n"] by (auto simp: cs ordered_upto_def simp del: of_nat_Suc)
  have le: "Suc n \<le> j" using rest by (simp add: ordered_upto_def)
  have "sm_find (of_nat (Suc n)) (te_candidates e) = Some m" by (simp add: cs del: of_nat_Suc)
  then have q: "map (\<lambda>k. apply_pre pre (the (sm_find (of_nat k) (te_candidates e)))) [Suc n ..< Suc j] =
      apply_pre pre m # map (\<lambda>k. apply_pre pre (the (sm_find (of_nat k) cs))) [Suc (Suc n) ..< Suc j]"
    using le same by (subst upt_conv_Cons) (auto simp del: of_nat_Suc upt_Suc)
  show ?thesis
    unfolding ordered_upto_def
  proof (intro conjI allI impI)
    obtain cs' where cs': "e' = e\<lparr>te_candidates := cs', te_next_execute_seq := of_nat (Suc j),
        te_execute_queue := te_execute_queue e @ apply_pre pre m #
          map (\<lambda>k. apply_pre pre (the (sm_find (of_nat k) cs))) [Suc (Suc n) ..< Suc j]\<rparr>"
      "length cs' \<le> length (te_candidates e)" "cands_from (Suc j) cs'" "\<forall>k. j < unat k \<longrightarrow> sm_find k cs' = sm_find k cs"
      using rest by (auto simp: ordered_upto_def cs simp del: upt_Suc of_nat_Suc)
    then show "\<exists>cs. e' = e\<lparr>te_candidates := cs, te_next_execute_seq := of_nat (Suc j),
              te_execute_queue := te_execute_queue e @
                map (\<lambda>k. apply_pre pre (the (sm_find (of_nat k) (te_candidates e)))) [Suc n ..< Suc j]\<rparr>
        \<and> length cs \<le> length (te_candidates e)
        \<and> cands_from (Suc j) cs \<and> (\<forall>k. j < unat k \<longrightarrow> sm_find k cs = sm_find k (te_candidates e))"
      unfolding q by (intro exI [of _ cs'] conjI) (simp_all add: same' del: upt_Suc of_nat_Suc)
    show "of_nat (Suc (Suc n)) # ns = map of_nat [Suc (Suc n) ..< Suc (Suc j)]"
      using rest le by (subst upt_conv_Cons) (auto simp: ordered_upto_def simp del: upt_Suc of_nat_Suc)
    show "sm_find (of_nat (Suc j)) (te_candidates e) = None"
      using rest same [of "Suc j"] le by (simp add: ordered_upto_def del: of_nat_Suc)
    show "sm_find (of_nat k) (te_candidates e) \<noteq> None" if "n < k \<and> k \<le> j" for k
    proof (cases "k = Suc n")
      case False
      then have "sm_find (of_nat k) cs \<noteq> None" using rest that by (simp add: ordered_upto_def)
      then show ?thesis using same [of k] that False by simp
    qed (simp add: cs del: of_nat_Suc)
  qed (use le in simp)
qed

lemma order_loop_spec:
  assumes "order_loop pre e = (e', ns)" "cands_from (Suc n) (te_candidates e)"
    "te_next_execute_seq e = of_nat (Suc n)" "n + length (te_candidates e) < 2 ^ 64 - 1"
  shows "\<exists>m. m \<le> n + length (te_candidates e) \<and> ordered_upto pre n m e e' ns"
  using assms
proof (induction "length (te_candidates e)" arbitrary: e n ns rule: less_induct)
  case less
  have small: "unat (of_nat (Suc n) :: uint64) = Suc n"
    using less.prems(4) by (simp add: unat_of_nat del: of_nat_Suc)
  show ?case
  proof (cases "\<exists>m cs. te_candidates e = (of_nat (Suc n), m) # cs")
    case False
    note stop = order_loop_stop [OF less.prems(1,3,2) small False]
    have "\<exists>cs. e = e\<lparr>te_candidates := cs, te_next_execute_seq := of_nat (Suc n)\<rparr>
        \<and> length cs \<le> length (te_candidates e) \<and> cands_from (Suc n) cs \<and> (\<forall>k. n < unat k \<longrightarrow> sm_find k cs = sm_find k (te_candidates e))"
      using less.prems(2,3) by (intro exI [of _ "te_candidates e"]) (simp del: of_nat_Suc)
    then have "ordered_upto pre n n e e' ns" unfolding ordered_upto_def
      using stop by (simp del: of_nat_Suc) linarith
    then show ?thesis by (intro exI [of _ n]) simp
  next
    case True
    then obtain m cs where cs: "te_candidates e = (of_nat (Suc n), m) # cs" by blast
    let ?e2 = "e\<lparr>te_candidates := cs, te_execute_queue := te_execute_queue e @ [apply_pre pre m],
        te_next_execute_seq := of_nat (Suc (Suc n))\<rparr>"
    have g: "GetNextData pre e = (Some (apply_pre pre m), e\<lparr>te_candidates := cs\<rparr>)"
      using cs less.prems(3) by (simp add: GetNextData_def apply_pre_def)
    obtain n2 where l: "order_loop pre ?e2 = (e', n2)" "ns = of_nat (Suc (Suc n)) # n2"
      using less.prems(1,3) by (auto simp: order_loop.simps [of pre e] g Let_def add.commute split: prod.splits)
    have wf: "sm_wf ((of_nat (Suc n), m) # cs)" using less.prems(2) cs by (simp add: cands_from_def)
    have "Suc (Suc n) \<le> unat k" if "sm_find k cs \<noteq> None" for k
    proof -
      have "k \<in> fst ` set cs" using that by (simp add: sm_find_None_iff)
      then have "of_nat (Suc n) < k" using wf by (auto simp del: of_nat_Suc)
      then show ?thesis using small by (simp add: word_less_nat_alt del: of_nat_Suc)
    qed
    then have cf: "cands_from (Suc (Suc n)) (te_candidates ?e2)" using wf by (simp add: cands_from_def)
    have "\<exists>j. j \<le> Suc n + length (te_candidates ?e2) \<and> ordered_upto pre (Suc n) j ?e2 e' n2"
      using less.hyps [OF _ l(1) cf] less.prems(4) cs by simp
    then show ?thesis
      using ordered_upto_step [OF cs _ less.prems(4)] wf cs l(2) by auto
  qed
qed

section \<open>The invariant of a run\<close>

text \<open>
  After the events \<open>evs\<close>, with the notifications \<open>ns\<close> and the executed requests \<open>done\<close>: the first
  messages with the sequence numbers \<open>1, \<dots>, n\<close> have been ordered, and the candidates hold the first
  message of every later sequence number.
\<close>

definition exec_inv ::
  "(request \<Rightarrow> request) option \<Rightarrow> request list \<Rightarrow> nat \<Rightarrow> 's executor \<Rightarrow> uint64 list \<Rightarrow> request list \<Rightarrow> bool" where
  "exec_inv pre popped n e ns done \<longleftrightarrow> ready n popped
   \<and> te_next_execute_seq e = of_nat (Suc n)
   \<and> cands_from (Suc n) (te_candidates e)
   \<and> (\<forall>k. n < unat k \<longrightarrow> sm_find k (te_candidates e) = first_with (unat k) popped)
   \<and> length (te_candidates e) \<le> length popped
   \<and> done @ te_execute_queue e = in_order pre n popped
   \<and> ns = map of_nat [2 ..< Suc (Suc n)]"

lemma upt_split: "i \<le> j \<Longrightarrow> j \<le> k \<Longrightarrow> [i ..< k] = [i ..< j] @ [j ..< k]"
  by (metis le_add_diff_inverse upt_add_eq_append)

lemma sm_insert_length: "length (sm_insert k v m) \<le> Suc (length m)"
proof -
  have "length (sm_put k v m) \<le> Suc (length m)" by (induction k v m rule: sm_put.induct) auto
  then show ?thesis by (simp add: sm_insert_def split: option.split)
qed

lemma ordered_upto_inv:
  assumes up: "ordered_upto pre n m e e' ns'" and cf: "cands_from (Suc n) (te_candidates e)"
    and small: "Suc m < 2 ^ 64"
    and ready: "\<forall>k. 0 < k \<and> k \<le> n \<longrightarrow> first_with k popped \<noteq> None"
    and cand: "\<forall>k. n < unat k \<longrightarrow> sm_find k (te_candidates e) = first_with (unat k) popped"
    and len: "length (te_candidates e) \<le> length popped"
    and queue: "done @ te_execute_queue e = in_order pre n popped" and ns: "ns = map of_nat [2 ..< Suc (Suc n)]"
  shows "exec_inv pre popped m e' (ns @ ns') done"
proof -
  have un: "unat (of_nat k :: uint64) = k" if "k \<le> Suc m" for k
    using that small by (simp add: unat_of_nat)
  have c: "sm_find (of_nat k) (te_candidates e) = first_with k popped" if "n < k" "k \<le> Suc m" for k
    using cand [rule_format, of "of_nat k"] un [OF that(2)] that(1) by simp
  have nm: "n \<le> m" using up by (simp add: ordered_upto_def)
  have "first_with k popped \<noteq> None" if "0 < k" "k \<le> m" for k
  proof (cases "k \<le> n")
    case False
    then have "sm_find (of_nat k) (te_candidates e) \<noteq> None" using up that by (simp add: ordered_upto_def)
    then show ?thesis using c [of k] that False by simp
  qed (use ready that in blast)
  moreover have "first_with (Suc m) popped = None"
    using up c [of "Suc m"] nm by (simp add: ordered_upto_def del: of_nat_Suc)
  ultimately have rd: "ready m popped" by (simp add: ready_def)
  have "[1 ..< Suc m] = [1 ..< Suc n] @ [Suc n ..< Suc m]" using nm upt_split [of 1 "Suc n" "Suc m"] by simp
  then have "in_order pre m popped = in_order pre n popped @
      map (\<lambda>k. apply_pre pre (the (sm_find (of_nat k) (te_candidates e)))) [Suc n ..< Suc m]"
    using c by (auto simp: in_order_def simp del: upt_Suc)
  then have q: "done @ te_execute_queue e' = in_order pre m popped"
    using up queue by (auto simp: ordered_upto_def simp del: upt_Suc)
  have "[2 ..< Suc (Suc m)] = [2 ..< Suc (Suc n)] @ [Suc (Suc n) ..< Suc (Suc m)]"
    using nm upt_split [of 2 "Suc (Suc n)" "Suc (Suc m)"] by simp
  then have n': "ns @ ns' = map of_nat [2 ..< Suc (Suc m)]"
    using up ns by (simp add: ordered_upto_def del: upt_Suc)
  have "te_next_execute_seq e' = of_nat (Suc m)" "length (te_candidates e') \<le> length popped" "cands_from (Suc m) (te_candidates e')"
    "\<forall>k. m < unat k \<longrightarrow> sm_find k (te_candidates e') = first_with (unat k) popped"
    using up cand nm len by (auto simp: ordered_upto_def simp del: upt_Suc of_nat_Suc)
  then show ?thesis using rd q n' by (simp add: exec_inv_def del: of_nat_Suc)
qed

lemma order_loop_inv:
  assumes l: "order_loop pre e = (e', ns')" and cf: "cands_from (Suc n) (te_candidates e)"
    and nx: "te_next_execute_seq e = of_nat (Suc n)"
    and small: "2 * length popped < 2 ^ 64 - 1" and len: "length (te_candidates e) \<le> length popped"
    and ready: "\<forall>k. 0 < k \<and> k \<le> n \<longrightarrow> first_with k popped \<noteq> None"
    and cand: "\<forall>k. n < unat k \<longrightarrow> sm_find k (te_candidates e) = first_with (unat k) popped"
    and queue: "done @ te_execute_queue e = in_order pre n popped" and ns: "ns = map of_nat [2 ..< Suc (Suc n)]"
  shows "\<exists>m. n \<le> m \<and> exec_inv pre popped m e' (ns @ ns') done \<and> te_commit_queue e' = te_commit_queue e
    \<and> te_manager e' = te_manager e \<and> te_db e' = te_db e
    \<and> te_execute_OOO_queue e' = te_execute_OOO_queue e"
proof -
  have "n \<le> length popped" using ready_length ready by blast
  then have "n + length (te_candidates e) < 2 ^ 64 - 1" using small len by simp
  then obtain m where m: "m \<le> n + length (te_candidates e)" "ordered_upto pre n m e e' ns'"
    using order_loop_spec [OF l cf nx] by blast
  then have "Suc m < 2 ^ 64" using \<open>n + length (te_candidates e) < 2 ^ 64 - 1\<close> by simp
  then have "exec_inv pre popped m e' (ns @ ns') done"
    by (rule ordered_upto_inv [OF m(2) cf _ ready cand len queue ns])
  moreover have "n \<le> m" "te_commit_queue e' = te_commit_queue e" "te_manager e' = te_manager e" "te_db e' = te_db e"
    "te_execute_OOO_queue e' = te_execute_OOO_queue e"
    using m(2) by (auto simp: ordered_upto_def)
  ultimately show ?thesis by blast
qed

lemma OrderMessage_inv:
  assumes inv: "exec_inv pre popped n e ns done" and st: "OrderMessage_step pre e = (e', ns')"
    and small: "2 * length (popped @ te_commit_queue e) < 2 ^ 64 - 1"
  shows "\<exists>popped' m. popped @ te_commit_queue e = popped' @ te_commit_queue e'
     \<and> exec_inv pre popped' m e' (ns @ ns') done \<and> te_manager e' = te_manager e \<and> te_db e' = te_db e
    \<and> te_execute_OOO_queue e' = te_execute_OOO_queue e"
proof -
  note i = inv [unfolded exec_inv_def ready_def]
  show ?thesis
  proof (cases "te_commit_queue e")
    case Nil
    then have l: "order_loop pre e = (e', ns')" using st by (simp add: OrderMessage_step_def)
    show ?thesis using order_loop_inv [OF l, of n popped "done" ns] i small Nil by auto
  next
    case (Cons msg q)
    let ?e1 = "e\<lparr>te_commit_queue := q\<rparr>" and ?p = "popped @ [msg]"
    have np: "n \<le> length popped" using ready_length i by blast
    have un: "unat (te_next_execute_seq e) = Suc n"
      using i np small by (simp add: unat_of_nat del: of_nat_Suc)
    have ord: "in_order pre n ?p = in_order pre n popped" using in_order_snoc inv by (simp add: exec_inv_def)
    have keep: "first_with k ?p \<noteq> None" if "first_with k popped \<noteq> None" for k
      using that by (auto simp: first_with_snoc split: option.splits)
    show ?thesis
    proof (cases "te_next_execute_seq e > rq_seq msg")
      case True
      then have old: "unat (rq_seq msg) \<le> n" using un by (simp add: word_less_nat_alt)
      have "e' = ?e1" "ns' = []" using st Cons True by (auto simp: OrderMessage_step_def)
      moreover have "first_with k ?p = first_with k popped" if "n < k" for k
        using old that by (auto simp: first_with_snoc split: option.splits)
      ultimately have "exec_inv pre ?p n e' (ns @ ns') done"
        using i ord keep by (auto simp: exec_inv_def ready_def)
      then show ?thesis using Cons \<open>e' = ?e1\<close> by (intro exI [of _ ?p] exI [of _ n]) auto
    next
      case False
      let ?e2 = "AddNewData msg ?e1"
      have new: "n < unat (rq_seq msg)" using False un by (simp add: word_less_nat_alt not_less)
      have l: "order_loop pre ?e2 = (e', ns')" using st Cons False by (auto simp: OrderMessage_step_def Let_def)
      have cand: "\<forall>k. n < unat k \<longrightarrow> sm_find k (te_candidates ?e2) = first_with (unat k) ?p"
        using i by (auto simp: AddNewData_def first_with_snoc word_unat_eq_iff split: option.splits)
      have cf: "cands_from (Suc n) (te_candidates ?e2)"
        using i new by (auto simp: cands_from_def AddNewData_def split: if_splits)
      have len: "length (te_candidates ?e2) \<le> length ?p"
        using i sm_insert_length [of "rq_seq msg" msg "te_candidates e"] by (simp add: AddNewData_def)
      have "\<exists>m. n \<le> m \<and> exec_inv pre ?p m e' (ns @ ns') done \<and> te_commit_queue e' = te_commit_queue ?e2
          \<and> te_manager e' = te_manager ?e2 \<and> te_db e' = te_db ?e2
          \<and> te_execute_OOO_queue e' = te_execute_OOO_queue ?e2"
        by (rule order_loop_inv [OF l cf _ _ len _ cand]) (use i small Cons keep ord in \<open>auto simp: AddNewData_def\<close>)
      then show ?thesis using Cons by (auto simp: AddNewData_def)
    qed
  qed
qed

section \<open>Executing in order\<close>

text \<open>The reference execution: the requests one after the other on the database.\<close>

definition exec_request ::
  "'s txn_manager \<Rightarrow> (string \<Rightarrow> batch_user_request) \<Rightarrow> request \<Rightarrow> 's \<Rightarrow> (request \<times> batch_user_response) \<times> 's" where
  "exec_request tm parse m db =
     (let b = batch_of parse m; (r, db1) = ExecuteBatch (tm_ExecuteData tm) b db
      in ((m, r\<lparr>rs_proxy_id := br_proxy_id b, rs_createtime := br_createtime b,
               rs_local_id := br_local_id b, rs_hash := br_hash b\<rparr>), db1))"

fun exec_requests ::
  "'s txn_manager \<Rightarrow> (string \<Rightarrow> batch_user_request) \<Rightarrow> request list \<Rightarrow> 's \<Rightarrow> (request \<times> batch_user_response) list \<times> 's" where
  "exec_requests tm parse [] db = ([], db)"
| "exec_requests tm parse (m # ms) db =
     (let (r, db1) = exec_request tm parse m db; (rs, db2) = exec_requests tm parse ms db1 in (r # rs, db2))"

lemma exec_requests_append:
  "exec_requests tm parse (ms @ ms') db =
     (let (rs, db1) = exec_requests tm parse ms db; (rs', db2) = exec_requests tm parse ms' db1 in (rs @ rs', db2))"
  by (induction ms arbitrary: db) (auto simp: Let_def split: prod.splits)

lemma exec_requests_prefix:
  assumes "prefix ms ms'"
  shows "prefix (fst (exec_requests tm parse ms db)) (fst (exec_requests tm parse ms' db))"
  using assms by (auto simp: prefix_def exec_requests_append Let_def split: prod.splits)

definition runs_in_order ::
  "'s txn_manager \<Rightarrow> (string \<Rightarrow> batch_user_request) \<Rightarrow> 's \<Rightarrow> 's executor \<Rightarrow> (request \<times> batch_user_response) list \<Rightarrow> bool" where
  "runs_in_order tm parse db e outs \<longleftrightarrow> te_manager e = Some tm \<and> te_execute_OOO_queue e = []
     \<and> exec_requests tm parse (map fst outs) db = (outs, te_db e)"

lemma ExecuteMessage_inv:
  assumes inv: "exec_inv pre popped n e ns (map fst outs)" "runs_in_order tm parse db e outs"
    and tm: "\<not> tm_is_out_of_order tm"
    and st: "ExecuteMessage_step parse now e = (e', out)"
  shows "exec_inv pre popped n e' ns (map fst (outs @ (case out of None \<Rightarrow> [] | Some r \<Rightarrow> [r])))
       \<and> runs_in_order tm parse db e' (outs @ (case out of None \<Rightarrow> [] | Some r \<Rightarrow> [r]))
       \<and> te_commit_queue e' = te_commit_queue e"
proof (cases "te_execute_queue e")
  case Nil
  then show ?thesis using st inv by (simp add: ExecuteMessage_step_def)
next
  case (Cons m q)
  obtain r db1 where x: "exec_request tm parse m (te_db e) = (r, db1)" by fastforce
  have f: "fst r = m" using x by (auto simp: exec_request_def Let_def split: prod.splits)
  have man: "te_manager e = Some tm" using inv(2) by (simp add: runs_in_order_def)
  obtain dm where e': "out = Some r" "e' = e\<lparr>te_execute_queue := q, te_db := db1, te_duplicate_manager := dm\<rparr>"
    using st x Cons man tm
    by (auto simp: ExecuteMessage_step_def Execute_def exec_request_def is_out_of_order_def Let_def split: prod.splits)
  have "exec_requests tm parse (map fst (outs @ [r])) db = (outs @ [r], db1)"
    using inv(2) x f by (simp add: runs_in_order_def exec_requests_append Let_def)
  then show ?thesis using inv e' Cons f by (simp add: exec_inv_def runs_in_order_def)
qed

lemma exec_run_inv:
  assumes "exec_run pre parse evs e = (e', ns', outs')" "exec_inv pre popped n e ns (map fst outs)"
    "runs_in_order tm parse db e outs" "\<not> tm_is_out_of_order tm"
    "2 * length (popped @ te_commit_queue e @ commits evs) < 2 ^ 64 - 1"
  shows "\<exists>popped' n'. popped' @ te_commit_queue e' = popped @ te_commit_queue e @ commits evs
     \<and> exec_inv pre popped' n' e' (ns @ ns') (map fst (outs @ outs')) \<and> runs_in_order tm parse db e' (outs @ outs')"
  using assms
proof (induction evs arbitrary: e popped n ns outs e' ns' outs')
  case Nil
  then show ?case by auto
next
  case (Cons ev evs)
  obtain e1 n1 o1 where st: "exec_step pre parse ev e = (e1, n1, o1)" by (metis prod_cases3)
  obtain n2 o2 where r: "exec_run pre parse evs e1 = (e', n2, o2)" "ns' = n1 @ n2" "outs' = o1 @ o2"
    using Cons.prems(1) st by (auto simp: Let_def split: prod.splits)
  have "\<exists>p1 m. p1 @ te_commit_queue e1 @ commits evs = popped @ te_commit_queue e @ commits (ev # evs)
      \<and> exec_inv pre p1 m e1 (ns @ n1) (map fst (outs @ o1)) \<and> runs_in_order tm parse db e1 (outs @ o1)"
  proof (cases ev)
    case (ECommit m)
    have man: "te_manager e = Some tm" using Cons.prems(3) by (simp add: runs_in_order_def)
    have "e1 = e\<lparr>te_commit_queue := te_commit_queue e @ [m]\<rparr>" "n1 = []" "o1 = []"
      using st ECommit man Cons.prems(4) by (auto simp: executor_Commit_def is_out_of_order_def)
    then show ?thesis using Cons.prems(2,3) ECommit
      by (intro exI [of _ popped] exI [of _ n]) (auto simp: exec_inv_def runs_in_order_def)
  next
    case EOrder
    then have o: "OrderMessage_step pre e = (e1, n1)" "o1 = []" using st by (auto split: prod.splits)
    have "2 * length (popped @ te_commit_queue e) < 2 ^ 64 - 1" using Cons.prems(5) by simp
    from OrderMessage_inv [OF Cons.prems(2) o(1) this] obtain p1 m where
      "popped @ te_commit_queue e = p1 @ te_commit_queue e1" "exec_inv pre p1 m e1 (ns @ n1) (map fst outs)"
      "te_manager e1 = te_manager e" "te_db e1 = te_db e" "te_execute_OOO_queue e1 = te_execute_OOO_queue e" by blast
    then show ?thesis using Cons.prems(3) EOrder o(2)
      by (intro exI [of _ p1] exI [of _ m]) (auto simp: runs_in_order_def)
  next
    case (EExecute now)
    obtain out where o: "ExecuteMessage_step parse now e = (e1, out)" "n1 = []"
      "o1 = (case out of None \<Rightarrow> [] | Some r \<Rightarrow> [r])"
      using st EExecute by (auto split: prod.splits)
    show ?thesis using ExecuteMessage_inv [OF Cons.prems(2-4) o(1)] o(2,3) EExecute
      by (intro exI [of _ popped] exI [of _ n]) auto
  next
    case EExecuteOOO
    then have "e1 = e" "n1 = []" "o1 = []"
      using st Cons.prems(3) by (auto simp: ExecuteMessageOutOfOrder_step_def runs_in_order_def)
    then show ?thesis using Cons.prems(2,3) EExecuteOOO
      by (intro exI [of _ popped] exI [of _ n]) auto
  qed
  then obtain p1 m where p1: "p1 @ te_commit_queue e1 @ commits evs = popped @ te_commit_queue e @ commits (ev # evs)"
    "exec_inv pre p1 m e1 (ns @ n1) (map fst (outs @ o1))" "runs_in_order tm parse db e1 (outs @ o1)" by blast
  have "2 * length (p1 @ te_commit_queue e1 @ commits evs) < 2 ^ 64 - 1" unfolding p1(1) using Cons.prems(5) .
  then show ?case using Cons.IH [OF r(1) p1(2,3) Cons.prems(4)] p1(1) r(2,3) by simp
qed

lemma exec_run_new:
  assumes "exec_run pre parse evs (new_executor (Some tm) db) = (e, ns, outs)" "\<not> tm_is_out_of_order tm"
    "2 * length (commits evs) < 2 ^ 64 - 1"
  obtains popped n where "popped @ te_commit_queue e = commits evs" "ready n popped"
    "ns = map of_nat [2 ..< Suc (Suc n)]" "map fst outs @ te_execute_queue e = in_order pre n popped"
    "exec_requests tm parse (map fst outs) db = (outs, te_db e)"
proof -
  have "exec_inv pre [] 0 (new_executor (Some tm) db) [] (map fst [])"
    by (auto simp: exec_inv_def new_executor_def ready_def first_with_def cands_from_def in_order_def)
  moreover have "runs_in_order tm parse db (new_executor (Some tm) db) []"
    by (simp add: runs_in_order_def new_executor_def)
  moreover have "2 * length ([] @ te_commit_queue (new_executor (Some tm) db) @ commits evs) < 2 ^ 64 - 1"
    using assms(3) by (simp add: new_executor_def)
  ultimately obtain popped n where
    "popped @ te_commit_queue e = [] @ te_commit_queue (new_executor (Some tm) db) @ commits evs"
    "exec_inv pre popped n e ([] @ ns) (map fst ([] @ outs))" "runs_in_order tm parse db e ([] @ outs)"
    using exec_run_inv [OF assms(1) _ _ assms(2)] by blast
  then show ?thesis using that [of popped n] by (simp add: exec_inv_def runs_in_order_def new_executor_def)
qed

text \<open>C5: Whatever the interleaving of commits with the executor's threads, the executor moves exactly
  the sequence numbers 1, 2, ... to execution, in that order and without gaps, stopping at the
  first one of which no message was taken from the commit queue; for each number it is the first
  message taken, its notifications are 2, 3, ..., and what the transaction manager has done is the
  execution of the released requests one after the other.\<close>

theorem executes_in_sequence_order:
  assumes "exec_run pre parse evs (new_executor (Some tm) db) = (e, ns, outs)" "\<not> tm_is_out_of_order tm"
    "2 * length (commits evs) < 2 ^ 64 - 1"
  shows "\<exists>popped n. prefix popped (commits evs) \<and> ready n popped
     \<and> ns = map of_nat [2 ..< Suc (Suc n)]
     \<and> map fst outs @ te_execute_queue e = in_order pre n popped
     \<and> exec_requests tm parse (map fst outs) db = (outs, te_db e)"
proof (rule exec_run_new [OF assms])
  fix popped n
  assume "popped @ te_commit_queue e = commits evs"
  then have "prefix popped (commits evs)" by (metis prefixI)
  moreover assume "ready n popped" "ns = map of_nat [2 ..< Suc (Suc n)]"
    "map fst outs @ te_execute_queue e = in_order pre n popped"
    "exec_requests tm parse (map fst outs) db = (outs, te_db e)"
  ultimately show ?thesis by blast
qed

definition demo_manager :: "string list txn_manager" where
  "demo_manager = \<lparr>tm_is_out_of_order = False, tm_need_response = True,
     tm_ExecuteData = (\<lambda>d s. (Some d, d # s))\<rparr>"

definition demo_parse :: "string \<Rightarrow> batch_user_request" where
  "demo_parse d = empty_batch\<lparr>br_user_requests :=
     [\<lparr>ur_request = empty_request\<lparr>rq_data := d\<rparr>, ur_signature = empty_signature, ur_id = 0\<rparr>]\<rparr>"

definition demo_msg :: "nat \<Rightarrow> string \<Rightarrow> request" where
  "demo_msg n d = empty_request\<lparr>rq_seq := of_nat n, rq_data := d\<rparr>"

theorem executes_in_sequence_order_witness:
  "case exec_run None demo_parse [ECommit (demo_msg 2 ''b''), EOrder, ECommit (demo_msg 1 ''a''), EOrder, EExecute 0]
          (new_executor (Some demo_manager) []) of (e, ns, outs) \<Rightarrow>
     \<exists>popped n. prefix popped [demo_msg 2 ''b'', demo_msg 1 ''a''] \<and> ready n popped
     \<and> ns = map of_nat [2 ..< Suc (Suc n)]
     \<and> map fst outs @ te_execute_queue e = in_order None n popped
     \<and> exec_requests demo_manager demo_parse (map fst outs) [] = (outs, te_db e)"
proof -
  let ?evs = "[ECommit (demo_msg 2 ''b''), EOrder, ECommit (demo_msg 1 ''a''), EOrder, EExecute 0]"
  obtain e ns outs where r: "exec_run None demo_parse ?evs (new_executor (Some demo_manager) []) = (e, ns, outs)"
    by (metis prod_cases3)
  show ?thesis
    unfolding r prod.case using executes_in_sequence_order [OF r] by (simp add: demo_manager_def)
qed

section \<open>Replicas execute the same requests\<close>

lemma in_order_agree:
  assumes "ready n ms" "ready n' ms'" "n \<le> n'"
    and agree: "\<forall>m\<in>set ms. \<forall>m'\<in>set ms'. rq_seq m = rq_seq m' \<longrightarrow> m = m'"
  shows "prefix (in_order pre n ms) (in_order pre n' ms')"
proof -
  have eq: "first_with k ms = first_with k ms'" if "0 < k" "k \<le> n" for k
  proof -
    have "first_with k ms \<noteq> None" "first_with k ms' \<noteq> None"
      using that assms(1-3) unfolding ready_def by (meson order_trans)+
    then obtain m m' where m: "first_with k ms = Some m" "first_with k ms' = Some m'" by blast
    then have "m \<in> set ms" "m' \<in> set ms'" "unat (rq_seq m) = k" "unat (rq_seq m') = k"
      by (auto simp: first_with_def find_Some_iff)
    then show ?thesis using agree m by (metis word_unat_eq_iff)
  qed
  have "in_order pre n ms = map (\<lambda>k. apply_pre pre (the (first_with k ms'))) [1 ..< Suc n]"
    using eq by (auto simp: in_order_def Suc_le_eq)
  then show ?thesis using assms(3) upt_split [of 1 "Suc n" "Suc n'"]
    by (auto simp: in_order_def prefix_def simp del: upt_Suc)
qed

lemma prefix_comparable: "prefix (a @ x) (b @ y) \<Longrightarrow> prefix a b \<or> prefix b a"
  by (meson append_prefixD prefix_same_cases prefixI)

lemma prefix_same_length: "prefix a b \<or> prefix b a \<Longrightarrow> length a = length b \<Longrightarrow> a = b"
  by (auto simp: prefix_def)

text \<open>C4: State machine replication: if the consensus of two replicas never releases two different
  requests for one sequence number, then whatever order the commits arrive in and however the
  threads interleave, one replica's sequence of executed requests and responses is a prefix of the
  other's, and replicas that executed equally many requests have the same database.\<close>

theorem replicas_execute_alike:
  assumes r1: "exec_run pre parse evs1 (new_executor (Some tm) db) = (e1, ns1, outs1)"
    and r2: "exec_run pre parse evs2 (new_executor (Some tm) db) = (e2, ns2, outs2)"
    and tm: "\<not> tm_is_out_of_order tm"
    and small: "2 * length (commits evs1) < 2 ^ 64 - 1" "2 * length (commits evs2) < 2 ^ 64 - 1"
    and agree: "\<forall>m\<in>set (commits evs1). \<forall>m'\<in>set (commits evs2). rq_seq m = rq_seq m' \<longrightarrow> m = m'"
  shows "(prefix outs1 outs2 \<or> prefix outs2 outs1) \<and> (length outs1 = length outs2 \<longrightarrow> te_db e1 = te_db e2)"
proof -
  obtain p1 n1 where 1: "p1 @ te_commit_queue e1 = commits evs1" "ready n1 p1"
    "ns1 = map of_nat [2 ..< Suc (Suc n1)]" "map fst outs1 @ te_execute_queue e1 = in_order pre n1 p1"
    "exec_requests tm parse (map fst outs1) db = (outs1, te_db e1)"
    by (rule exec_run_new [OF r1 tm small(1)])
  obtain p2 n2 where 2: "p2 @ te_commit_queue e2 = commits evs2" "ready n2 p2"
    "ns2 = map of_nat [2 ..< Suc (Suc n2)]" "map fst outs2 @ te_execute_queue e2 = in_order pre n2 p2"
    "exec_requests tm parse (map fst outs2) db = (outs2, te_db e2)"
    by (rule exec_run_new [OF r2 tm small(2)])
  have sub: "set p1 \<subseteq> set (commits evs1)" "set p2 \<subseteq> set (commits evs2)"
    using 1(1) 2(1) by (metis Un_upper1 set_append)+
  have "prefix (in_order pre n1 p1) (in_order pre n2 p2) \<or> prefix (in_order pre n2 p2) (in_order pre n1 p1)"
  proof (cases "n1 \<le> n2")
    case True
    then show ?thesis using in_order_agree [OF 1(2) 2(2)] agree sub by blast
  next
    case False
    then have "n2 \<le> n1" by simp
    then show ?thesis using in_order_agree [OF 2(2) 1(2)] agree sub by (metis subset_iff)
  qed
  then have p: "prefix (map fst outs1) (map fst outs2) \<or> prefix (map fst outs2) (map fst outs1)"
    unfolding 1(4) [symmetric] 2(4) [symmetric]
    using prefix_comparable by blast
  then have "prefix outs1 outs2 \<or> prefix outs2 outs1"
    using exec_requests_prefix [of "map fst outs1" "map fst outs2" tm parse db]
      exec_requests_prefix [of "map fst outs2" "map fst outs1" tm parse db] 1(5) 2(5) by auto
  moreover have "te_db e1 = te_db e2" if "length outs1 = length outs2"
  proof -
    have "map fst outs1 = map fst outs2"
      using p that by (intro prefix_same_length) simp_all
    then have "(outs1, te_db e1) = (outs2, te_db e2)" unfolding 1(5) [symmetric] 2(5) [symmetric] by (simp only:)
    then show ?thesis by simp
  qed
  ultimately show ?thesis by blast
qed

theorem replicas_execute_alike_witness:
  "case (exec_run None demo_parse [ECommit (demo_msg 2 ''b''), EOrder, ECommit (demo_msg 1 ''a''), EOrder, EExecute 0]
          (new_executor (Some demo_manager) []),
         exec_run None demo_parse [ECommit (demo_msg 1 ''a''), EOrder, EExecute 0]
          (new_executor (Some demo_manager) [])) of ((e1, ns1, outs1), (e2, ns2, outs2)) \<Rightarrow>
     (prefix outs1 outs2 \<or> prefix outs2 outs1) \<and> (length outs1 = length outs2 \<longrightarrow> te_db e1 = te_db e2)"
proof -
  let ?ev1 = "[ECommit (demo_msg 2 ''b''), EOrder, ECommit (demo_msg 1 ''a''), EOrder, EExecute 0]"
  let ?ev2 = "[ECommit (demo_msg 1 ''a''), EOrder, EExecute 0]"
  obtain e1 ns1 outs1 where r1: "exec_run None demo_parse ?ev1 (new_executor (Some demo_manager) []) = (e1, ns1, outs1)"
    by (metis prod_cases3)
  obtain e2 ns2 outs2 where r2: "exec_run None demo_parse ?ev2 (new_executor (Some demo_manager) []) = (e2, ns2, outs2)"
    by (metis prod_cases3)
  show ?thesis
    unfolding r1 r2 prod.case
    by (rule replicas_execute_alike [OF r1 r2]) (simp_all add: demo_manager_def demo_msg_def)
qed

end
