(* ===== verification/Poe.thy ===== *)
theory Poe
  imports Framework Executor_Order
begin

text \<open>
  The PoE protocol: \<open>PoE\<close> (platform/consensus/ordering/poe/algorithm/poe.cpp) and the dispatch of
  \<open>common::Consensus\<close> and \<open>poe::Consensus\<close> (common/framework/consensus.cpp,
  poe/framework/consensus.cpp).

  What the protocol object broadcasts and commits is a list of \<open>poe_out\<close>; the consensus object turns it
  into messages and calls of the executor. The codecs are the record \<open>poe_codec\<close>. \<open>None\<close> is undefined
  behaviour or a failed assertion.
\<close>

section \<open>The protocol\<close>

record poe_txn =
  pt_data :: string
  pt_hash :: string
  pt_proxy_id :: int
  pt_proposer :: int
  pt_uid :: int
  pt_create_time :: int
  pt_seq :: int

record poe_proposal =
  pv_hash :: string
  pv_proposer :: int
  pv_seq :: int

definition empty_poe_txn :: poe_txn where
  "empty_poe_txn = \<lparr>pt_data = [], pt_hash = [], pt_proxy_id = 0, pt_proposer = 0, pt_uid = 0, pt_create_time = 0, pt_seq = 0\<rparr>"

datatype poe_out = OutPropose poe_txn | OutPrepare poe_proposal | OutCommit poe_txn

record poe =
  px_id :: int
  px_f :: int
  px_total_num :: int
  px_received :: "(string, int set) std_map"
  px_data :: "(string, poe_txn) std_map"
  px_seq :: int

definition new_poe :: "int \<Rightarrow> int \<Rightarrow> int \<Rightarrow> poe" where
  "new_poe i f total_num = \<lparr>px_id = i, px_f = f, px_total_num = total_num, px_received = [], px_data = [], px_seq = 0\<rparr>"

definition ReceiveTransaction :: "uint64 \<Rightarrow> poe_txn \<Rightarrow> poe \<Rightarrow> bool \<times> poe \<times> poe_out list" where
  "ReceiveTransaction now t s =
     (True, s\<lparr>px_seq := i64 (px_seq s + 1)\<rparr>,
      [OutPropose (t\<lparr>pt_create_time := sint now, pt_seq := px_seq s, pt_proposer := px_id s\<rparr>)])"

definition ReceivePropose :: "poe_txn \<Rightarrow> poe \<Rightarrow> bool \<times> poe \<times> poe_out list" where
  "ReceivePropose t s =
     (True, s\<lparr>px_data := sm_put (pt_hash t) t (px_data s)\<rparr>,
      [OutPrepare \<lparr>pv_hash = pt_hash t, pv_proposer = px_id s, pv_seq = pt_seq t\<rparr>])"

text \<open>The size of the set is compared with \<open>2 * f_ + 1\<close> as an unsigned number.\<close>

definition ReceivePrepare :: "poe_proposal \<Rightarrow> poe \<Rightarrow> bool \<times> poe \<times> poe_out list" where
  "ReceivePrepare p s =
     (let votes = insert (pv_proposer p) (sm_get {} (pv_hash p) (px_received s));
          s1 = s\<lparr>px_received := sm_put (pv_hash p) votes (px_received s)\<rparr>
      in case sm_find (pv_hash p) (px_data s1) of
           None \<Rightarrow> (True, s1, [])
         | Some t \<Rightarrow>
             if (word_of_int (2 * px_f s + 1) :: uint64) \<le> of_nat (card votes)
             then (True, s1\<lparr>px_data := sm_erase (pv_hash p) (px_data s1)\<rparr>, [OutCommit t])
             else (True, s1, []))"

section \<open>The consensus object\<close>

record poe_codec =
  pk_ser_txn :: "poe_txn \<Rightarrow> string"
  pk_parse_txn :: "string \<Rightarrow> poe_txn option"
  pk_ser_proposal :: "poe_proposal \<Rightarrow> string"
  pk_parse_proposal :: "string \<Rightarrow> poe_proposal option"

record 's poe_consensus =
  pc_config :: resdb_config
  pc_poe :: "poe option"
  pc_performance :: "common_performance option"
  pc_response :: "common_response option"
  pc_executor :: "'s executor"

text \<open>\<open>Init\<close>, which a subclass may have given a performance manager before.\<close>

definition poe_Init :: "signature_verifier option \<Rightarrow> 's poe_consensus \<Rightarrow> 's poe_consensus option" where
  "poe_Init verifier s =
     (case (if pc_performance s = None \<and> IsPerformanceRunning (pc_config s)
            then map_option Some (new_common_performance (pc_config s) verifier) else Some (pc_performance s)) of
        None \<Rightarrow> None
      | Some perf \<Rightarrow>
          Some (s\<lparr>pc_performance := perf,
                  pc_response := (if pc_response s = None \<and> \<not> IsPerformanceRunning (pc_config s)
                                  then Some (new_common_response (pc_config s) verifier) else pc_response s)\<rparr>))"

definition new_poe_consensus ::
  "resdb_config \<Rightarrow> 's txn_manager option \<Rightarrow> 's \<Rightarrow> signature_verifier option \<Rightarrow> 's poe_consensus option" where
  "new_poe_consensus cfg tm db verifier =
     (let total_num = int (GetReplicaNum cfg); f = sgn (total_num - 1) * (\<bar>total_num - 1\<bar> div 3)
      in map_option (\<lambda>s. if cf_node_kind cfg = CLIENT then s
                         else s\<lparr>pc_poe := Some (new_poe (rep_id (cf_self_info cfg)) f total_num)\<rparr>)
           (poe_Init verifier \<lparr>pc_config = cfg, pc_poe = None, pc_performance = None, pc_response = None,
                               pc_executor = new_executor tm db\<rparr>))"

definition CommitMsgInternal :: "poe_txn \<Rightarrow> request" where
  "CommitMsgInternal t = empty_request\<lparr>rq_data := pt_data t, rq_seq := word_of_int (pt_seq t), rq_uid := pt_uid t, rq_proxy_id := pt_proxy_id t\<rparr>"

fun poe_emit :: "poe_codec \<Rightarrow> poe_out list \<Rightarrow> 's poe_consensus \<Rightarrow> 's poe_consensus \<times> out_msg list" where
  "poe_emit K [] s = (s, [])"
| "poe_emit K (OutPropose t # xs) s =
     (let (s1, out) = poe_emit K xs s in (s1, snd (consensus_Broadcast (pc_config s) 1 (pk_ser_txn K t)) @ out))"
| "poe_emit K (OutPrepare p # xs) s =
     (let (s1, out) = poe_emit K xs s in (s1, snd (consensus_Broadcast (pc_config s) 2 (pk_ser_proposal K p)) @ out))"
| "poe_emit K (OutCommit t # xs) s = poe_emit K xs (s\<lparr>pc_executor := executor_Commit (CommitMsgInternal t) (pc_executor s)\<rparr>)"

definition on_poe ::
  "poe_codec \<Rightarrow> (poe \<Rightarrow> bool \<times> poe \<times> poe_out list) \<Rightarrow> 's poe_consensus \<Rightarrow> (bool \<times> 's poe_consensus \<times> out_msg list) option" where
  "on_poe K f s =
     (case pc_poe s of
        None \<Rightarrow> None
      | Some p \<Rightarrow> let (b, p1, xs) = f p; (s1, out) = poe_emit K xs (s\<lparr>pc_poe := Some p1\<rparr>) in Some (b, s1, out))"

definition poe_ProcessCustomConsensus :: "poe_codec \<Rightarrow> request \<Rightarrow> 's poe_consensus \<Rightarrow> (int \<times> 's poe_consensus \<times> out_msg list) option" where
  "poe_ProcessCustomConsensus K r s =
     (if rq_user_type r = 1
      then Option.bind (pk_parse_txn K (rq_data r)) (\<lambda>t. map_option (\<lambda>(_, s1, out). (0, s1, out)) (on_poe K (ReceivePropose t) s))
      else if rq_user_type r = 2
      then Option.bind (pk_parse_proposal K (rq_data r)) (\<lambda>p. map_option (\<lambda>(_, s1, out). (0, s1, out)) (on_poe K (ReceivePrepare p) s))
      else Some (0, s, []))"

text \<open>A 64-bit proxy number is stored as an \<open>int32\<close>.\<close>

definition poe_ProcessNewTransaction ::
  "poe_codec \<Rightarrow> uint64 \<Rightarrow> request \<Rightarrow> 's poe_consensus \<Rightarrow> (int \<times> 's poe_consensus \<times> out_msg list) option" where
  "poe_ProcessNewTransaction K now r s =
     (let t = empty_poe_txn\<lparr>pt_data := rq_data r, pt_hash := rq_hash r, pt_proxy_id := i32 (rq_proxy_id r), pt_uid := rq_uid r\<rparr>
      in map_option (\<lambda>(b, s1, out). (if b then 1 else 0, s1, out)) (on_poe K (ReceiveTransaction now t) s))"

text \<open>The first two cases of the switch have no break: outside performance mode they fall through to the
  third.\<close>

definition poe_ConsensusCommit ::
  "poe_codec \<Rightarrow> batch_codec \<Rightarrow> (nat \<Rightarrow> string) \<Rightarrow> uint64 \<Rightarrow> request \<Rightarrow> 's poe_consensus \<Rightarrow> (int \<times> 's poe_consensus \<times> out_msg list) option" where
  "poe_ConsensusCommit K B data now r s =
     (let perf = (\<lambda>f. case pc_performance s of
                        None \<Rightarrow> None
                      | Some p \<Rightarrow> Some (fst (f p), s\<lparr>pc_performance := Some (snd (f p))\<rparr>, []));
          new_txn = poe_ProcessNewTransaction K now r s
      in case rq_type r of
           TYPE_CLIENT_REQUEST \<Rightarrow> if IsPerformanceRunning (pc_config s) then perf (fp_StartEval data) else new_txn
         | TYPE_RESPONSE \<Rightarrow> if IsPerformanceRunning (pc_config s) then perf (fp_ProcessResponseMsg B r) else new_txn
         | TYPE_NEW_TXNS \<Rightarrow> new_txn
         | TYPE_CUSTOM_CONSENSUS \<Rightarrow> poe_ProcessCustomConsensus K r s
         | _ \<Rightarrow> Some (0, s, []))"

section \<open>Runs of the protocol\<close>

datatype poe_event = EvNew uint64 poe_txn | EvPropose poe_txn | EvPrepare poe_proposal

fun poe_step :: "poe_event \<Rightarrow> poe \<Rightarrow> poe \<times> poe_out list" where
  "poe_step (EvNew now t) s = snd (ReceiveTransaction now t s)"
| "poe_step (EvPropose t) s = snd (ReceivePropose t s)"
| "poe_step (EvPrepare p) s = snd (ReceivePrepare p s)"

fun poe_run :: "poe_event list \<Rightarrow> poe \<Rightarrow> poe \<times> poe_out list" where
  "poe_run [] s = (s, [])"
| "poe_run (e # es) s = (let (s1, out1) = poe_step e s; (s2, out2) = poe_run es s1 in (s2, out1 @ out2))"

definition poe_voters :: "poe_event list \<Rightarrow> string \<Rightarrow> int set" where
  "poe_voters es h = pv_proposer ` {p. EvPrepare p \<in> set es \<and> pv_hash p = h}"

definition poe_inv :: "int \<Rightarrow> poe_event list \<Rightarrow> poe \<Rightarrow> bool" where
  "poe_inv f es s \<longleftrightarrow> px_f s = f \<and> (\<forall>h. sm_get {} h (px_received s) = poe_voters es h)
     \<and> (\<forall>h t. sm_find h (px_data s) = Some t \<longrightarrow> pt_hash t = h \<and> EvPropose t \<in> set es)"

lemma finite_poe_voters [simp]: "finite (poe_voters es h)"
proof -
  have "{p. EvPrepare p \<in> set es \<and> pv_hash p = h} \<subseteq> (\<lambda>e. case e of EvPrepare p \<Rightarrow> p | _ \<Rightarrow> undefined) ` set es" by force
  then show ?thesis unfolding poe_voters_def by (meson finite_imageI finite_set finite_subset)
qed

lemma poe_voters_append:
  "poe_voters (es @ [e]) h = poe_voters es h \<union> (case e of EvPrepare p \<Rightarrow> if pv_hash p = h then {pv_proposer p} else {} | _ \<Rightarrow> {})"
  by (auto simp: poe_voters_def split: poe_event.splits if_splits)

lemma poe_step_inv:
  assumes "poe_inv f es s" "poe_step e s = (s', out)"
  shows "poe_inv f (es @ [e]) s'
    \<and> (\<forall>t. OutCommit t \<in> set out \<longrightarrow> EvPropose t \<in> set (es @ [e])
         \<and> (word_of_int (2 * f + 1) :: uint64) \<le> of_nat (card (poe_voters (es @ [e]) (pt_hash t))))"
proof (cases e)
  case (EvPrepare p)
  let ?v = "insert (pv_proposer p) (sm_get {} (pv_hash p) (px_received s))"
  have v: "?v = poe_voters (es @ [e]) (pv_hash p)" using assms(1) EvPrepare by (simp add: poe_inv_def poe_voters_append)
  have r: "sm_get {} h (sm_put (pv_hash p) ?v (px_received s)) = poe_voters (es @ [e]) h" for h
    using assms(1) EvPrepare v by (simp add: poe_inv_def poe_voters_append)
  have "s' = s\<lparr>px_received := sm_put (pv_hash p) ?v (px_received s)\<rparr> \<and> out = []
      \<or> (\<exists>t. sm_find (pv_hash p) (px_data s) = Some t \<and> (word_of_int (2 * px_f s + 1) :: uint64) \<le> of_nat (card ?v)
          \<and> s' = s\<lparr>px_received := sm_put (pv_hash p) ?v (px_received s), px_data := sm_erase (pv_hash p) (px_data s)\<rparr> \<and> out = [OutCommit t])"
    using assms(2) EvPrepare by (auto simp: ReceivePrepare_def Let_def split: option.splits if_splits)
  then show ?thesis
  proof (elim disjE exE conjE)
    fix t assume t: "sm_find (pv_hash p) (px_data s) = Some t" "(word_of_int (2 * px_f s + 1) :: uint64) \<le> of_nat (card ?v)"
      "s' = s\<lparr>px_received := sm_put (pv_hash p) ?v (px_received s), px_data := sm_erase (pv_hash p) (px_data s)\<rparr>" "out = [OutCommit t]"
    then show ?thesis using assms(1) r unfolding v by (auto simp: poe_inv_def)
  qed (use assms(1) r in \<open>auto simp: poe_inv_def\<close>)
qed (use assms in \<open>auto simp: poe_inv_def ReceiveTransaction_def ReceivePropose_def poe_voters_append split: if_splits\<close>)

lemma poe_voters_mono: "set es \<subseteq> set es' \<Longrightarrow> poe_voters es h \<subseteq> poe_voters es' h"
  by (auto simp: poe_voters_def)

lemma uint_word_of_int_small: "0 \<le> x \<Longrightarrow> x < 2 ^ 64 \<Longrightarrow> uint (word_of_int x :: uint64) = x"
  by (simp add: uint_word_of_int)

lemma poe_run_inv:
  assumes "poe_inv f es s" "poe_run es' s = (s', out)" "0 \<le> f" "2 * f + 1 < 2 ^ 64"
    "\<And>h. card (poe_voters (es @ es') h) < 2 ^ 64"
  shows "poe_inv f (es @ es') s' \<and> (\<forall>t. OutCommit t \<in> set out \<longrightarrow> EvPropose t \<in> set (es @ es')
      \<and> 2 * f + 1 \<le> int (card (poe_voters (es @ es') (pt_hash t))))"
  using assms
proof (induction es' arbitrary: es s out)
  case (Cons e es')
  obtain s1 out1 out2 where st: "poe_step e s = (s1, out1)" and run: "poe_run es' s1 = (s', out2)" and out: "out = out1 @ out2"
    using Cons.prems(2) by (auto split: prod.splits)
  note one = poe_step_inv [OF Cons.prems(1) st]
  have "2 * f + 1 \<le> int (card (poe_voters (es @ e # es') (pt_hash t)))" if "OutCommit t \<in> set out1" for t
  proof -
    have le: "card (poe_voters (es @ [e]) (pt_hash t)) \<le> card (poe_voters (es @ e # es') (pt_hash t))"
      by (rule card_mono) (auto intro: poe_voters_mono [THEN subsetD, rotated])
    then have "uint (of_nat (card (poe_voters (es @ [e]) (pt_hash t))) :: uint64) = int (card (poe_voters (es @ [e]) (pt_hash t)))"
      using Cons.prems(5) [of "pt_hash t"] by (simp add: unsigned_of_nat take_bit_nat_eq_self flip: uint_nat)
    moreover have "uint (word_of_int (2 * f + 1) :: uint64) = 2 * f + 1"
      by (rule uint_word_of_int_small) (use Cons.prems(3,4) in simp_all)
    ultimately show ?thesis using one that le unfolding word_le_def by fastforce
  qed
  moreover have "poe_inv f ((es @ [e]) @ es') s' \<and> (\<forall>t. OutCommit t \<in> set out2 \<longrightarrow> EvPropose t \<in> set ((es @ [e]) @ es')
      \<and> 2 * f + 1 \<le> int (card (poe_voters ((es @ [e]) @ es') (pt_hash t))))"
    using one Cons.prems(3-5) by (intro Cons.IH [OF _ run]) simp_all
  ultimately show ?case using one out by auto
qed simp

section \<open>Properties\<close>

text \<open>C22: a replica commits a transaction only if it received a proposal of that transaction, and
  PREPARE messages for its hash in the name of \<open>2 f + 1\<close> different replicas.\<close>

theorem poe_commit_certified:
  assumes "poe_run es (new_poe i f n) = (s, out)" "OutCommit t \<in> set out" "0 \<le> f" "2 * f + 1 < 2 ^ 64"
    "\<And>h. card (poe_voters es h) < 2 ^ 64"
  shows "EvPropose t \<in> set es \<and> 2 * f + 1 \<le> int (card (poe_voters es (pt_hash t)))"
proof -
  have "poe_inv f [] (new_poe i f n)" by (simp add: poe_inv_def new_poe_def poe_voters_def)
  then show ?thesis using poe_run_inv [of f "[]" "new_poe i f n" es s out] assms by simp
qed

text \<open>The votes for a hash outlive its commit. After a transaction was committed, one further
  proposal with its hash, of whatever sequence number and data, and one further PREPARE for the hash
  commit the new proposal too.\<close>

theorem poe_commits_hash_again:
  assumes "poe_run es (new_poe i f n) = (s, out)" "OutCommit t \<in> set out" "0 \<le> f" "2 * f + 1 < 2 ^ 64"
    and "\<And>h. card (poe_voters es h) < 2 ^ 64 - 1" "pt_hash t' = pt_hash t" "pv_hash p = pt_hash t"
  shows "OutCommit t' \<in> set (snd (poe_run [EvPropose t', EvPrepare p] s))"
proof -
  have inv0: "poe_inv f [] (new_poe i f n)" by (simp add: poe_inv_def new_poe_def poe_voters_def)
  have b: "card (poe_voters es h) < 2 ^ 64" for h using assms(5) [of h] by simp
  have inv: "poe_inv f es s" and votes: "2 * f + 1 \<le> int (card (poe_voters es (pt_hash t)))"
    using poe_run_inv [OF inv0, of es s out] assms(1-4) b by auto
  let ?v = "insert (pv_proposer p) (poe_voters es (pt_hash t))"
  have "card (poe_voters es (pt_hash t)) \<le> card ?v" "card ?v \<le> Suc (card (poe_voters es (pt_hash t)))"
    by (auto intro: card_mono simp: card_insert_if)
  then have "2 * f + 1 \<le> int (card ?v)" "card ?v < 2 ^ 64" using votes assms(5) [of "pt_hash t"] by linarith+
  moreover have "uint (word_of_int (2 * f + 1) :: uint64) = 2 * f + 1"
    by (rule uint_word_of_int_small) (use assms(3,4) in simp_all)
  moreover have "uint (of_nat k :: uint64) = int k" if "k < 2 ^ 64" for k
    using that by (simp add: unsigned_of_nat take_bit_nat_eq_self flip: uint_nat)
  ultimately have "(word_of_int (2 * f + 1) :: uint64) \<le> of_nat (card ?v)" unfolding word_le_def by presburger
  moreover have "px_f s = f" "sm_get {} (pt_hash t) (px_received s) = poe_voters es (pt_hash t)" using inv by (simp_all add: poe_inv_def)
  ultimately show ?thesis using assms(6,7) by (simp add: ReceivePropose_def ReceivePrepare_def Let_def)
qed

text \<open>The first transaction that a replica proposes is never executed. It has the sequence number 0,
  and an executor starts at 1: whatever it is given to commit, no request with number 0 is among
  those it executes.\<close>

theorem poe_first_transaction_lost:
  assumes "exec_run None parse evs (new_executor (Some tm) db) = (e, ns, outs)" "\<not> tm_is_out_of_order tm"
    "2 * length (commits evs) < 2 ^ 64 - 1"
  shows "\<exists>t'. snd (snd (ReceiveTransaction now t (new_poe i f n))) = [OutPropose t'] \<and> rq_seq (CommitMsgInternal t') = 0
    \<and> CommitMsgInternal t' \<notin> set (map fst outs)"
proof -
  obtain popped k where k: "ready k popped" "map fst outs @ te_execute_queue e = in_order None k popped" and c: "popped @ te_commit_queue e = commits evs"
    using exec_run_new [OF assms] by metis
  have "rq_seq r \<noteq> 0" if r: "r \<in> set (map fst outs)" for r
  proof -
    have "r \<in> set (in_order None k popped)" using r k(2) by (metis Un_iff set_append)
    then obtain j where j: "1 \<le> j" "j \<le> k" "r = the (first_with j popped)" by (auto simp: in_order_def apply_pre_def)
    have "first_with j popped \<noteq> None" using k(1) j(1,2) by (simp add: ready_def)
    then obtain r' where r': "first_with j popped = Some r'" by blast
    then have "unat (rq_seq r') = j" by (auto simp: first_with_def find_Some_iff)
    then have "unat (rq_seq r) = j" using j(3) r' by simp
    then show ?thesis using j(1) by auto
  qed
  then have no: "r \<notin> set (map fst outs)" if "rq_seq r = 0" for r using that by blast
  obtain t' where t': "snd (snd (ReceiveTransaction now t (new_poe i f n))) = [OutPropose t']" "pt_seq t' = 0"
    by (simp add: ReceiveTransaction_def new_poe_def)
  then have z: "rq_seq (CommitMsgInternal t') = 0" by (simp add: CommitMsgInternal_def)
  show ?thesis using t'(1) z no [OF z] by blast
qed

text \<open>Outside performance mode the proxy cannot take a request. A client request or a response that
  reaches a client node falls through to the handling of new transactions, where the protocol object
  is a null pointer.\<close>

theorem poe_proxy_null_protocol:
  assumes "new_poe_consensus cfg tm db verifier = Some s" "cf_node_kind cfg = CLIENT" "\<not> IsPerformanceRunning cfg"
    and "rq_type r = TYPE_CLIENT_REQUEST \<or> rq_type r = TYPE_RESPONSE"
  shows "poe_ConsensusCommit K B data now r s = None"
proof -
  have "pc_poe s = None" "pc_config s = cfg" using assms(1-3) by (auto simp: new_poe_consensus_def poe_Init_def Let_def)
  then show ?thesis using assms(3,4) by (auto simp: poe_ConsensusCommit_def poe_ProcessNewTransaction_def on_poe_def)
qed

definition demo_poe_txn :: "int \<Rightarrow> poe_txn" where
  "demo_poe_txn seq = empty_poe_txn\<lparr>pt_hash := ''h'', pt_seq := seq\<rparr>"

definition demo_poe_codec :: poe_codec where
  "demo_poe_codec = \<lparr>pk_ser_txn = pt_data, pk_parse_txn = (\<lambda>_. None), pk_ser_proposal = pv_hash, pk_parse_proposal = (\<lambda>_. None)\<rparr>"

definition demo_prepare_event :: "int \<Rightarrow> poe_event" where
  "demo_prepare_event i = EvPrepare \<lparr>pv_hash = ''h'', pv_proposer = i, pv_seq = 1\<rparr>"

definition demo_poe_run :: "poe_event list" where
  "demo_poe_run = [EvPropose (demo_poe_txn 1), demo_prepare_event 1, demo_prepare_event 2, demo_prepare_event 3]"

lemma demo_poe_commits: "\<exists>s. poe_run demo_poe_run (new_poe 1 1 4) = (s, [OutPrepare \<lparr>pv_hash = ''h'', pv_proposer = 1, pv_seq = 1\<rparr>, OutCommit (demo_poe_txn 1)])"
  by (simp add: demo_poe_run_def demo_prepare_event_def demo_poe_txn_def empty_poe_txn_def new_poe_def ReceivePropose_def ReceivePrepare_def
      Let_def sm_get_def word_le_nat_alt)

lemma demo_poe_voters: "card (poe_voters demo_poe_run h) \<le> 3"
proof -
  have "poe_voters demo_poe_run h \<subseteq> {1, 2, 3}" by (auto simp: poe_voters_def demo_poe_run_def demo_prepare_event_def)
  then have "card (poe_voters demo_poe_run h) \<le> card {1, 2, 3 :: int}" by (rule card_mono [rotated]) simp
  then show ?thesis by simp
qed

theorem poe_commit_certified_witness:
  "EvPropose (demo_poe_txn 1) \<in> set demo_poe_run \<and> 3 \<le> int (card (poe_voters demo_poe_run ''h''))"
proof -
  obtain s where s: "poe_run demo_poe_run (new_poe 1 1 4) = (s, [OutPrepare \<lparr>pv_hash = ''h'', pv_proposer = 1, pv_seq = 1\<rparr>, OutCommit (demo_poe_txn 1)])"
    using demo_poe_commits by blast
  have "card (poe_voters demo_poe_run h) < 2 ^ 64" for h using demo_poe_voters [of h] by simp
  then show ?thesis using poe_commit_certified [OF s, of "demo_poe_txn 1"] by (simp add: demo_poe_txn_def)
qed

theorem poe_commits_hash_again_witness:
  "\<exists>s out. poe_run demo_poe_run (new_poe 1 1 4) = (s, out) \<and> OutCommit (demo_poe_txn 1) \<in> set out
     \<and> OutCommit (demo_poe_txn 2) \<in> set (snd (poe_run [EvPropose (demo_poe_txn 2), demo_prepare_event 1] s))"
proof -
  obtain s where s: "poe_run demo_poe_run (new_poe 1 1 4) = (s, [OutPrepare \<lparr>pv_hash = ''h'', pv_proposer = 1, pv_seq = 1\<rparr>, OutCommit (demo_poe_txn 1)])"
    using demo_poe_commits by blast
  have "card (poe_voters demo_poe_run h) < 2 ^ 64 - 1" for h using demo_poe_voters [of h] by simp
  then have "OutCommit (demo_poe_txn 2) \<in> set (snd (poe_run [EvPropose (demo_poe_txn 2), demo_prepare_event 1] s))"
    unfolding demo_prepare_event_def using poe_commits_hash_again [OF s, of "demo_poe_txn 1" "demo_poe_txn 2" "\<lparr>pv_hash = ''h'', pv_proposer = 1, pv_seq = 1\<rparr>"]
    by (simp add: demo_poe_txn_def)
  then show ?thesis using s by auto
qed

theorem poe_first_transaction_lost_witness:
  "\<exists>e ns outs. exec_run None demo_parse [ECommit (CommitMsgInternal (demo_poe_txn 0)), EOrder, EExecute 0] (new_executor (Some demo_manager) [])
     = (e, ns, outs) \<and> \<not> tm_is_out_of_order demo_manager
   \<and> (\<exists>t'. snd (snd (ReceiveTransaction 0 (demo_poe_txn 0) (new_poe 1 1 4))) = [OutPropose t'] \<and> CommitMsgInternal t' \<notin> set (map fst outs))"
proof -
  obtain e ns outs where run: "exec_run None demo_parse [ECommit (CommitMsgInternal (demo_poe_txn 0)), EOrder, EExecute 0]
      (new_executor (Some demo_manager) []) = (e, ns, outs)" by (metis prod_cases3)
  have m: "\<not> tm_is_out_of_order demo_manager" by (simp add: demo_manager_def)
  show ?thesis using run m poe_first_transaction_lost [OF run m, of 0 "demo_poe_txn 0" 1 1 4] by auto
qed

theorem poe_proxy_null_protocol_witness:
  "\<exists>s. new_poe_consensus ((demo_config [1, 2, 3, 4])\<lparr>cf_node_kind := CLIENT\<rparr>) None () None = Some s
     \<and> poe_ConsensusCommit demo_poe_codec demo_batch_codec (\<lambda>_. []) 0 (empty_request\<lparr>rq_type := TYPE_CLIENT_REQUEST\<rparr>) s = None"
proof -
  let ?cfg = "(demo_config [1, 2, 3, 4])\<lparr>cf_node_kind := CLIENT\<rparr>"
  have c: "cf_node_kind ?cfg = CLIENT" "\<not> IsPerformanceRunning ?cfg" by (simp_all add: IsPerformanceRunning_def demo_config_def)
  obtain s :: "unit poe_consensus" where s: "new_poe_consensus ?cfg None () None = Some s"
    using c(2) by (auto simp: new_poe_consensus_def poe_Init_def Let_def)
  show ?thesis using s poe_proxy_null_protocol [OF s c, of "empty_request\<lparr>rq_type := TYPE_CLIENT_REQUEST\<rparr>"] by simp
qed

end
