(* ===== verification/Performance_Manager.thy ===== *)
theory Performance_Manager
  imports Response_Manager
begin

text \<open>
  \<open>PerformanceManager\<close> (platform/consensus/ordering/pbft/performance_manager.cpp): the proxy of a
  benchmark run, which makes up its own requests, keeps a count of batches under way per primary and
  follows the primary that the answers name.

  Two threads run \<open>BatchProposeMsg\<close>; \<open>pm_batch_req\<close> holds the local vector of each. \<open>highest_seq_\<close>,
  \<open>highest_seq_primary_id_\<close> and the semaphore are not initialised by the code: their first values are
  arguments. The results of the data function are an argument, by the number of the call.

  A step is one iteration of a thread or one call. The code has its locks commented out (lines 239 and
  258), so iterations of the two threads and calls of the workers may overlap, which the steps do not
  show; the parts \<open>pm_window_open\<close> and \<open>pm_propose\<close> of an iteration are definitions of their own for that
  reason. \<open>StartEval\<close> is one step: the code lets the threads start after 2000000 of its pushes.
\<close>

record performance_manager =
  pm_config :: resdb_config
  pm_pool :: collector_pool
  pm_batch_queue :: "(net_context option \<times> request) list"
  pm_batch_req :: "(net_context option \<times> request) list list"
  pm_stop :: bool
  pm_local_id :: uint64
  pm_send_num :: "int list"
  pm_total_num :: int
  pm_system_info :: system_info
  pm_verifier :: "signature_verifier option"
  pm_eval_started :: bool
  pm_eval_ready :: bool
  pm_waiting :: "(string, request option) std_map"
  pm_timeouts :: "client_timeout list"
  pm_timeout_length :: uint64
  pm_signals :: nat
  pm_highest_seq :: uint64
  pm_highest_seq_primary_id :: uint64

definition new_performance_manager ::
  "resdb_config \<Rightarrow> system_info \<Rightarrow> signature_verifier option \<Rightarrow> nat \<Rightarrow> uint64 \<Rightarrow> uint64 \<Rightarrow> performance_manager option" where
  "new_performance_manager cfg si verifier sem hs hp =
     map_option (\<lambda>p. \<lparr>pm_config = cfg, pm_pool = p, pm_batch_queue = [], pm_batch_req = [[], []], pm_stop = False,
         pm_local_id = 0, pm_send_num = replicate (Suc (GetReplicaNum cfg)) 0, pm_total_num = 0, pm_system_info = si,
         pm_verifier = verifier, pm_eval_started = False, pm_eval_ready = False, pm_waiting = [], pm_timeouts = [],
         pm_timeout_length = 100000000, pm_signals = sem, pm_highest_seq = hs, pm_highest_seq_primary_id = hp\<rparr>)
       (new_pool (GetMaxProcessTxn cfg) False False)"

definition pm_GetPrimary :: "performance_manager \<Rightarrow> int" where
  "pm_GetPrimary s = sint (GetPrimaryId (pm_system_info s))"

definition GenerateUserRequest :: "(nat \<Rightarrow> string) \<Rightarrow> nat \<Rightarrow> request" where
  "GenerateUserRequest data i = empty_request\<lparr>rq_data := data i\<rparr>"

definition eval_requests :: "(nat \<Rightarrow> string) \<Rightarrow> (net_context option \<times> request) list" where
  "eval_requests data = map (\<lambda>i. (None, GenerateUserRequest data i)) [0 ..< 60000000]"

definition StartEval :: "(nat \<Rightarrow> string) \<Rightarrow> performance_manager \<Rightarrow> int \<times> performance_manager" where
  "StartEval data s =
     (if pm_eval_started s then (0, s)
      else (0, s\<lparr>pm_eval_started := True, pm_eval_ready := True,
                 pm_batch_queue := pm_batch_queue s @ eval_requests data\<rparr>))"

section \<open>Requests that wait for a response\<close>

definition pm_AddWaitingResponseRequest :: "uint64 \<Rightarrow> request \<Rightarrow> performance_manager \<Rightarrow> performance_manager" where
  "pm_AddWaitingResponseRequest now r s =
     (if \<not> cd_enable_viewchange (cf_config_data (pm_config s)) then s
      else s\<lparr>pm_timeouts := \<lparr>to_hash = rq_hash r, to_timeout_time = now + pm_timeout_length s\<rparr> # pm_timeouts s,
             pm_waiting := sm_insert (rq_hash r) (Some r) (pm_waiting s), pm_signals := Suc (pm_signals s)\<rparr>)"

definition pm_RemoveWaitingResponseRequest :: "string \<Rightarrow> performance_manager \<Rightarrow> performance_manager" where
  "pm_RemoveWaitingResponseRequest hash s =
     (if \<not> cd_enable_viewchange (cf_config_data (pm_config s)) then s
      else s\<lparr>pm_waiting := sm_erase hash (pm_waiting s)\<rparr>)"

definition pm_CheckTimeOut :: "string \<Rightarrow> performance_manager \<Rightarrow> bool" where
  "pm_CheckTimeOut hash s \<longleftrightarrow> sm_find hash (pm_waiting s) \<noteq> None"

definition pm_GetTimeOutRequest :: "string \<Rightarrow> performance_manager \<Rightarrow> (request option \<times> performance_manager) option" where
  "pm_GetTimeOutRequest hash s =
     map_option (\<lambda>ro. (ro, s\<lparr>pm_waiting := sm_put hash None (pm_waiting s)\<rparr>)) (sm_find hash (pm_waiting s))"

definition pm_MonitoringClientTimeOut_step ::
  "env \<Rightarrow> performance_manager \<Rightarrow> (performance_manager \<times> out_msg list) option" where
  "pm_MonitoringClientTimeOut_step E s =
     (if pm_stop s \<or> pm_signals s = 0 then Some (s, [])
      else let s1 = s\<lparr>pm_signals := pm_signals s - 1\<rparr>
      in if pm_timeouts s1 = [] then Some (s1, [])
         else let t = top_timeout (en_pos E) (pm_timeouts s1);
                  s2 = s1\<lparr>pm_timeouts := remove1 t (pm_timeouts s1)\<rparr>
              in if pm_CheckTimeOut (to_hash t) s2
                 then map_option (\<lambda>(ro, s3). (s3, map Broadcast (opt_list ro))) (pm_GetTimeOutRequest (to_hash t) s2)
                 else Some (s2, []))"

section \<open>Responses\<close>

definition pm_MayConsensusChangeStatus ::
  "resdb_config \<Rightarrow> request_type \<Rightarrow> int \<Rightarrow> TransactionStatue \<Rightarrow> TransactionStatue \<times> bool" where
  "pm_MayConsensusChangeStatus cfg t count status =
     (if t = TYPE_RESPONSE \<and> status = STATUE_None \<and> GetMinClientReceiveNum cfg \<le> count
      then (EXECUTED, True) else (status, False))"

definition pm_response_cb :: "resdb_config \<Rightarrow> request option callback" where
  "pm_response_cb cfg r count status force =
     (let (st, ch) = pm_MayConsensusChangeStatus cfg (rq_type r) (int count) status
      in (st, if ch then Some r else None))"

text \<open>The collector is chosen by the sequence number of the response, not by the local id.\<close>

definition pm_AddResponseMsg ::
  "env \<Rightarrow> batch_codec \<Rightarrow> signature_info \<Rightarrow> request \<Rightarrow> performance_manager
     \<Rightarrow> (CollectorResultCode \<times> request option \<times> performance_manager) option" where
  "pm_AddResponseMsg E B sig r s =
     (case bc_parse_response B (rq_data r) of
        None \<Rightarrow> Some (RC_INVALID, None, s)
      | Some _ \<Rightarrow>
          (case GetCollector (rq_seq r) (pm_pool s) of
             None \<Rightarrow> None
           | Some c \<Rightarrow>
               (case AddRequest (en_pos E) (pm_response_cb (pm_config s)) (Some r) sig False c of
                  None \<Rightarrow> None
                | Some (ret, c', res, _) \<Rightarrow>
                    let s1 = s\<lparr>pm_pool := SetCollector (rq_seq r) c' (pm_pool s)\<rparr>
                    in if ret \<noteq> 0 then Some (RC_INVALID, None, s1)
                       else case Option.bind res (\<lambda>x. x) of
                              None \<Rightarrow> Some (RC_OK, None, s1)
                            | Some x \<Rightarrow>
                                map_option (\<lambda>p. (RC_STATE_CHANGED, Some x, s1\<lparr>pm_pool := p\<rparr>))
                                  (pool_Update (rq_seq r) (pm_pool s1)))))"

text \<open>Reading or writing \<open>send_num_\<close> outside the vector is undefined.\<close>

definition pm_SendResponseToClient :: "batch_user_response \<Rightarrow> performance_manager \<Rightarrow> performance_manager option" where
  "pm_SendResponseToClient resp s =
     (let i = rs_primary_id resp
      in if i < 0 \<or> int (length (pm_send_num s)) \<le> i then None
         else if pm_send_num s ! nat i > 0
         then Some (s\<lparr>pm_send_num := (pm_send_num s)[nat i := pm_send_num s ! nat i - 1]\<rparr>)
         else Some s)"

definition follow_primary :: "uint64 \<Rightarrow> int \<Rightarrow> performance_manager \<Rightarrow> performance_manager" where
  "follow_primary seq primary_id s =
     (if pm_highest_seq s < seq
      then let s1 = s\<lparr>pm_highest_seq := seq\<rparr>
           in if pm_highest_seq_primary_id s1 \<noteq> word_of_int primary_id
              then s1\<lparr>pm_system_info := SetPrimary (word_of_int primary_id) (pm_system_info s1),
                      pm_highest_seq_primary_id := word_of_int primary_id\<rparr>
              else s1
      else s)"

definition pm_ProcessResponseMsg ::
  "env \<Rightarrow> batch_codec \<Rightarrow> net_context \<Rightarrow> request \<Rightarrow> performance_manager \<Rightarrow> (int \<times> performance_manager) option" where
  "pm_ProcessResponseMsg E B cx r s =
     (if rq_ret r = -2 then Some (0, pm_RemoveWaitingResponseRequest (rq_hash r) s)
      else case pm_AddResponseMsg E B (cx_signature cx) r s of
             None \<Rightarrow> None
           | Some (RC_STATE_CHANGED, Some x, s1) \<Rightarrow>
               (case bc_parse_response B (rq_data x) of
                  None \<Rightarrow> Some (0, s1)
                | Some resp \<Rightarrow>
                    map_option (\<lambda>s2. (0, pm_RemoveWaitingResponseRequest (rq_hash r) s2))
                      (pm_SendResponseToClient resp (follow_primary (rq_seq r) (rq_primary_id r) s1)))
           | Some (code, _, s1) \<Rightarrow> Some (if code = RC_INVALID then -2 else 0, s1))"

section \<open>Batches\<close>

definition pm_batch :: "(net_context option \<times> request) list \<Rightarrow> batch_user_request" where
  "pm_batch items = empty_batch\<lparr>br_user_requests :=
     map (\<lambda>(i, cx, r). \<lparr>ur_request = r,
            ur_signature = (case cx of None \<Rightarrow> empty_signature | Some x \<Rightarrow> cx_signature x), ur_id = int i\<rparr>)
       (enumerate 0 items)\<rparr>"

definition pm_DoBatch ::
  "env \<Rightarrow> batch_codec \<Rightarrow> (net_context option \<times> request) list \<Rightarrow> performance_manager
     \<Rightarrow> (int \<times> performance_manager \<times> out_msg list) option" where
  "pm_DoBatch E B items s =
     (let b = (pm_batch items)\<lparr>br_createtime := en_now E, br_local_id := pm_local_id s\<rparr>;
          self = rep_id (cf_self_info (pm_config s)); data = bc_ser_batch B b; p = pm_GetPrimary s;
          r = (NewRequest TYPE_NEW_TXNS empty_request self)
                \<lparr>rq_data := data,
                 rq_data_signature := map_option (\<lambda>sv. SignMessage (en_crypto E) sv data) (pm_verifier s),
                 rq_hash := CalculateHash (en_crypto E) data, rq_proxy_id := self\<rparr>
      in if p < 0 \<or> int (length (pm_send_num s)) \<le> p then None
         else Some (0, pm_AddWaitingResponseRequest (en_now E) r
                (s\<lparr>pm_local_id := pm_local_id s + 1, pm_send_num := (pm_send_num s)[nat p := i32 (pm_send_num s ! nat p + 1)],
                   pm_total_num := i32 (pm_total_num s + 1), pm_stop := (pm_stop s \<or> pm_total_num s = 1000000)\<rparr>),
              [SendTo r p]))"

definition pm_send_batch :: "env \<Rightarrow> batch_codec \<Rightarrow> nat \<Rightarrow> performance_manager \<Rightarrow> (performance_manager \<times> out_msg list) option" where
  "pm_send_batch E B t s =
     map_option (\<lambda>(_, s1, out). (s1\<lparr>pm_batch_req := (pm_batch_req s1)[t := []]\<rparr>, out)) (pm_DoBatch E B (pm_batch_req s ! t) s)"

text \<open>An iteration of thread \<open>t\<close> compares the count with its maximum and then goes on, \<open>popped\<close> as for the
  response manager. Nothing keeps the other thread out between the two parts: the lock around them is
  commented out.\<close>

definition pm_window_open :: "performance_manager \<Rightarrow> bool option" where
  "pm_window_open s =
     (let p = pm_GetPrimary s
      in if p < 0 \<or> int (length (pm_send_num s)) \<le> p then None
         else Some ((word_of_int (pm_send_num s ! nat p) :: uint32) < GetMaxProcessTxn (pm_config s)))"

definition pm_propose ::
  "env \<Rightarrow> batch_codec \<Rightarrow> nat \<Rightarrow> bool \<Rightarrow> performance_manager \<Rightarrow> (performance_manager \<times> out_msg list) option" where
  "pm_propose E B t popped s =
     (let full = (\<lambda>b. unat (ClientBatchNum (pm_config s)) \<le> length b)
      in if full (pm_batch_req s ! t) then pm_send_batch E B t s
         else case pm_batch_queue s of
                [] \<Rightarrow> Some (s, [])
              | x # q \<Rightarrow>
                  if \<not> popped then Some (s, [])
                  else let b = pm_batch_req s ! t @ [x];
                           s1 = s\<lparr>pm_batch_queue := q, pm_batch_req := (pm_batch_req s)[t := b]\<rparr>
                       in if full b then pm_send_batch E B t s1 else Some (s1, []))"

text \<open>An iteration that the other thread does not interrupt.\<close>

definition pm_BatchProposeMsg_step ::
  "env \<Rightarrow> batch_codec \<Rightarrow> nat \<Rightarrow> bool \<Rightarrow> performance_manager \<Rightarrow> (performance_manager \<times> out_msg list) option" where
  "pm_BatchProposeMsg_step E B t popped s =
     (if pm_stop s \<or> \<not> pm_eval_ready s then Some (s, [])
      else case pm_window_open s of
             None \<Rightarrow> None
           | Some False \<Rightarrow> Some (s, [])
           | Some True \<Rightarrow> pm_propose E B t popped s)"

section \<open>Runs\<close>

datatype pm_event =
    PmStart "nat \<Rightarrow> string"
  | PmResponse env net_context request
  | PmBatch env nat bool
  | PmTimeout env

fun pm_step :: "batch_codec \<Rightarrow> pm_event \<Rightarrow> performance_manager \<Rightarrow> performance_manager option" where
  "pm_step B (PmStart data) s = Some (snd (StartEval data s))"
| "pm_step B (PmResponse E cx r) s = map_option snd (pm_ProcessResponseMsg E B cx r s)"
| "pm_step B (PmBatch E t popped) s = map_option fst (pm_BatchProposeMsg_step E B t popped s)"
| "pm_step B (PmTimeout E) s = map_option fst (pm_MonitoringClientTimeOut_step E s)"

fun pm_run :: "batch_codec \<Rightarrow> performance_manager \<Rightarrow> pm_event list \<Rightarrow> performance_manager option" where
  "pm_run B s [] = Some s"
| "pm_run B s (e # es) = Option.bind (pm_step B e s) (\<lambda>s1. pm_run B s1 es)"

definition pm_inv :: "resdb_config \<Rightarrow> performance_manager \<Rightarrow> bool" where
  "pm_inv cfg s \<longleftrightarrow> pm_config s = cfg \<and> (\<forall>n \<in> set (pm_send_num s). 0 \<le> n \<and> n \<le> uint (GetMaxProcessTxn cfg))"

lemma pm_inv_cong: "pm_config s' = pm_config s \<and> pm_send_num s' = pm_send_num s \<Longrightarrow> pm_inv cfg s' = pm_inv cfg s"
  by (simp add: pm_inv_def)

lemma pm_inv_update:
  assumes "pm_inv cfg s" "pm_config s' = pm_config s" "pm_send_num s' = (pm_send_num s)[i := n]" "0 \<le> n" "n \<le> uint (GetMaxProcessTxn cfg)"
  shows "pm_inv cfg s'"
  using assms by (auto simp: pm_inv_def dest!: set_update_subset_insert [THEN subsetD])

lemma pm_AddResponseMsg_frame:
  "pm_AddResponseMsg E B sig r s = Some (code, x, s') \<Longrightarrow> pm_config s' = pm_config s \<and> pm_send_num s' = pm_send_num s"
  unfolding pm_AddResponseMsg_def Let_def by (auto split: option.splits if_splits)

lemma pm_wait_frame [simp]:
  "pm_config (pm_RemoveWaitingResponseRequest h s) = pm_config s" "pm_send_num (pm_RemoveWaitingResponseRequest h s) = pm_send_num s"
  "pm_config (pm_AddWaitingResponseRequest now r s) = pm_config s" "pm_send_num (pm_AddWaitingResponseRequest now r s) = pm_send_num s"
  "pm_config (follow_primary seq p s) = pm_config s" "pm_send_num (follow_primary seq p s) = pm_send_num s"
  by (simp_all add: pm_RemoveWaitingResponseRequest_def pm_AddWaitingResponseRequest_def follow_primary_def Let_def)

lemma pm_SendResponse_inv:
  assumes "pm_inv cfg s" "pm_SendResponseToClient resp s = Some s'"
  shows "pm_inv cfg s'"
proof -
  let ?i = "nat (rs_primary_id resp)"
  have i: "?i < length (pm_send_num s)" using assms(2) by (auto simp: pm_SendResponseToClient_def Let_def split: if_splits)
  then have n: "0 \<le> pm_send_num s ! ?i" "pm_send_num s ! ?i \<le> uint (GetMaxProcessTxn cfg)"
    using assms(1) nth_mem by (auto simp: pm_inv_def)
  consider "s' = s" | "0 < pm_send_num s ! ?i" "s' = s\<lparr>pm_send_num := (pm_send_num s)[?i := pm_send_num s ! ?i - 1]\<rparr>"
    using assms(2) by (auto simp: pm_SendResponseToClient_def Let_def split: if_splits)
  then show ?thesis using assms(1) n by cases (auto intro: pm_inv_update [OF assms(1)])
qed

lemma pm_ProcessResponse_inv:
  assumes inv: "pm_inv cfg s" and st: "pm_ProcessResponseMsg E B cx r s = Some (ret, s')"
  shows "pm_inv cfg s'"
proof (cases "rq_ret r = -2")
  case True
  then show ?thesis using st inv by (auto simp: pm_ProcessResponseMsg_def pm_inv_def)
next
  case False
  then obtain code x s1 where add: "pm_AddResponseMsg E B (cx_signature cx) r s = Some (code, x, s1)"
    using st by (auto simp: pm_ProcessResponseMsg_def split: option.splits)
  have s1: "pm_inv cfg s1" using pm_inv_cong [OF pm_AddResponseMsg_frame [OF add]] inv by simp
  have f: "pm_inv cfg (follow_primary (rq_seq r) (rq_primary_id r) s1)" using s1 by (simp add: pm_inv_def)
  consider "s' = s1" | resp s2 where "pm_SendResponseToClient resp (follow_primary (rq_seq r) (rq_primary_id r) s1) = Some s2"
      "s' = pm_RemoveWaitingResponseRequest (rq_hash r) s2"
    using st False add by (auto simp: pm_ProcessResponseMsg_def split: option.splits CollectorResultCode.splits)
  then show ?thesis using s1 pm_SendResponse_inv [OF f] by cases (auto simp: pm_inv_def)
qed

lemma pm_send_batch_inv:
  assumes inv: "pm_inv cfg s" and max: "uint (GetMaxProcessTxn cfg) < 2 ^ 31"
    and below: "pm_send_num s ! nat (pm_GetPrimary s) < uint (GetMaxProcessTxn cfg)"
    and st: "pm_send_batch E B t s = Some (s', out)"
  shows "pm_inv cfg s'"
proof -
  let ?i = "nat (pm_GetPrimary s)"
  have i: "?i < length (pm_send_num s)" using st by (auto simp: pm_send_batch_def pm_DoBatch_def Let_def split: if_splits)
  then have n: "0 \<le> pm_send_num s ! ?i" using inv nth_mem by (auto simp: pm_inv_def)
  have "i32 (pm_send_num s ! ?i + 1) = pm_send_num s ! ?i + 1" using n below max by simp
  moreover have "pm_config s' = pm_config s" "pm_send_num s' = (pm_send_num s)[?i := i32 (pm_send_num s ! ?i + 1)]"
    using st by (auto simp: pm_send_batch_def pm_DoBatch_def Let_def split: if_splits)
  ultimately show ?thesis using n below by (intro pm_inv_update [OF inv, of s' ?i "pm_send_num s ! ?i + 1"]) simp_all
qed

lemma pm_Batch_inv:
  assumes inv: "pm_inv cfg s" and max: "uint (GetMaxProcessTxn cfg) < 2 ^ 31"
    and st: "pm_BatchProposeMsg_step E B t popped s = Some (s', out)"
  shows "pm_inv cfg s'"
proof (cases "s' = s")
  case False
  let ?n = "pm_send_num s ! nat (pm_GetPrimary s)"
  have p: "\<not> (pm_GetPrimary s < 0 \<or> int (length (pm_send_num s)) \<le> pm_GetPrimary s)"
    and lt: "\<not> GetMaxProcessTxn (pm_config s) \<le> word_of_int ?n" and pr: "pm_propose E B t popped s = Some (s', out)"
    using st False by (auto simp: pm_BatchProposeMsg_step_def pm_window_open_def Let_def split: if_splits bool.splits)
  have n: "0 \<le> ?n" "?n \<le> uint (GetMaxProcessTxn cfg)" using p inv nth_mem [of "nat (pm_GetPrimary s)"] by (auto simp: pm_inv_def)
  have cfg: "pm_config s = cfg" using inv by (simp add: pm_inv_def)
  have "uint (word_of_int ?n :: uint32) = ?n" using n max by (simp add: unsigned_of_int take_bit_int_eq_self)
  then have below: "?n < uint (GetMaxProcessTxn cfg)" using lt by (simp add: word_le_def cfg)
  have sb: "pm_inv cfg s'" if "pm_send_batch E B t s2 = Some (s', out)" "pm_config s2 = pm_config s" "pm_send_num s2 = pm_send_num s"
      "pm_system_info s2 = pm_system_info s" for s2
    using pm_send_batch_inv [OF _ max _ that(1)] pm_inv_cong [of s2 s] that inv below by (simp add: pm_GetPrimary_def)
  show ?thesis
  proof (cases "unat (ClientBatchNum (pm_config s)) \<le> length (pm_batch_req s ! t)")
    case True
    then show ?thesis using pr sb [of s] by (simp add: pm_propose_def Let_def)
  next
    case nf: False
    obtain x q where q: "pm_batch_queue s = x # q" "popped"
      using pr False nf by (auto simp: pm_propose_def Let_def split: if_splits list.splits)
    let ?b = "pm_batch_req s ! t @ [x]"
    let ?s1 = "s\<lparr>pm_batch_queue := q, pm_batch_req := (pm_batch_req s)[t := ?b]\<rparr>"
    have "pm_send_batch E B t ?s1 = Some (s', out) \<or> s' = ?s1"
      using pr nf q by (auto simp: pm_propose_def Let_def split: if_splits)
    then show ?thesis using sb [of ?s1] pm_inv_cong [of ?s1 s cfg] inv by auto
  qed
qed (use inv in simp)

lemma StartEval_frame: "pm_config (snd (StartEval data s)) = pm_config s" "pm_send_num (snd (StartEval data s)) = pm_send_num s"
  by (simp_all add: StartEval_def)

lemma pm_step_inv:
  assumes "pm_inv cfg s" "uint (GetMaxProcessTxn cfg) < 2 ^ 31" "pm_step B e s = Some s'"
  shows "pm_inv cfg s'"
proof (cases e)
  case (PmTimeout E)
  then show ?thesis using assms(1,3)
    by (auto simp: pm_MonitoringClientTimeOut_step_def pm_GetTimeOutRequest_def Let_def pm_inv_def split: if_splits)
next
  case (PmStart data)
  then have "pm_config s' = pm_config s \<and> pm_send_num s' = pm_send_num s" using assms(3) StartEval_frame [of data s] by auto
  then show ?thesis using pm_inv_cong assms(1) by blast
next
  case (PmResponse E cx r)
  then obtain ret where "pm_ProcessResponseMsg E B cx r s = Some (ret, s')" using assms(3) by auto
  then show ?thesis by (rule pm_ProcessResponse_inv [OF assms(1)])
next
  case (PmBatch E t popped)
  then obtain out where "pm_BatchProposeMsg_step E B t popped s = Some (s', out)" using assms(3) by auto
  then show ?thesis by (rule pm_Batch_inv [OF assms(1,2)])
qed

text \<open>As long as iterations and answers do not overlap, the number of batches under way for each primary
  stays between 0 and \<open>GetMaxProcessTxn\<close>. The code does not see to that: see \<open>performance_window_race\<close>.\<close>

theorem performance_window_bounded:
  assumes "new_performance_manager cfg si v sem hs hp = Some s0" "uint (GetMaxProcessTxn cfg) < 2 ^ 31"
    and "pm_run B s0 es = Some s" "n \<in> set (pm_send_num s)"
  shows "0 \<le> n \<and> n \<le> uint (GetMaxProcessTxn cfg)"
proof -
  have "pm_inv cfg s" if "pm_inv cfg t" "pm_run B t es = Some s" for t
    using that
  proof (induction es arbitrary: t)
    case (Cons e es)
    then obtain t1 where "pm_step B e t = Some t1" "pm_run B t1 es = Some s" by (auto simp: bind_eq_Some)
    then show ?case using Cons.IH pm_step_inv [OF Cons.prems(1) assms(2)] by blast
  qed simp
  moreover have "pm_inv cfg s0" using assms(1) by (auto simp: new_performance_manager_def pm_inv_def split: if_splits)
  ultimately have "pm_inv cfg s" using assms(3) by blast
  then show ?thesis using assms(4) by (simp add: pm_inv_def)
qed


theorem performance_window_bounded_witness:
  "\<exists>s0 s. new_performance_manager (demo_config [1, 2, 3, 4]) \<lparr>si_primary_id = 1, si_view = 1, si_replicas = []\<rparr> None 1 0 0 = Some s0
     \<and> pm_run demo_batch_codec s0 [PmTimeout demo_env, PmResponse demo_env (fst demo_user) (empty_request\<lparr>rq_ret := -2\<rparr>), PmBatch demo_env 0 True]
         = Some s
     \<and> pm_send_num s = [0, 0, 0, 0, 0] \<and> (0 :: int) \<le> 0 \<and> (0 :: int) \<le> uint (GetMaxProcessTxn (demo_config [1, 2, 3, 4]))"
proof -
  let ?es = "[PmTimeout demo_env, PmResponse demo_env (fst demo_user) (empty_request\<lparr>rq_ret := -2\<rparr>), PmBatch demo_env 0 True]"
  obtain p where p: "new_pool 2 False False = Some p" by (rule new_pool_wf [of 2 False False]) simp_all
  have num: "GetReplicaNum (demo_config [1, 2, 3, 4]) = 4" by (simp add: GetReplicaNum_def demo_config_def)
  obtain s0 where s0: "new_performance_manager (demo_config [1, 2, 3, 4]) \<lparr>si_primary_id = 1, si_view = 1, si_replicas = []\<rparr> None 1 0 0 = Some s0"
    and f: "pm_send_num s0 = [0, 0, 0, 0, 0]" "pm_timeouts s0 = []" "\<not> pm_stop s0" "\<not> pm_eval_ready s0"
    using p by (simp add: new_performance_manager_def demo_client_num num eval_nat_numeral)
  obtain s1 where s1: "pm_step demo_batch_codec (PmTimeout demo_env) s0 = Some s1" "pm_send_num s1 = [0, 0, 0, 0, 0]" "\<not> pm_stop s1" "\<not> pm_eval_ready s1"
    using f by (cases "pm_signals s0") (simp_all add: pm_MonitoringClientTimeOut_step_def)
  let ?s2 = "pm_RemoveWaitingResponseRequest [] s1"
  have s2: "pm_step demo_batch_codec (PmResponse demo_env (fst demo_user) (empty_request\<lparr>rq_ret := -2\<rparr>)) s1 = Some ?s2"
    by (simp add: pm_ProcessResponseMsg_def empty_request_def)
  have "\<not> pm_eval_ready ?s2" using s1(4) by (simp add: pm_RemoveWaitingResponseRequest_def)
  then have s3: "pm_step demo_batch_codec (PmBatch demo_env 0 True) ?s2 = Some ?s2"
    by (simp add: pm_BatchProposeMsg_step_def Let_def)
  have s: "pm_run demo_batch_codec s0 ?es = Some ?s2" using s1(1) s2 s3 by (simp del: pm_step.simps)
  have "0 \<in> set (pm_send_num ?s2)" using s1(2) by simp
  from performance_window_bounded [OF s0 _ s this] show ?thesis
    using s0 s s1(2) by (intro exI [of _ s0] exI [of _ ?s2]) (simp add: demo_client_num del: pm_step.simps)
qed

text \<open>C38: the bound on the batches under way is not kept. When both threads miss one request for a full batch
  and make the comparison before either of them goes on, both send although one place is left: the count
  of the primary is one above \<open>GetMaxProcessTxn\<close>.\<close>

theorem performance_window_race:
  assumes "pm_GetPrimary s = p" "0 \<le> p" "p < int (length (pm_send_num s))"
    and "pm_send_num s ! nat p = uint (GetMaxProcessTxn (pm_config s)) - 1"
      "0 < uint (GetMaxProcessTxn (pm_config s))" "uint (GetMaxProcessTxn (pm_config s)) < 2 ^ 31 - 1"
    and "i \<noteq> j" "i < length (pm_batch_req s)" "j < length (pm_batch_req s)"
      "Suc (length (pm_batch_req s ! i)) = unat (ClientBatchNum (pm_config s))"
      "Suc (length (pm_batch_req s ! j)) = unat (ClientBatchNum (pm_config s))"
    and "pm_batch_queue s = x # y # q"
  shows "pm_window_open s = Some True \<and> (\<exists>s1 s2 out1 out2. pm_propose E B i True s = Some (s1, out1)
    \<and> pm_propose E' B j True s1 = Some (s2, out2)
    \<and> pm_send_num s2 ! nat p = uint (GetMaxProcessTxn (pm_config s)) + 1)"
proof -
  let ?m = "uint (GetMaxProcessTxn (pm_config s))"
  have send: "\<exists>t' out. pm_propose E B k True t = Some (t', out) \<and> pm_config t' = pm_config t
      \<and> pm_system_info t' = pm_system_info t \<and> length (pm_send_num t') = length (pm_send_num t)
      \<and> length (pm_batch_req t') = length (pm_batch_req t) \<and> pm_batch_queue t' = tl (pm_batch_queue t)
      \<and> (\<forall>l. l \<noteq> k \<longrightarrow> pm_batch_req t' ! l = pm_batch_req t ! l)
      \<and> pm_send_num t' ! nat p = i32 (pm_send_num t ! nat p + 1)"
    if "pm_config t = pm_config s" "pm_system_info t = pm_system_info s" "length (pm_send_num t) = length (pm_send_num s)"
      "Suc (length (pm_batch_req t ! k)) = unat (ClientBatchNum (pm_config s))" "k < length (pm_batch_req t)"
      "pm_batch_queue t \<noteq> []" for E k t
  proof -
    have "pm_GetPrimary t = p" using that(2) assms(1) by (simp add: pm_GetPrimary_def)
    then show ?thesis using that assms(2,3)
      by (auto simp: pm_propose_def pm_send_batch_def pm_DoBatch_def Let_def pm_AddWaitingResponseRequest_def pm_GetPrimary_def
          neq_Nil_conv)
  qed
  obtain s1 out1 where 1: "pm_propose E B i True s = Some (s1, out1)" "pm_config s1 = pm_config s"
    "pm_system_info s1 = pm_system_info s" "length (pm_send_num s1) = length (pm_send_num s)"
    "length (pm_batch_req s1) = length (pm_batch_req s)" "pm_batch_queue s1 = y # q"
    "\<forall>l. l \<noteq> i \<longrightarrow> pm_batch_req s1 ! l = pm_batch_req s ! l" "pm_send_num s1 ! nat p = i32 (pm_send_num s ! nat p + 1)"
    using send [of s i E] assms(8,10,12) by auto
  obtain s2 out2 where 2: "pm_propose E' B j True s1 = Some (s2, out2)" "pm_send_num s2 ! nat p = i32 (pm_send_num s1 ! nat p + 1)"
    using send [of s1 j E'] 1(2-7) assms(7,9,11) by auto
  have "pm_send_num s2 ! nat p = ?m + 1" using 1(8) 2(2) assms(4-6) by simp
  moreover have "pm_window_open s = Some True"
  proof -
    have w: "uint (word_of_int k :: uint32) = k" if "0 \<le> k" "k < 2 ^ 31" for k
      using that by (simp add: unsigned_of_int take_bit_int_eq_self)
    have "uint (word_of_int (?m - 1) :: uint32) = ?m - 1" by (rule w) (use assms(5,6) in linarith)+
    then show ?thesis using assms(1-4) by (simp add: pm_window_open_def Let_def word_less_def)
  qed
  ultimately show ?thesis using 1(1) 2(1) by blast
qed

theorem performance_window_race_witness:
  "\<exists>(s :: performance_manager) s1 s2 out1 out2. pm_window_open s = Some True \<and> pm_propose demo_env demo_batch_codec 0 True s = Some (s1, out1)
     \<and> pm_propose demo_env demo_batch_codec 1 True s1 = Some (s2, out2)
     \<and> pm_send_num s2 ! 1 = uint (GetMaxProcessTxn (pm_config s)) + 1"
proof -
  let ?si = "\<lparr>si_primary_id = 1, si_view = 1, si_replicas = []\<rparr>"
  let ?b = "replicate 99 (None, empty_request) :: (net_context option \<times> request) list"
  obtain p where p: "new_pool (GetMaxProcessTxn (demo_config [1, 2, 3, 4])) False False = Some p"
    by (rule new_pool_wf [of "GetMaxProcessTxn (demo_config [1, 2, 3, 4])" False False]) (simp_all add: demo_client_num)
  obtain s0 where s0: "new_performance_manager (demo_config [1, 2, 3, 4]) ?si None 1 0 0 = Some s0"
    "pm_config s0 = demo_config [1, 2, 3, 4]" "pm_system_info s0 = ?si"
    using p by (simp add: new_performance_manager_def)
  define s where "s = s0\<lparr>pm_send_num := [0, 1, 0, 0, 0], pm_batch_req := [?b, ?b],
     pm_batch_queue := [(None, empty_request), (None, empty_request)]\<rparr>"
  have f: "pm_GetPrimary s = 1" "pm_config s = demo_config [1, 2, 3, 4]" "pm_send_num s = [0, 1, 0, 0, 0]"
    "pm_batch_req s = [?b, ?b]" "pm_batch_queue s = [(None, empty_request), (None, empty_request)]"
    using s0(2,3) by (simp_all add: s_def pm_GetPrimary_def GetPrimaryId_def)
  have race: "pm_window_open s = Some True \<and> (\<exists>s1 s2 out1 out2. pm_propose demo_env demo_batch_codec 0 True s = Some (s1, out1)
    \<and> pm_propose demo_env demo_batch_codec 1 True s1 = Some (s2, out2)
    \<and> pm_send_num s2 ! nat 1 = uint (GetMaxProcessTxn (pm_config s)) + 1)"
    by (rule performance_window_race [OF f(1) _ _ _ _ _ _ _ _ _ _ f(5)])
      (simp_all add: f(2-4) demo_client_num)
  show ?thesis by (rule exI [of _ s]) (use race in simp)
qed

end
