(* ===== verification/View_Change.thy ===== *)
theory View_Change
  imports Commitment
begin

text \<open>
  \<open>ViewChangeManager\<close> (platform/consensus/ordering/pbft/viewchange_manager.cpp): complaints of
  clients and their timers, the VIEW-CHANGE and NEW-VIEW messages, and the requests a new primary
  repeats.

  The state is the pair of the view change manager's own fields and the message manager, which
  holds the checkpoint manager, the system information and the collectors. The codecs are the record
  \<open>vc_codec\<close>. A priority queue of shared pointers is ordered by addresses: the model keeps the list
  in that order, \<open>en_pos\<close> being the rank of a new element. \<open>None\<close> is undefined behaviour or a
  failed assertion. The threads are step functions; sleeping until a timeout is left out.
\<close>

section \<open>State\<close>

datatype timer_type = TYPE_COMPLAINT | TYPE_TIMER_VIEWCHANGE | TYPE_TIMER_NEWVIEW

record viewchange_timeout =
  vt_type :: timer_type
  vt_view :: uint64
  vt_proxy_id :: uint64
  vt_hash :: string
  vt_start_time :: uint64
  vt_timeout_time :: uint64

record complaining_client =
  cc_proxy_id :: uint64
  cc_is_complaining :: bool
  cc_timeout_length :: uint64
  cc_timeout_set :: "string set"

datatype viewchange_status = VC_NONE | READY_VIEW_CHANGE | READY_NEW_VIEW | VIEW_CHANGE_FAIL

record vc_codec =
  cv_parse_viewchange :: "string \<Rightarrow> viewchange_message option"
  cv_parse_newview :: "string \<Rightarrow> newview_message option"
  cv_ser_viewchange :: "viewchange_message \<Rightarrow> string"
  cv_ser_newview :: "newview_message \<Rightarrow> string"
  cv_ser_request :: "request \<Rightarrow> string"

record viewchange_manager =
  vc_verifier :: "signature_verifier option"
  vc_request :: "(uint64, (uint32, viewchange_message) std_map) std_map"
  vc_new_view_is_sent :: bool
  vc_status :: viewchange_status
  vc_started :: bool
  vc_handler_set :: bool
  vc_counter :: uint32
  vc_signals :: nat
  vc_heap :: "(uint64, viewchange_timeout list) std_map"
  vc_complaining :: "(uint64, complaining_client) std_map"
  vc_timeout_length :: uint64
  vc_last_seq_value :: uint64

type_synonym 's vc_state = "viewchange_manager \<times> 's message_manager"

definition new_viewchange_manager :: "signature_verifier option \<Rightarrow> viewchange_manager" where
  "new_viewchange_manager verifier =
     \<lparr>vc_verifier = verifier, vc_request = [], vc_new_view_is_sent = False, vc_status = VC_NONE,
      vc_started = False, vc_handler_set = False, vc_counter = 1, vc_signals = 0, vc_heap = [],
      vc_complaining = [], vc_timeout_length = 10000000, vc_last_seq_value = 0\<rparr>"

definition new_timeout :: "timer_type \<Rightarrow> uint64 \<Rightarrow> uint64 \<Rightarrow> string \<Rightarrow> uint64 \<Rightarrow> uint64 \<Rightarrow> viewchange_timeout" where
  "new_timeout t view proxy hash start len =
     \<lparr>vt_type = t, vt_view = view, vt_proxy_id = proxy, vt_hash = hash, vt_start_time = start,
      vt_timeout_time = start + len\<rparr>"

definition new_complaining_client :: complaining_client where
  "new_complaining_client =
     \<lparr>cc_proxy_id = 0, cc_is_complaining = False, cc_timeout_length = 10000000, cc_timeout_set = {}\<rparr>"

definition SetComplaining ::
  "string \<Rightarrow> uint64 \<Rightarrow> uint64 \<Rightarrow> complaining_client \<Rightarrow> viewchange_timeout \<times> complaining_client" where
  "SetComplaining hash view now c =
     (new_timeout TYPE_COMPLAINT view (cc_proxy_id c) hash now (cc_timeout_length c),
      c\<lparr>cc_is_complaining := True, cc_timeout_set := insert hash (cc_timeout_set c)\<rparr>)"

definition CountViewChangeTimeout :: "string \<Rightarrow> complaining_client \<Rightarrow> nat" where
  "CountViewChangeTimeout hash c = (if hash \<in> cc_timeout_set c then 1 else 0)"

definition EraseViewChangeTimeout :: "string \<Rightarrow> complaining_client \<Rightarrow> complaining_client" where
  "EraseViewChangeTimeout hash c = c\<lparr>cc_timeout_set := cc_timeout_set c - {hash}\<rparr>"

definition ReleaseComplaining :: "string \<Rightarrow> complaining_client \<Rightarrow> complaining_client" where
  "ReleaseComplaining hash c = c\<lparr>cc_timeout_set := cc_timeout_set c - {hash}\<rparr>"

definition ChangeStatue :: "viewchange_status \<Rightarrow> viewchange_manager \<Rightarrow> bool \<times> viewchange_manager" where
  "ChangeStatue st v =
     (let v1 = (if st = READY_VIEW_CHANGE
                then (if vc_status v \<noteq> READY_VIEW_CHANGE then v\<lparr>vc_status := st\<rparr> else v)
                else v\<lparr>vc_status := st\<rparr>)
      in (vc_status v1 = st, v1))"

definition IsInViewChange :: "viewchange_manager \<Rightarrow> bool" where
  "IsInViewChange v \<longleftrightarrow> vc_status v \<noteq> VC_NONE"

text \<open>Pushing a timer on the heap of a proxy, unless the heap is full.\<close>

definition push_timer :: "env \<Rightarrow> uint64 \<Rightarrow> viewchange_timeout \<Rightarrow> 's vc_state \<Rightarrow> 's vc_state" where
  "push_timer E key t s =
     (let (v, m) = s; heap = sm_get [] key (vc_heap v)
      in if of_nat (length heap) < (ucast (GetMaxClientComplaintNum (mm_config m)) :: uint64)
         then (v\<lparr>vc_heap := sm_put key (insert_at (en_pos E) t heap) (vc_heap v),
                 vc_signals := Suc (vc_signals v)\<rparr>, m)
         else (v\<lparr>vc_heap := sm_put key heap (vc_heap v)\<rparr>, m))"

section \<open>Validity of a VIEW-CHANGE message\<close>

text \<open>A loop that returns at the first element that fails the test.\<close>

fun all_opt :: "('a \<Rightarrow> bool option) \<Rightarrow> 'a list \<Rightarrow> bool option" where
  "all_opt f [] = Some True"
| "all_opt f (x # xs) = (case f x of None \<Rightarrow> None | Some b \<Rightarrow> if b then all_opt f xs else Some False)"

definition proof_ok :: "crypto \<Rightarrow> vc_codec \<Rightarrow> signature_verifier option \<Rightarrow> uint64 \<Rightarrow> prepared_proof \<Rightarrow> bool option" where
  "proof_ok C K vo seq p =
     (if rq_seq (pp_request p) \<noteq> seq then Some False
      else case vo of
             None \<Rightarrow> None
           | Some sv \<Rightarrow> Some (VerifyMessage C sv (cv_ser_request K (pp_request p)) (pp_signature p)))"

definition prepared_ok ::
  "crypto \<Rightarrow> vc_codec \<Rightarrow> signature_verifier option \<Rightarrow> int \<Rightarrow> uint64 \<Rightarrow> prepared_message \<Rightarrow> bool option" where
  "prepared_ok C K vo need stable_seq pm =
     (if pm_seq pm \<le> stable_seq then Some True
      else if int (length (pm_proof pm)) < need then Some False
      else all_opt (proof_ok C K vo (pm_seq pm)) (pm_proof pm))"

definition IsValidViewChangeMsg ::
  "crypto \<Rightarrow> vc_codec \<Rightarrow> viewchange_message \<Rightarrow> 's vc_state \<Rightarrow> bool option" where
  "IsValidViewChangeMsg C K msg s =
     (let (v, m) = s
      in if vm_view_number msg \<le> mm_view m then Some False
         else case IsValidCheckpointProof C (mm_checkpoint m) (vm_stable_ckpt msg) of
                None \<Rightarrow> None
              | Some ok \<Rightarrow>
                  if \<not> ok then Some False
                  else all_opt (prepared_ok C K (vc_verifier v) (GetMinDataReceiveNum (mm_config m))
                                  (sc_seq (vm_stable_ckpt msg))) (vm_prepared_msg msg))"

definition vc_AddRequest :: "viewchange_message \<Rightarrow> uint32 \<Rightarrow> viewchange_manager \<Rightarrow> nat \<times> viewchange_manager" where
  "vc_AddRequest msg sender v =
     (let votes = sm_put sender msg (sm_get [] (vm_view_number msg) (vc_request v))
      in (length votes, v\<lparr>vc_request := sm_put (vm_view_number msg) votes (vc_request v)\<rparr>))"

section \<open>Views and primaries\<close>

definition view_primary :: "resdb_config \<Rightarrow> uint64 \<Rightarrow> int option" where
  "view_primary cfg view =
     (let n = length (cf_replicas cfg)
      in if n = 0 then None else Some (rep_id (cf_replicas cfg ! unat ((view - 1) mod of_nat n))))"

definition IsNextPrimary :: "uint64 \<Rightarrow> 's message_manager \<Rightarrow> bool option" where
  "IsNextPrimary view m =
     map_option (\<lambda>i. i = rep_id (cf_self_info (mm_config m))) (view_primary (mm_config m) view)"

definition SetCurrentViewAndNewPrimary :: "uint64 \<Rightarrow> 's message_manager \<Rightarrow> 's message_manager option" where
  "SetCurrentViewAndNewPrimary view m =
     map_option (\<lambda>i. m\<lparr>mm_system_info := SetPrimary (word_of_int i) (SetCurrentView view (mm_system_info m))\<rparr>)
       (view_primary (mm_config m) view)"

section \<open>The requests a new view repeats\<close>

text \<open>The map from sequence numbers to the first proof; a message without proof has no element 0.\<close>

fun collect_prepared :: "prepared_message list \<Rightarrow> (uint64, request) std_map \<Rightarrow> (uint64, request) std_map option" where
  "collect_prepared [] acc = Some acc"
| "collect_prepared (pm # pms) acc =
     (case pm_proof pm of
        [] \<Rightarrow> None
      | p # _ \<Rightarrow> collect_prepared pms (sm_put (pm_seq pm) (pp_request p) acc))"

definition min_stable :: "viewchange_message list \<Rightarrow> uint64" where
  "min_stable msgs = fold (\<lambda>msg s. min s (sc_seq (vm_stable_ckpt msg))) msgs (- 1)"

definition max_stable :: "viewchange_message list \<Rightarrow> uint64" where
  "max_stable msgs = fold (\<lambda>msg s. max s (sc_seq (vm_stable_ckpt msg))) msgs 0"

definition null_request :: "crypto \<Rightarrow> signature_verifier option \<Rightarrow> int \<Rightarrow> uint64 \<Rightarrow> bool \<Rightarrow> uint64 \<Rightarrow> request" where
  "null_request C vo self view need_sign i =
     (let r = (NewRequest TYPE_PRE_PREPARE empty_request self)\<lparr>rq_seq := i, rq_current_view := view,
                rq_hash := ''null'' @ to_string (unat i)\<rparr>
      in case vo of
           None \<Rightarrow> r
         | Some sv \<Rightarrow> if need_sign then r\<lparr>rq_data_signature := Some (SignMessage C sv [])\<rparr> else r)"

definition redo_entry ::
  "crypto \<Rightarrow> signature_verifier option \<Rightarrow> int \<Rightarrow> uint64 \<Rightarrow> bool \<Rightarrow> (uint64, request) std_map \<Rightarrow> uint64 \<Rightarrow> request" where
  "redo_entry C vo self view need_sign prepared i =
     (case sm_find i prepared of
        None \<Rightarrow> null_request C vo self view need_sign i
      | Some r \<Rightarrow> (NewRequest TYPE_COMMIT r self)\<lparr>rq_seq := i, rq_current_view := view\<rparr>)"

text \<open>The sequence numbers of \<open>for (i = lo; i <= hi; ++i)\<close>, which does not end for the greatest \<open>hi\<close>.\<close>

definition seq_range :: "uint64 \<Rightarrow> uint64 \<Rightarrow> uint64 list option" where
  "seq_range lo hi = (if hi = - 1 then None else Some (map of_nat [unat lo ..< Suc (unat hi)]))"

definition max_prepared :: "(uint64, request) std_map \<Rightarrow> uint64" where
  "max_prepared prepared = (if prepared = [] then 1 else fst (last prepared))"

definition GetPrepareMsg ::
  "crypto \<Rightarrow> newview_message \<Rightarrow> bool \<Rightarrow> 's vc_state \<Rightarrow> request list option" where
  "GetPrepareMsg C nv need_sign s =
     (let (v, m) = s
      in case collect_prepared (concat (map vm_prepared_msg (nv_viewchange_messages nv))) [] of
           None \<Rightarrow> None
         | Some prepared \<Rightarrow>
             map_option (map (redo_entry C (vc_verifier v) (rep_id (cf_self_info (mm_config m)))
                                (nv_view_number nv) need_sign prepared))
               (seq_range (min_stable (nv_viewchange_messages nv) + 1) (max_prepared prepared)))"

section \<open>NEW-VIEW\<close>

definition erase_proposed_all :: "string list \<Rightarrow> 's message_manager \<Rightarrow> 's message_manager" where
  "erase_proposed_all hs m =
     m\<lparr>mm_executor := (mm_executor m)\<lparr>te_duplicate_manager :=
         map_option (fold EraseProposed hs) (te_duplicate_manager (mm_executor m))\<rparr>\<rparr>"

text \<open>One request of an accepted NEW-VIEW.\<close>

definition redo_request :: "request \<Rightarrow> 's message_manager \<Rightarrow> ('s message_manager \<times> out_msg list) option" where
  "redo_request r m =
     (if rq_type r = TYPE_PRE_PREPARE
      then case GetCollector (rq_seq r) (mm_pool m) of
             None \<Rightarrow> None
           | Some c \<Rightarrow>
               (case GetAllStoredHash c of
                  None \<Rightarrow> None
                | Some hs \<Rightarrow> Some (erase_proposed_all hs m, [SendSelf r]))
      else Some (if mm_GetHighestPreparedSeq m < rq_seq r then mm_SetHighestPreparedSeq (rq_seq r) m else m,
                 [Broadcast r]))"

fun redo_requests :: "request list \<Rightarrow> 's message_manager \<Rightarrow> ('s message_manager \<times> out_msg list) option" where
  "redo_requests [] m = Some (m, [])"
| "redo_requests (r # rs) m =
     (case redo_request r m of
        None \<Rightarrow> None
      | Some (m1, out1) \<Rightarrow>
          (case redo_requests rs m1 of
             None \<Rightarrow> None
           | Some (m2, out2) \<Rightarrow> Some (m2, out1 @ out2)))"

text \<open>The checks on the repeated requests: their number and data, and that no committed number is missing.\<close>

definition redo_matches :: "request list \<Rightarrow> newview_message \<Rightarrow> bool" where
  "redo_matches rs nv \<longleftrightarrow>
     map rq_data rs = map rq_data (nv_request nv)
   \<and> (\<forall>i \<in> set [unat (min_stable (nv_viewchange_messages nv) + 1)
                 ..< Suc (unat (max_stable (nv_viewchange_messages nv)))]. of_nat i \<in> rq_seq ` set rs)"

definition redo_max :: "request list \<Rightarrow> newview_message \<Rightarrow> uint64" where
  "redo_max rs nv = (if rs = [] then max_stable (nv_viewchange_messages nv) else Max (rq_seq ` set rs))"

definition ProcessNewView ::
  "crypto \<Rightarrow> vc_codec \<Rightarrow> request \<Rightarrow> 's vc_state \<Rightarrow> (int \<times> 's vc_state \<times> out_msg list) option" where
  "ProcessNewView C K r s =
     (case cv_parse_newview K (rq_data r) of
        None \<Rightarrow> Some (-2, s, [])
      | Some nv \<Rightarrow>
          if nv_view_number nv \<noteq> mm_view (snd s) + ucast (vc_counter (fst s)) then Some (-2, s, [])
          else case all_opt (\<lambda>msg. IsValidViewChangeMsg C K msg s) (nv_viewchange_messages nv) of
                 None \<Rightarrow> None
               | Some ok \<Rightarrow>
                   if \<not> ok then Some (-2, s, [])
                   else case GetPrepareMsg C nv False s of
                          None \<Rightarrow> None
                        | Some rs \<Rightarrow>
                            if \<not> redo_matches rs nv then Some (-2, s, [])
                            else case SetCurrentViewAndNewPrimary (nv_view_number nv) (snd s) of
                                   None \<Rightarrow> None
                                 | Some m1 \<Rightarrow>
                                     (case redo_requests (nv_request nv) (SetNextSeq (redo_max rs nv + 1) m1) of
                                        None \<Rightarrow> None
                                      | Some (m2, out) \<Rightarrow>
                                          Some (if rep_id (cf_self_info (mm_config m2)) = GetCurrentPrimary m2 then -4 else 0,
                                                (snd (ChangeStatue VC_NONE (fst s)), m2), out)))"

definition SendNewViewMsg :: "crypto \<Rightarrow> vc_codec \<Rightarrow> uint64 \<Rightarrow> 's vc_state \<Rightarrow> ('s vc_state \<times> out_msg list) option" where
  "SendNewViewMsg C K view s =
     (if vc_new_view_is_sent (fst s) then Some (s, [])
      else let v1 = (fst s)\<lparr>vc_new_view_is_sent := True\<rparr>;
               requests = sm_get [] view (vc_request v1);
               nv = \<lparr>nv_view_number = view, nv_request = [],
                     nv_viewchange_messages = map (\<lambda>(_, msg). msg\<lparr>vm_view_number := view\<rparr>) requests\<rparr>
           in case GetPrepareMsg C nv True (v1, snd s) of
                None \<Rightarrow> None
              | Some rs \<Rightarrow>
                  let r = NewRequest TYPE_NEWVIEW empty_request (rep_id (cf_self_info (mm_config (snd s))))
                  in Some ((v1\<lparr>vc_request := sm_put view requests (vc_request v1)\<rparr>, snd s),
                           [Broadcast (r\<lparr>rq_data := cv_ser_newview K (nv\<lparr>nv_request := rs\<rparr>)\<rparr>)]))"

section \<open>VIEW-CHANGE\<close>

definition self_key :: "'s message_manager \<Rightarrow> uint64" where
  "self_key m = word_of_int (rep_id (cf_self_info (mm_config m)))"

definition ProcessViewChange ::
  "env \<Rightarrow> vc_codec \<Rightarrow> request \<Rightarrow> 's vc_state \<Rightarrow> (int \<times> 's vc_state \<times> out_msg list) option" where
  "ProcessViewChange E K r s =
     (case cv_parse_viewchange K (rq_data r) of
        None \<Rightarrow> Some (-2, s, [])
      | Some msg \<Rightarrow>
          (case IsValidViewChangeMsg (en_crypto E) K msg s of
             None \<Rightarrow> None
           | Some ok \<Rightarrow>
               if \<not> ok then Some (-2, s, [])
               else let (n, v1) = vc_AddRequest msg (word_of_int (rq_sender_id r)) (fst s); m = snd s
                    in if int n < GetMinDataReceiveNum (mm_config m) then Some (0, (v1, m), [])
                       else case IsNextPrimary (vm_view_number msg) m of
                              None \<Rightarrow> None
                            | Some True \<Rightarrow>
                                map_option (\<lambda>((v2, m2), out). (0, (snd (ChangeStatue READY_NEW_VIEW v2), m2), out))
                                  (SendNewViewMsg (en_crypto E) K (vm_view_number msg) (v1, m))
                            | Some False \<Rightarrow>
                                let (v2, m2) = push_timer E (self_key m)
                                      (new_timeout TYPE_TIMER_NEWVIEW (mm_view m) (self_key m) ''null'' (en_now E)
                                         (vc_timeout_length v1)) (v1, m)
                                in Some (0, (snd (ChangeStatue READY_NEW_VIEW v2), m2), [])))"

text \<open>The prepared requests of the sequence numbers in the list; the assertion on their proofs fails
  with \<open>None\<close>.\<close>

fun prepared_messages :: "int list \<Rightarrow> 's message_manager \<Rightarrow> prepared_message list option" where
  "prepared_messages [] m = Some []"
| "prepared_messages (i # is) m =
     (case GetCollector (word_of_int i) (mm_pool m) of
        None \<Rightarrow> None
      | Some c \<Rightarrow>
          if statue_val (co_status c) < statue_val READY_COMMIT then prepared_messages is m
          else if int (length (GetPreparedProof c)) < GetMinDataReceiveNum (mm_config m) then None
          else map_option (\<lambda>pms. \<lparr>pm_seq = word_of_int i,
                 pm_proof = map (\<lambda>p. \<lparr>pp_request = the (ri_request p), pp_signature = ri_signature p\<rparr>)
                              (GetPreparedProof c)\<rparr> # pms) (prepared_messages is m))"

text \<open>\<open>int max_seq\<close> and \<open>int i\<close> narrow the 64-bit sequence numbers.\<close>

definition SendViewChangeMsg :: "vc_codec \<Rightarrow> 's vc_state \<Rightarrow> out_msg list option" where
  "SendViewChangeMsg K s =
     (let (v, m) = s;
          ckpt = GetStableCheckpointWithVotes (mm_checkpoint m);
          max_seq = sint (ucast (mm_GetHighestPreparedSeq m) :: uint32);
          first = sint (ucast (sc_seq ckpt + 1) :: uint32)
      in map_option (\<lambda>pms.
           [Broadcast ((NewRequest TYPE_VIEWCHANGE empty_request (rep_id (cf_self_info (mm_config m))))
              \<lparr>rq_data := cv_ser_viewchange K \<lparr>vm_view_number = mm_view m + ucast (vc_counter v),
                 vm_stable_ckpt = ckpt, vm_prepared_msg = pms\<rparr>\<rparr>)])
           (prepared_messages [first .. max_seq] m))"

section \<open>Timers\<close>

definition MayStart :: "node_kind \<Rightarrow> viewchange_manager \<Rightarrow> viewchange_manager" where
  "MayStart kind v =
     (if vc_started v then v
      else if kind = CLIENT then v\<lparr>vc_started := True\<rparr>
      else v\<lparr>vc_started := True, vc_handler_set := True\<rparr>)"

text \<open>The handler \<open>MayStart\<close> installs in the checkpoint manager; without it nothing happens.\<close>

definition TimeoutHandler :: "env \<Rightarrow> vc_codec \<Rightarrow> 's vc_state \<Rightarrow> ('s vc_state \<times> out_msg list) option" where
  "TimeoutHandler E K s =
     (if \<not> vc_handler_set (fst s) then Some (s, [])
      else let v = fst s; m = snd s;
               v1 = (case vc_status v of
                       VC_NONE \<Rightarrow> v\<lparr>vc_counter := 1\<rparr>
                     | READY_NEW_VIEW \<Rightarrow> v\<lparr>vc_counter := vc_counter v + 1\<rparr>
                     | _ \<Rightarrow> v);
               (changed, v2) = ChangeStatue READY_VIEW_CHANGE v1
           in if \<not> changed then Some ((v2, m), [])
              else case SendViewChangeMsg K (v2, m) of
                     None \<Rightarrow> None
                   | Some out \<Rightarrow>
                       Some (push_timer E (self_key m)
                               (new_timeout TYPE_TIMER_VIEWCHANGE (mm_view m) (self_key m) ''null'' (en_now E)
                                  (vc_timeout_length v2)) (v2, m), out))"

definition AddComplaintTimer :: "env \<Rightarrow> uint64 \<Rightarrow> string \<Rightarrow> 's vc_state \<Rightarrow> 's vc_state" where
  "AddComplaintTimer E proxy_id hash s =
     (let (v, m) = s;
          client = (case sm_find proxy_id (vc_complaining v) of
                      None \<Rightarrow> new_complaining_client\<lparr>cc_proxy_id := proxy_id\<rparr>
                    | Some c \<Rightarrow> c);
          (t, client1) = SetComplaining hash (mm_view m) (en_now E) client
      in push_timer E proxy_id t (v\<lparr>vc_complaining := sm_put proxy_id client1 (vc_complaining v)\<rparr>, m))"

text \<open>The first heap that is not empty gives its top.\<close>

fun pop_timer ::
  "(uint64, viewchange_timeout list) std_map \<Rightarrow> viewchange_timeout option \<times> (uint64, viewchange_timeout list) std_map" where
  "pop_timer [] = (None, [])"
| "pop_timer ((k, []) # hs) = (let (t, hs1) = pop_timer hs in (t, (k, []) # hs1))"
| "pop_timer ((k, t # ts) # hs) = (Some t, (k, ts) # hs)"

text \<open>The three cases of an expired timer.\<close>

definition expired :: "env \<Rightarrow> vc_codec \<Rightarrow> viewchange_timeout \<Rightarrow> 's vc_state \<Rightarrow> ('s vc_state \<times> out_msg list) option" where
  "expired E K t s =
     (let (v, m) = s
      in case vt_type t of
           TYPE_TIMER_NEWVIEW \<Rightarrow>
             if vc_status v = READY_NEW_VIEW \<and> vt_view t = mm_view m then TimeoutHandler E K s else Some (s, [])
         | TYPE_TIMER_VIEWCHANGE \<Rightarrow>
             if vc_status v = READY_VIEW_CHANGE \<and> vt_view t = mm_view m
             then TimeoutHandler E K (snd (ChangeStatue VIEW_CHANGE_FAIL v), m) else Some (s, [])
         | TYPE_COMPLAINT \<Rightarrow>
             (let client = sm_get new_complaining_client (vt_proxy_id t) (vc_complaining v);
                  client1 = (if CountViewChangeTimeout (vt_hash t) client \<noteq> 0
                             then EraseViewChangeTimeout (vt_hash t) client else client);
                  v1 = v\<lparr>vc_complaining := sm_put (vt_proxy_id t) client1 (vc_complaining v)\<rparr>
              in if vc_status v1 = VC_NONE \<and> vt_view t = mm_view m
                 then let (last, m1) = GetLastCommittedTime (vt_proxy_id t) m
                      in if last \<le> vt_start_time t
                         then (case TimeoutHandler E K (v1, m1) of
                                 None \<Rightarrow> None
                               | Some ((v2, m2), out) \<Rightarrow>
                                   if vc_status v2 = READY_VIEW_CHANGE then Some ((v2, m2), out) else None)
                         else Some ((v1, m1), [])
                 else Some ((v1, m), [])))"

definition MonitoringViewChangeTimeOut_step ::
  "env \<Rightarrow> vc_codec \<Rightarrow> 's vc_state \<Rightarrow> ('s vc_state \<times> out_msg list) option" where
  "MonitoringViewChangeTimeOut_step E K s =
     (if vc_signals (fst s) = 0 then Some (s, [])
      else let v = (fst s)\<lparr>vc_signals := vc_signals (fst s) - 1\<rparr>;
               (t, heap) = pop_timer (vc_heap v)
           in case t of
                None \<Rightarrow> Some ((v, snd s), [])
              | Some timer \<Rightarrow> expired E K timer (v\<lparr>vc_heap := heap\<rparr>, snd s))"

definition MonitoringCheckpointState_step :: "'s vc_state \<Rightarrow> 's vc_state" where
  "MonitoringCheckpointState_step s =
     (let (v, m) = s; ck = mm_checkpoint m
      in if cm_committable_signals ck = 0 then s
         else let m1 = m\<lparr>mm_checkpoint := ck\<lparr>cm_committable_signals := cm_committable_signals ck - 1\<rparr>\<rparr>;
                  seq = cm_committable_seq ck
              in if vc_last_seq_value v = seq then (v, m1)
                 else let v1 = v\<lparr>vc_last_seq_value := seq\<rparr>
                      in (if IsInViewChange v1 then snd (ChangeStatue VC_NONE v1) else v1, m1))"

section \<open>The repeated requests\<close>

lemma all_opt_True: "all_opt f xs = Some True \<longleftrightarrow> (\<forall>x \<in> set xs. f x = Some True)"
  by (induction xs) (auto split: option.splits)

lemma redo_entry_seq [simp]: "rq_seq (redo_entry C vo self view b prepared i) = i"
  by (simp add: redo_entry_def null_request_def Let_def split: option.splits)

lemma redo_entry_view [simp]: "rq_current_view (redo_entry C vo self view b prepared i) = view"
  by (simp add: redo_entry_def null_request_def Let_def split: option.splits)

lemma redo_entry_data:
  "rq_data (redo_entry C vo self view b prepared i) = (case sm_find i prepared of None \<Rightarrow> [] | Some r \<Rightarrow> rq_data r)"
  by (simp add: redo_entry_def null_request_def Let_def NewRequest_def empty_request_def split: option.splits)

lemma redo_entry_hash:
  "rq_hash (redo_entry C vo self view b prepared i) =
     (case sm_find i prepared of None \<Rightarrow> ''null'' @ to_string (unat i) | Some r \<Rightarrow> rq_hash r)"
  by (simp add: redo_entry_def null_request_def Let_def NewRequest_def split: option.splits)

text \<open>What the map of prepared requests holds comes from the proofs of the messages.\<close>

lemma collect_prepared_source:
  assumes "collect_prepared pms acc = Some prepared" "sm_find i prepared = Some r"
  shows "sm_find i acc = Some r \<or> (\<exists>pm \<in> set pms. pm_seq pm = i \<and> (\<exists>p \<in> set (pm_proof pm). r = pp_request p))"
  using assms
proof (induction pms arbitrary: acc)
  case (Cons pm pms)
  obtain p ps where ps: "pm_proof pm = p # ps" using Cons.prems(1) by (cases "pm_proof pm") auto
  have "collect_prepared pms (sm_put (pm_seq pm) (pp_request p) acc) = Some prepared" using Cons.prems(1) ps by simp
  from Cons.IH [OF this Cons.prems(2)] show ?case using ps by (auto split: if_splits)
qed simp

lemma collect_prepared_mono:
  assumes "collect_prepared pms acc = Some prepared" "sm_find i acc \<noteq> None"
  shows "sm_find i prepared \<noteq> None"
  using assms
proof (induction pms arbitrary: acc)
  case (Cons pm pms)
  obtain p ps where ps: "pm_proof pm = p # ps" using Cons.prems(1) by (cases "pm_proof pm") auto
  have "collect_prepared pms (sm_put (pm_seq pm) (pp_request p) acc) = Some prepared" using Cons.prems(1) ps by simp
  from Cons.IH [OF this] show ?case using Cons.prems(2) by simp
qed simp

lemma collect_prepared_all:
  assumes "collect_prepared pms acc = Some prepared" "pm \<in> set pms"
  shows "sm_find (pm_seq pm) prepared \<noteq> None"
  using assms
proof (induction pms arbitrary: acc)
  case (Cons x pms)
  obtain p ps where ps: "pm_proof x = p # ps" using Cons.prems(1) by (cases "pm_proof x") auto
  have run: "collect_prepared pms (sm_put (pm_seq x) (pp_request p) acc) = Some prepared" using Cons.prems(1) ps by simp
  show ?case using Cons.IH [OF run] collect_prepared_mono [OF run, of "pm_seq x"] Cons.prems(2) by auto
qed simp

lemma collect_prepared_wf: "collect_prepared pms acc = Some prepared \<Longrightarrow> sm_wf acc \<Longrightarrow> sm_wf prepared"
  by (induction pms arbitrary: acc) (auto split: list.splits)

lemma max_prepared_greatest: "sm_wf prepared \<Longrightarrow> sm_find i prepared \<noteq> None \<Longrightarrow> i \<le> max_prepared prepared"
proof (induction prepared)
  case (Cons x xs)
  obtain k v where x: "x = (k, v)" by fastforce
  show ?case
  proof (cases "i = k \<and> xs \<noteq> []")
    case True
    then have "fst (last xs) \<in> fst ` set xs" by simp
    then show ?thesis using Cons.prems(1) True x by (fastforce simp: max_prepared_def)
  next
    case False
    then show ?thesis using Cons x by (auto simp: max_prepared_def split: if_splits)
  qed
qed simp

lemma max_prepared_source:
  assumes "collect_prepared pms [] = Some prepared"
  shows "max_prepared prepared = 1 \<or> (\<exists>pm \<in> set pms. pm_seq pm = max_prepared prepared)"
proof (cases "prepared = []")
  case False
  then obtain i r where l: "last prepared = (i, r)" "(i, r) \<in> set prepared" by (metis last_in_set surj_pair)
  then have "sm_find i prepared = Some r" using collect_prepared_wf [OF assms] by (simp add: sm_find_eq_set)
  then show ?thesis using collect_prepared_source [OF assms] l False by (fastforce simp: max_prepared_def)
qed (simp add: max_prepared_def)

lemma seq_range_mem:
  assumes "seq_range lo hi = Some rg" "lo \<le> i" "i \<le> hi"
  shows "i \<in> set rg"
proof -
  have "i = of_nat (unat i)" by simp
  moreover have "unat i \<in> {unat lo ..< Suc (unat hi)}" using assms(2,3) by (simp add: word_le_nat_alt less_Suc_eq_le)
  moreover have "set rg = of_nat ` {unat lo ..< Suc (unat hi)}"
    using assms(1) by (auto simp: seq_range_def split: if_splits simp del: upt_Suc)
  ultimately show ?thesis by blast
qed

section \<open>Properties\<close>

text \<open>C13: the requests of a new view fill a whole range of sequence numbers, one for each number in order,
  all in the new view: from the number after the least stable checkpoint of the messages to the greatest
  number for which some message carries a proof. So no prepared number above that checkpoint is left
  out. A number for which some message carries a proof gets the data and hash of a request in such a
  proof, and every other number the null request.\<close>

theorem new_view_requests_cover:
  assumes "GetPrepareMsg C nv b s = Some rs"
  shows "(\<exists>hi. seq_range (min_stable (nv_viewchange_messages nv) + 1) hi = Some (map rq_seq rs)
        \<and> (\<forall>msg \<in> set (nv_viewchange_messages nv). \<forall>pm \<in> set (vm_prepared_msg msg). pm_seq pm \<le> hi)
        \<and> (hi = 1 \<or> (\<exists>msg \<in> set (nv_viewchange_messages nv). \<exists>pm \<in> set (vm_prepared_msg msg). pm_seq pm = hi)))
    \<and> (\<forall>msg \<in> set (nv_viewchange_messages nv). \<forall>pm \<in> set (vm_prepared_msg msg).
        min_stable (nv_viewchange_messages nv) + 1 \<le> pm_seq pm \<longrightarrow> pm_seq pm \<in> rq_seq ` set rs)
    \<and> (\<forall>r \<in> set rs. rq_current_view r = nv_view_number nv
        \<and> ((\<exists>msg \<in> set (nv_viewchange_messages nv). \<exists>pm \<in> set (vm_prepared_msg msg). pm_seq pm = rq_seq r
              \<and> (\<exists>p \<in> set (pm_proof pm). rq_data r = rq_data (pp_request p) \<and> rq_hash r = rq_hash (pp_request p)))
          \<or> (\<forall>msg \<in> set (nv_viewchange_messages nv). \<forall>pm \<in> set (vm_prepared_msg msg). pm_seq pm \<noteq> rq_seq r)
              \<and> rq_data r = [] \<and> rq_hash r = ''null'' @ to_string (unat (rq_seq r))))"
proof -
  obtain v m where s: "s = (v, m)" by fastforce
  let ?pms = "concat (map vm_prepared_msg (nv_viewchange_messages nv))"
  let ?e = "redo_entry C (vc_verifier v) (rep_id (cf_self_info (mm_config m))) (nv_view_number nv) b"
  obtain prepared range where pr: "collect_prepared ?pms [] = Some prepared"
    and rg: "seq_range (min_stable (nv_viewchange_messages nv) + 1) (max_prepared prepared) = Some range"
    and rs: "rs = map (?e prepared) range"
    using assms by (auto simp: GetPrepareMsg_def s split: option.splits)
  have seqs: "map rq_seq rs = range" by (simp add: rs comp_def)
  have le: "pm_seq pm \<le> max_prepared prepared" if "pm \<in> set ?pms" for pm
    using max_prepared_greatest collect_prepared_wf [OF pr] collect_prepared_all [OF pr that] by simp
  have top: "max_prepared prepared = 1 \<or> (\<exists>pm \<in> set ?pms. pm_seq pm = max_prepared prepared)"
    using max_prepared_source [OF pr] .
  have each: "rq_current_view r = nv_view_number nv
        \<and> ((\<exists>msg \<in> set (nv_viewchange_messages nv). \<exists>pm \<in> set (vm_prepared_msg msg). pm_seq pm = rq_seq r
              \<and> (\<exists>p \<in> set (pm_proof pm). rq_data r = rq_data (pp_request p) \<and> rq_hash r = rq_hash (pp_request p)))
          \<or> (\<forall>msg \<in> set (nv_viewchange_messages nv). \<forall>pm \<in> set (vm_prepared_msg msg). pm_seq pm \<noteq> rq_seq r)
              \<and> rq_data r = [] \<and> rq_hash r = ''null'' @ to_string (unat (rq_seq r)))" if mem: "r \<in> set rs" for r
  proof -
    obtain i where r: "r = ?e prepared i" using mem rs by auto
    show ?thesis
    proof (cases "sm_find i prepared")
      case None
      have "\<forall>pm \<in> set ?pms. pm_seq pm \<noteq> i" using collect_prepared_all [OF pr] None by fastforce
      then show ?thesis using None by (auto simp: r redo_entry_data redo_entry_hash)
    next
      case (Some q)
      have "\<exists>pm \<in> set ?pms. pm_seq pm = i \<and> (\<exists>p \<in> set (pm_proof pm). q = pp_request p)"
        using collect_prepared_source [OF pr Some] by simp
      then show ?thesis using Some by (auto simp: r redo_entry_data redo_entry_hash)
    qed
  qed
  have cover: "pm_seq pm \<in> rq_seq ` set rs" if "pm \<in> set ?pms" "min_stable (nv_viewchange_messages nv) + 1 \<le> pm_seq pm" for pm
    using seq_range_mem [OF rg that(2) le [OF that(1)]] seqs by (metis set_map)
  show ?thesis
  proof (intro conjI)
    show "\<exists>hi. seq_range (min_stable (nv_viewchange_messages nv) + 1) hi = Some (map rq_seq rs)
        \<and> (\<forall>msg \<in> set (nv_viewchange_messages nv). \<forall>pm \<in> set (vm_prepared_msg msg). pm_seq pm \<le> hi)
        \<and> (hi = 1 \<or> (\<exists>msg \<in> set (nv_viewchange_messages nv). \<exists>pm \<in> set (vm_prepared_msg msg). pm_seq pm = hi))"
      using rg seqs le top by (intro exI [of _ "max_prepared prepared"]) auto
    show "\<forall>msg \<in> set (nv_viewchange_messages nv). \<forall>pm \<in> set (vm_prepared_msg msg).
        min_stable (nv_viewchange_messages nv) + 1 \<le> pm_seq pm \<longrightarrow> pm_seq pm \<in> rq_seq ` set rs"
      by (intro ballI impI cover) auto
  qed (use each in blast)
qed

text \<open>A VIEW-CHANGE message with a request prepared at 3 above a stable checkpoint at 1.\<close>

definition demo_proof :: prepared_proof where
  "demo_proof =
     \<lparr>pp_request = empty_request\<lparr>rq_type := TYPE_PREPARE, rq_seq := 3, rq_hash := ''h'', rq_sender_id := 9\<rparr>,
      pp_signature = \<lparr>sg_hash_type = HT_ED25519, sg_node_id = 9, sg_signature = ''q3''\<rparr>\<rparr>"

definition demo_prepared_msg :: prepared_message where
  "demo_prepared_msg = \<lparr>pm_seq = 3, pm_proof = [demo_proof, demo_proof, demo_proof]\<rparr>"

definition demo_vc_msg :: viewchange_message where
  "demo_vc_msg = \<lparr>vm_view_number = 2, vm_stable_ckpt = empty_stable_checkpoint, vm_prepared_msg = [demo_prepared_msg]\<rparr>"

definition demo_vc_state :: "unit vc_state" where
  "demo_vc_state = (new_viewchange_manager (Some demo_verifier), demo_manager_of (demo_collectors (new_collector 1 True True)) (new_executor None ()) [])"

lemma demo_redo:
  "\<exists>rs. GetPrepareMsg demo_crypto \<lparr>nv_view_number = 2, nv_request = [], nv_viewchange_messages = [demo_vc_msg]\<rparr> b demo_vc_state
     = Some rs \<and> map rq_seq rs = [1, 2, 3]"
  by (simp add: GetPrepareMsg_def demo_vc_state_def demo_vc_msg_def demo_prepared_msg_def min_stable_def seq_range_def
      max_prepared_def empty_stable_checkpoint_def upt_rec)

theorem new_view_requests_cover_witness:
  "\<exists>rs. GetPrepareMsg demo_crypto \<lparr>nv_view_number = 2, nv_request = [], nv_viewchange_messages = [demo_vc_msg]\<rparr> True demo_vc_state
     = Some rs \<and> map rq_seq rs = [1, 2, 3] \<and> (\<forall>r \<in> set rs. rq_current_view r = 2)"
proof -
  obtain rs where rs: "GetPrepareMsg demo_crypto \<lparr>nv_view_number = 2, nv_request = [], nv_viewchange_messages = [demo_vc_msg]\<rparr> True
      demo_vc_state = Some rs" "map rq_seq rs = [1, 2, 3]" using demo_redo [of True] by (elim exE conjE)
  have "\<forall>r \<in> set rs. rq_current_view r = 2" using new_view_requests_cover [OF rs(1)] by auto
  with rs show ?thesis by (intro exI conjI)
qed

text \<open>C31: the requests that a new primary computes and signs pass the comparison with those a backup
  computes from the same VIEW-CHANGE messages, whatever the two replicas' own states are.\<close>

theorem backup_recomputes_new_view:
  assumes "GetPrepareMsg C nv True s = Some rs"
  shows "\<exists>rs'. GetPrepareMsg C' nv False s' = Some rs' \<and> map rq_data rs' = map rq_data rs
    \<and> map rq_seq rs' = map rq_seq rs \<and> map rq_hash rs' = map rq_hash rs"
  using assms
  by (cases s; cases s')
    (auto simp: GetPrepareMsg_def redo_entry_data redo_entry_hash split: option.splits)

theorem backup_recomputes_new_view_witness:
  "\<exists>rs. GetPrepareMsg demo_crypto \<lparr>nv_view_number = 2, nv_request = [], nv_viewchange_messages = [demo_vc_msg]\<rparr> True demo_vc_state = Some rs
     \<and> (\<exists>rs'. GetPrepareMsg demo_crypto \<lparr>nv_view_number = 2, nv_request = [], nv_viewchange_messages = [demo_vc_msg]\<rparr> False demo_vc_state
          = Some rs' \<and> map rq_data rs' = map rq_data rs)"
proof -
  obtain rs where rs: "GetPrepareMsg demo_crypto \<lparr>nv_view_number = 2, nv_request = [], nv_viewchange_messages = [demo_vc_msg]\<rparr> True
      demo_vc_state = Some rs" using demo_redo [of True] by (elim exE conjE)
  show ?thesis using backup_recomputes_new_view [OF rs, of demo_crypto demo_vc_state] rs by auto
qed

text \<open>C30: a VIEW-CHANGE message passes only if it asks for a later view and every prepared message in it
  that is above its stable checkpoint has a list of at least \<open>GetMinDataReceiveNum\<close> proofs, each a request
  of that number whose signature verifies. The proofs are counted with repetitions: that they come from
  different replicas is not checked, as \<open>repeated_proof_passes\<close> below shows.\<close>

theorem valid_view_change_proofs:
  assumes "IsValidViewChangeMsg C K msg (v, m) = Some True"
  shows "mm_view m < vm_view_number msg
    \<and> (\<forall>pm \<in> set (vm_prepared_msg msg). sc_seq (vm_stable_ckpt msg) < pm_seq pm \<longrightarrow>
         GetMinDataReceiveNum (mm_config m) \<le> int (length (pm_proof pm))
       \<and> (\<forall>p \<in> set (pm_proof pm). rq_seq (pp_request p) = pm_seq pm
            \<and> (\<exists>sv. vc_verifier v = Some sv \<and> VerifyMessage C sv (cv_ser_request K (pp_request p)) (pp_signature p))))"
proof -
  have v: "mm_view m < vm_view_number msg"
    and all: "\<forall>pm \<in> set (vm_prepared_msg msg). prepared_ok C K (vc_verifier v) (GetMinDataReceiveNum (mm_config m))
        (sc_seq (vm_stable_ckpt msg)) pm = Some True"
    using assms by (auto simp: IsValidViewChangeMsg_def all_opt_True not_le split: if_splits option.splits)
  have "GetMinDataReceiveNum (mm_config m) \<le> int (length (pm_proof pm))
      \<and> (\<forall>p \<in> set (pm_proof pm). rq_seq (pp_request p) = pm_seq pm
            \<and> (\<exists>sv. vc_verifier v = Some sv \<and> VerifyMessage C sv (cv_ser_request K (pp_request p)) (pp_signature p)))"
    if pm: "pm \<in> set (vm_prepared_msg msg)" "sc_seq (vm_stable_ckpt msg) < pm_seq pm" for pm
  proof -
    have "prepared_ok C K (vc_verifier v) (GetMinDataReceiveNum (mm_config m)) (sc_seq (vm_stable_ckpt msg)) pm = Some True"
      using all pm(1) by blast
    then show ?thesis using pm(2)
      by (auto simp: prepared_ok_def all_opt_True proof_ok_def split: if_splits option.splits)
  qed
  then show ?thesis using v by blast
qed

definition demo_codec_vc :: vc_codec where
  "demo_codec_vc = \<lparr>cv_parse_viewchange = (\<lambda>_. Some demo_vc_msg),
     cv_parse_newview = (\<lambda>_. Some \<lparr>nv_view_number = 2, nv_request = [empty_request, empty_request], nv_viewchange_messages = []\<rparr>),
     cv_ser_viewchange = (\<lambda>_. []), cv_ser_newview = (\<lambda>_. []), cv_ser_request = (\<lambda>_. ''3'')\<rparr>"

lemma demo_ckpt_proof:
  "IsValidCheckpointProof demo_crypto (new_checkpoint_manager (demo_config [1, 2, 3, 4]) None) empty_stable_checkpoint = Some True"
  by (simp add: IsValidCheckpointProof_def new_checkpoint_manager_def empty_stable_checkpoint_def)

lemma demo_proof_ok: "proof_ok demo_crypto demo_codec_vc (Some demo_verifier) 3 demo_proof = Some True"
  by (simp add: proof_ok_def demo_proof_def demo_codec_vc_def VerifyMessage_def GetPublicKey_def demo_verifier_def demo_key_def
      VerifyWithKey_def demo_crypto_def)

lemma demo_vc_valid: "IsValidViewChangeMsg demo_crypto demo_codec_vc demo_vc_msg demo_vc_state = Some True"
  using demo_ckpt_proof demo_proof_ok
  by (simp add: IsValidViewChangeMsg_def demo_vc_state_def demo_vc_msg_def demo_manager_of_def mm_view_def GetCurrentView_def
      prepared_ok_def demo_prepared_msg_def demo_config_4 new_viewchange_manager_def empty_stable_checkpoint_def word_le_nat_alt)

theorem valid_view_change_proofs_witness:
  "mm_view (snd demo_vc_state) < vm_view_number demo_vc_msg \<and> 3 \<le> int (length (pm_proof demo_prepared_msg))"
proof -
  have "mm_view (snd demo_vc_state) < vm_view_number demo_vc_msg
    \<and> (\<forall>pm \<in> set (vm_prepared_msg demo_vc_msg). sc_seq (vm_stable_ckpt demo_vc_msg) < pm_seq pm \<longrightarrow>
         GetMinDataReceiveNum (mm_config (snd demo_vc_state)) \<le> int (length (pm_proof pm)))"
    using valid_view_change_proofs [of demo_crypto demo_codec_vc demo_vc_msg "fst demo_vc_state" "snd demo_vc_state"]
      demo_vc_valid by simp
  then show ?thesis
    by (simp add: demo_vc_msg_def demo_prepared_msg_def empty_stable_checkpoint_def demo_vc_state_def demo_manager_of_def
        demo_config_4)
qed

text \<open>The count of proofs is a count of list elements. A message that repeats one signed PREPARE
  of a single replica \<open>2 f + 1\<close> times passes as prepared.\<close>

theorem repeated_proof_passes:
  "IsValidViewChangeMsg demo_crypto demo_codec_vc demo_vc_msg demo_vc_state = Some True
   \<and> card (set (pm_proof demo_prepared_msg)) = 1
   \<and> GetMinDataReceiveNum (mm_config (snd demo_vc_state)) = 3"
  using demo_vc_valid by (simp add: demo_prepared_msg_def demo_vc_state_def demo_manager_of_def demo_config_4)

lemma demo_empty_new_view:
  "GetPrepareMsg demo_crypto \<lparr>nv_view_number = 2, nv_request = q, nv_viewchange_messages = []\<rparr> False demo_vc_state
     = Some [redo_entry demo_crypto (Some demo_verifier) 1 2 False [] 0, redo_entry demo_crypto (Some demo_verifier) 1 2 False [] 1]"
  by (simp add: GetPrepareMsg_def demo_vc_state_def min_stable_def seq_range_def max_prepared_def upt_rec
      new_viewchange_manager_def demo_manager_of_def demo_self)

lemma demo_view_primary: "view_primary (demo_config [1, 2, 3, 4]) 2 = Some 2"
  by (simp add: view_primary_def demo_config_def)

text \<open>A NEW-VIEW needs no VIEW-CHANGE messages. One that carries none and two empty requests,
  from any sender, moves a replica to the next view and its primary.\<close>

theorem empty_new_view_accepted:
  "\<exists>s out. ProcessNewView demo_crypto demo_codec_vc (empty_request\<lparr>rq_type := TYPE_NEWVIEW, rq_sender_id := sender\<rparr>) demo_vc_state
      = Some (0, s, out) \<and> mm_view (snd s) = 2 \<and> GetCurrentPrimary (snd s) = 2"
proof -
  let ?rs = "[redo_entry demo_crypto (Some demo_verifier) 1 2 False [] 0, redo_entry demo_crypto (Some demo_verifier) 1 2 False [] 1]"
  let ?nv = "\<lparr>nv_view_number = 2, nv_request = [empty_request, empty_request], nv_viewchange_messages = []\<rparr>"
  have ok: "redo_matches ?rs ?nv"
    by (simp add: redo_matches_def redo_entry_data min_stable_def max_stable_def empty_request_def)
  obtain m1 where m1: "SetCurrentViewAndNewPrimary 2 (snd demo_vc_state) = Some m1" "mm_view m1 = 2" "GetCurrentPrimary m1 = 2"
    "mm_config m1 = demo_config [1, 2, 3, 4]"
    by (simp add: SetCurrentViewAndNewPrimary_def demo_vc_state_def demo_manager_of_def demo_view_primary mm_view_def
        GetCurrentView_def SetPrimary_def SetCurrentView_def GetCurrentPrimary_def GetPrimaryId_def)
  let ?m2 = "SetNextSeq (redo_max ?rs ?nv + 1) m1"
  have redo: "redo_requests [empty_request, empty_request] ?m2 = Some (?m2, [Broadcast empty_request, Broadcast empty_request])"
    by (simp add: redo_request_def empty_request_def)
  have m2: "mm_view ?m2 = 2" "GetCurrentPrimary ?m2 = 2" "mm_config ?m2 = demo_config [1, 2, 3, 4]"
    using m1 by (simp_all add: SetNextSeq_def mm_view_def GetCurrentPrimary_def)
  have view: "mm_view (snd demo_vc_state) = 1" "vc_counter (fst demo_vc_state) = 1"
    by (simp_all add: demo_vc_state_def demo_manager_of_def mm_view_def GetCurrentView_def new_viewchange_manager_def)
  have "ProcessNewView demo_crypto demo_codec_vc (empty_request\<lparr>rq_type := TYPE_NEWVIEW, rq_sender_id := sender\<rparr>) demo_vc_state
      = Some (0, (snd (ChangeStatue VC_NONE (fst demo_vc_state)), ?m2), [Broadcast empty_request, Broadcast empty_request])"
    using demo_empty_new_view [of "[empty_request, empty_request]"] ok m1(1) redo m2 view
    by (simp add: ProcessNewView_def demo_codec_vc_def demo_self)
  then show ?thesis using m2 by simp
qed

end
