(* ===== verification/Recovery.thy ===== *)
theory Recovery
  imports View_Change
begin

text \<open>
  \<open>Recovery\<close> (platform/consensus/recovery/recovery.cpp): the write-ahead log of consensus messages,
  its files, and reading them back after a restart.

  The directory is a map from paths to contents, in bytes. A length is a \<open>size_t\<close> in the machine's
  byte order, here least significant byte first. \<open>write\<close> is taken to store everything it is given, and
  \<open>read\<close> to return what the file has. The codec of the messages, the clock and the order in which
  \<open>directory_iterator\<close> lists a directory are arguments. What a call hands to its callbacks is returned
  as a list. \<open>None\<close> is undefined behaviour, an exception or a loop that does not end.
\<close>

section \<open>Bytes\<close>

fun le_bytes :: "nat \<Rightarrow> nat \<Rightarrow> string" where
  "le_bytes 0 n = []"
| "le_bytes (Suc k) n = char_of (n mod 256) # le_bytes k (n div 256)"

definition le64 :: "nat \<Rightarrow> string" where
  "le64 n = le_bytes 8 n"

fun rd64 :: "string \<Rightarrow> nat" where
  "rd64 [] = 0"
| "rd64 (c # cs) = of_char c + 256 * rd64 cs"

section \<open>State\<close>

type_synonym system_info_data = "int \<times> int"

record rec_codec =
  rk_ser_request :: "request \<Rightarrow> string"
  rk_parse_request :: "string \<Rightarrow> request option"
  rk_ser_sig :: "signature_info \<Rightarrow> string"
  rk_parse_sig :: "string \<Rightarrow> signature_info option"
  rk_ser_info :: "system_info_data \<Rightarrow> string"
  rk_parse_info :: "string \<Rightarrow> system_info_data option"

record recovery =
  rv_enabled :: bool
  rv_buffer :: string
  rv_file_path :: string
  rv_base_file_path :: string
  rv_buffer_size :: nat
  rv_last_ckpt :: int
  rv_min_seq :: int
  rv_max_seq :: int
  rv_system_info :: system_info
  rv_files :: "(string, string) std_map"

section \<open>Writing\<close>

definition AppendData :: "string \<Rightarrow> recovery \<Rightarrow> recovery" where
  "AppendData data s = s\<lparr>rv_buffer := rv_buffer s @ le64 (length data) @ data\<rparr>"

definition recovery_Write :: "string \<Rightarrow> recovery \<Rightarrow> recovery" where
  "recovery_Write bytes s =
     s\<lparr>rv_files := sm_put (rv_file_path s) (sm_get [] (rv_file_path s) (rv_files s) @ bytes) (rv_files s)\<rparr>"

definition recovery_Flush :: "recovery \<Rightarrow> recovery" where
  "recovery_Flush s =
     (if rv_buffer s = [] then s
      else (recovery_Write (rv_buffer s) (recovery_Write (le64 (length (rv_buffer s))) s))\<lparr>rv_buffer := []\<rparr>)"

definition MayFlush :: "recovery \<Rightarrow> recovery" where
  "MayFlush s = (if rv_buffer_size s < length (rv_buffer s) then recovery_Flush s else s)"

definition WriteSystemInfo :: "rec_codec \<Rightarrow> recovery \<Rightarrow> recovery" where
  "WriteSystemInfo K s =
     recovery_Flush (AppendData (rk_ser_info K (i32 (uint (GetCurrentView (rv_system_info s))),
       sint (GetPrimaryId (rv_system_info s)))) s)"

definition WriteLog :: "rec_codec \<Rightarrow> net_context option \<Rightarrow> request \<Rightarrow> recovery \<Rightarrow> recovery" where
  "WriteLog K cx r s =
     (let data = rk_ser_request K r;
          sig = (case cx of None \<Rightarrow> [] | Some c \<Rightarrow> rk_ser_sig K (cx_signature c));
          s1 = s\<lparr>rv_min_seq := (if rv_min_seq s = -1 then sint (rq_seq r) else min (rv_min_seq s) (sint (rq_seq r))),
                 rv_max_seq := max (rv_max_seq s) (sint (rq_seq r))\<rparr>
      in recovery_Flush (AppendData sig (AppendData data s1)))"

definition logged_types :: "request_type set" where
  "logged_types = {TYPE_PRE_PREPARE, TYPE_PREPARE, TYPE_COMMIT, TYPE_CHECKPOINT, TYPE_NEWVIEW}"

definition recovery_AddRequest :: "rec_codec \<Rightarrow> net_context option \<Rightarrow> request \<Rightarrow> recovery \<Rightarrow> recovery" where
  "recovery_AddRequest K cx r s =
     (if rv_enabled s \<and> rq_type r \<in> logged_types then WriteLog K cx r s else s)"

section \<open>Parsing\<close>

text \<open>\<open>int pos\<close> is compared with and added to a \<open>size_t\<close>; copying a length from beyond the end of the
  string is undefined.\<close>

partial_function (option) parse_items :: "string \<Rightarrow> int \<Rightarrow> string list option" where
  "parse_items data pos =
     (if pos < 0 \<or> int (length data) \<le> pos then Some []
      else if length data < nat pos + 8 then None
      else let len = rd64 (take 8 (drop (nat pos) data)); start = i32 (pos + 8);
               item = take len (drop (nat start) data)
           in Option.bind (parse_items data (i32 (start + int len))) (\<lambda>items. Some (item # items)))"

definition ParseRawData :: "string \<Rightarrow> string list option" where
  "ParseRawData data = parse_items data 0"

fun parse_pairs :: "rec_codec \<Rightarrow> string list \<Rightarrow> (signature_info \<times> request) list option" where
  "parse_pairs K [] = Some []"
| "parse_pairs K [d] = (case rk_parse_request K d of None \<Rightarrow> Some [] | Some _ \<Rightarrow> None)"
| "parse_pairs K (d # d' # ds) =
     (case rk_parse_request K d of
        None \<Rightarrow> Some []
      | Some r \<Rightarrow>
          (case rk_parse_sig K d' of
             None \<Rightarrow> Some []
           | Some sig \<Rightarrow> map_option (Cons (sig, r)) (parse_pairs K ds)))"

definition ParseData :: "rec_codec \<Rightarrow> string \<Rightarrow> (signature_info \<times> request) list option" where
  "ParseData K data = Option.bind (parse_items data 0) (parse_pairs K)"

text \<open>\<open>Read\<close>: \<open>len\<close> bytes at the position of the descriptor, or failure.\<close>

definition recovery_Read :: "nat \<Rightarrow> string \<Rightarrow> (string \<times> string) option" where
  "recovery_Read len rest = (if len \<le> length rest then Some (take len rest, drop len rest) else None)"

text \<open>The first record of a file. A length that cannot be read in full keeps the bytes that could.\<close>

definition read_header :: "rec_codec \<Rightarrow> string \<Rightarrow> (system_info_data \<times> string) option option" where
  "read_header K content =
     (case recovery_Read (rd64 (take 8 content)) (drop 8 content) of
        None \<Rightarrow> Some None
      | Some (data, rest) \<Rightarrow>
          Option.bind (ParseRawData data) (\<lambda>items.
            case items of
              [] \<Rightarrow> Some None
            | d # _ \<Rightarrow> Some (map_option (\<lambda>info. (info, rest)) (rk_parse_info K d))))"

function read_records ::
  "rec_codec \<Rightarrow> string \<Rightarrow> (signature_info \<times> request) list \<Rightarrow> (signature_info \<times> request) list option" where
  "read_records K rest acc =
     (if length rest < 8 then Some acc
      else case recovery_Read (rd64 (take 8 rest)) (drop 8 rest) of
             None \<Rightarrow> Some acc
           | Some (data, rest') \<Rightarrow>
               (case ParseData K data of
                  None \<Rightarrow> None
                | Some [] \<Rightarrow> Some []
                | Some list \<Rightarrow> read_records K rest' (acc @ list)))"
  by pat_completeness auto
termination
  by (relation "measure (\<lambda>(_, rest, _). length rest)") (auto simp: recovery_Read_def split: if_splits)

datatype log_event = LogSystem system_info_data | LogRequest signature_info request

text \<open>\<open>ckpt < seq()\<close> compares an \<open>int64_t\<close> with a \<open>uint64_t\<close>. \<open>ftruncate\<close> on the read-only descriptor
  fails and changes nothing.\<close>

definition replay :: "int \<Rightarrow> (signature_info \<times> request) list \<Rightarrow> log_event list" where
  "replay ckpt list =
     map (\<lambda>(sig, r). LogRequest sig (r\<lparr>rq_is_recovery := True\<rparr>)) (filter (\<lambda>(_, r). word_of_int ckpt < rq_seq r) list)"

definition ReadLogsFromFiles :: "rec_codec \<Rightarrow> string \<Rightarrow> int \<Rightarrow> nat \<Rightarrow> recovery \<Rightarrow> (log_event list \<times> recovery) option" where
  "ReadLogsFromFiles K path ckpt file_idx s =
     (let content = sm_get [] path (rv_files s); s1 = s\<lparr>rv_files := sm_put path content (rv_files s)\<rparr>
      in case read_header K content of
           None \<Rightarrow> None
         | Some None \<Rightarrow> Some ([], s1)
         | Some (Some (info, rest)) \<Rightarrow>
             map_option (\<lambda>list. ((if file_idx = 0 then [LogSystem info] else []) @ replay ckpt list, s1))
               (read_records K rest []))"

section \<open>Paths and file names\<close>

text \<open>\<open>rfind(c, from)\<close>, with \<open>npos\<close> read as \<open>-1\<close> by the \<open>int\<close> that receives it; a negative start is a
  great \<open>size_t\<close>.\<close>

definition rfind :: "char \<Rightarrow> int \<Rightarrow> string \<Rightarrow> int" where
  "rfind c from s =
     (let t = (if from < 0 \<or> int (length s) \<le> from then s else take (Suc (nat from)) s)
      in if c \<in> set t then int (length t) - 1 - int (length (takeWhile (\<lambda>x. x \<noteq> c) (rev t))) else -1)"

definition substr :: "int \<Rightarrow> int \<Rightarrow> string \<Rightarrow> string option" where
  "substr pos len s =
     (if pos < 0 \<or> int (length s) < pos then None
      else Some (if len < 0 then drop (nat pos) s else take (nat len) (drop (nat pos) s)))"

definition digit_val :: "char \<Rightarrow> nat" where
  "digit_val c = of_char c - 48"

definition is_digit :: "char \<Rightarrow> bool" where
  "is_digit c \<longleftrightarrow> (48 :: nat) \<le> of_char c \<and> of_char c \<le> (57 :: nat)"

definition digits_val :: "string \<Rightarrow> nat" where
  "digits_val ds = foldl (\<lambda>n c. 10 * n + digit_val c) 0 ds"

definition stoll :: "string \<Rightarrow> int option" where
  "stoll s =
     (let t = dropWhile (\<lambda>c. c \<in> set '' \<newline>'' \<or> of_char c \<in> {9, 11, 12, 13 :: nat}) s;
          neg = (t \<noteq> [] \<and> hd t = CHR ''-'');
          u = (if t \<noteq> [] \<and> (hd t = CHR ''-'' \<or> hd t = CHR ''+'') then tl t else t);
          ds = takeWhile is_digit u; v = (if neg then - int (digits_val ds) else int (digits_val ds))
      in if ds = [] \<or> v < - (2 ^ 63) \<or> 2 ^ 63 \<le> v then None else Some v)"

definition parent_path :: "string \<Rightarrow> string" where
  "parent_path p = (let i = rfind (CHR ''/'') (-1) p in if i < 0 then [] else if i = 0 then ''/'' else take (nat i) p)"

definition path_filename :: "string \<Rightarrow> string" where
  "path_filename p = drop (nat (rfind (CHR ''/'') (-1) p + 1)) p"

definition ext_pos :: "string \<Rightarrow> nat" where
  "ext_pos f = (let i = rfind (CHR ''.'') (-1) f in if i \<le> 0 \<or> f = ''..'' then length f else nat i)"

definition stem :: "string \<Rightarrow> string" where
  "stem p = (let f = path_filename p in take (ext_pos f) f)"

definition extension :: "string \<Rightarrow> string" where
  "extension p = (let f = path_filename p in drop (ext_pos f) f)"

definition GenerateFile :: "int \<Rightarrow> int \<Rightarrow> int \<Rightarrow> int \<Rightarrow> recovery \<Rightarrow> string" where
  "GenerateFile time seq min_seq max_seq s =
     (let dir = parent_path (rv_file_path s);
          name = stem (rv_base_file_path s) @ ''_'' @ to_string_int time @ ''_'' @ to_string_int min_seq @ ''_'' @
                 to_string_int max_seq @ ''_'' @ to_string_int seq;
          ext = (if extension (rv_base_file_path s) = [] then ''log'' else extension (rv_base_file_path s))
      in dir @ ''/'' @ name @ ''.'' @ ext)"

record log_name =
  ln_time :: int
  ln_min_seq :: int
  ln_max_seq :: int
  ln_ckpt :: int

text \<open>The numbers in a file name, as both listings read them.\<close>

definition name_fields :: "string \<Rightarrow> int option \<times> int option \<times> int option \<times> int option" where
  "name_fields name =
     (let pos = rfind (CHR ''_'') (-1) name; max_seq_pos = rfind (CHR ''_'') (pos - 1) name;
          min_seq_pos = rfind (CHR ''_'') (max_seq_pos - 1) name; time_pos = rfind (CHR ''_'') (min_seq_pos - 1) name
      in (Option.bind (substr (time_pos + 1) (min_seq_pos - time_pos - 1) name) stoll,
          Option.bind (substr (min_seq_pos + 1) (max_seq_pos - min_seq_pos - 1) name) stoll,
          Option.bind (substr (max_seq_pos + 1) (pos - max_seq_pos - 1) name) stoll,
          Option.bind (substr (pos + 1) (-1) name) stoll))"

definition parse_name :: "string \<Rightarrow> log_name option" where
  "parse_name name =
     (case name_fields name of
        (Some time, Some min_seq, Some max_seq, Some ckpt) \<Rightarrow>
          Some \<lparr>ln_time = time, ln_min_seq = min_seq, ln_max_seq = max_seq, ln_ckpt = ckpt\<rparr>
      | _ \<Rightarrow> None)"

section \<open>Files\<close>

definition log_files :: "(string list \<Rightarrow> string list) \<Rightarrow> recovery \<Rightarrow> string list" where
  "log_files order s =
     filter (\<lambda>p. extension p = ''.log'')
       (order (filter (\<lambda>p. parent_path p = parent_path (rv_file_path s)) (map fst (rv_files s))))"

definition OpenFile :: "rec_codec \<Rightarrow> string \<Rightarrow> recovery \<Rightarrow> recovery" where
  "OpenFile K path s =
     (let content = sm_get [] path (rv_files s);
          s1 = s\<lparr>rv_file_path := path, rv_files := sm_put path content (rv_files s)\<rparr>
      in if i32 (int (length content)) = 0 then WriteSystemInfo K s1 else s1)"

text \<open>The scan for the file to go on with; \<open>m_time_s\<close> is an \<open>int\<close>.\<close>

fun last_file :: "string list \<Rightarrow> string \<times> int \<times> int \<Rightarrow> (string \<times> int \<times> int) option" where
  "last_file [] acc = Some acc"
| "last_file (p # ps) acc =
     (case name_fields (stem p) of
        (Some time, Some min_seq, _, Some ckpt') \<Rightarrow>
          let (path, ckpt, m_time_s) = acc
          in last_file ps (if min_seq = -1 \<and> (ckpt = -1 \<or> m_time_s < time) then (p, ckpt', i32 time) else acc)
      | _ \<Rightarrow> None)"

definition GetLastFile :: "(string list \<Rightarrow> string list) \<Rightarrow> int \<Rightarrow> recovery \<Rightarrow> recovery option" where
  "GetLastFile order now s =
     map_option (\<lambda>(path, ckpt, _).
         if ckpt = -1 then s\<lparr>rv_last_ckpt := 0, rv_file_path := GenerateFile now 0 (-1) (-1) s\<rparr>
         else s\<lparr>rv_last_ckpt := ckpt, rv_file_path := path\<rparr>)
       (last_file (log_files order s) (rv_file_path s, -1, 0))"

text \<open>The callback of \<open>SwitchFile\<close>: \<open>std::min\<close> in its else branch is computed and dropped.\<close>

definition count_seq :: "log_event \<Rightarrow> recovery \<Rightarrow> recovery" where
  "count_seq e s =
     (case e of
        LogSystem _ \<Rightarrow> s
      | LogRequest _ r \<Rightarrow>
          s\<lparr>rv_min_seq := (if rv_min_seq s = -1 then sint (rq_seq r) else rv_min_seq s),
            rv_max_seq := max (rv_max_seq s) (sint (rq_seq r))\<rparr>)"

definition SwitchFile :: "rec_codec \<Rightarrow> string \<Rightarrow> recovery \<Rightarrow> recovery option" where
  "SwitchFile K path s =
     map_option (\<lambda>(es, s1). OpenFile K path (fold count_seq es s1))
       (ReadLogsFromFiles K path 0 0 (s\<lparr>rv_min_seq := -1, rv_max_seq := -1\<rparr>))"

definition new_recovery ::
  "rec_codec \<Rightarrow> (string list \<Rightarrow> string list) \<Rightarrow> int \<Rightarrow> resdb_config \<Rightarrow> string \<Rightarrow> nat \<Rightarrow> system_info
     \<Rightarrow> (string, string) std_map \<Rightarrow> recovery option" where
  "new_recovery K order now cfg path buffer_size si files =
     (let p = (if path = [] then ''./wal_log/log'' else path);
          s = \<lparr>rv_enabled = (cd_recovery_enabled (cf_config_data cfg) \<and> cf_node_kind cfg \<noteq> CLIENT), rv_buffer = [],
               rv_file_path = p, rv_base_file_path = p, rv_buffer_size = (if buffer_size = 0 then 1024 else buffer_size),
               rv_last_ckpt = 0, rv_min_seq = -1, rv_max_seq = -1, rv_system_info = si, rv_files = files\<rparr>
      in if \<not> rv_enabled s then Some s
         else Option.bind (GetLastFile order now s) (\<lambda>s1. SwitchFile K (rv_file_path s1) s1))"

text \<open>\<open>flushed\<close> is the result of \<open>storage_->Flush()\<close>, true when there is no storage.\<close>

definition FinishFile :: "rec_codec \<Rightarrow> int \<Rightarrow> int \<Rightarrow> bool \<Rightarrow> int \<Rightarrow> recovery \<Rightarrow> recovery" where
  "FinishFile K now now' flushed seq s =
     (let s1 = recovery_Flush s
      in if \<not> flushed then s1
         else let new_path = GenerateFile now seq (rv_min_seq s1) (rv_max_seq s1) s1;
                  s2 = s1\<lparr>rv_min_seq := -1, rv_max_seq := -1,
                          rv_files := sm_put new_path (sm_get [] (rv_file_path s1) (rv_files s1))
                                        (sm_erase (rv_file_path s1) (rv_files s1))\<rparr>
              in OpenFile K (GenerateFile now' seq (-1) (-1) s2) s2)"

definition UpdateStableCheckPoint_step :: "rec_codec \<Rightarrow> int \<Rightarrow> int \<Rightarrow> bool \<Rightarrow> checkpoint_manager \<Rightarrow> recovery \<Rightarrow> recovery" where
  "UpdateStableCheckPoint_step K now now' flushed cm s =
     (let latest_ckpt = sint (GetStableCheckpoint cm)
      in if rv_last_ckpt s = latest_ckpt then s
         else FinishFile K now now' flushed latest_ckpt (s\<lparr>rv_last_ckpt := latest_ckpt\<rparr>))"

definition parse_all :: "string list \<Rightarrow> (string \<times> log_name) list option" where
  "parse_all ps = those (map (\<lambda>p. map_option (Pair p) (parse_name (stem p))) ps)"

definition GetRecoveryFiles :: "(string list \<Rightarrow> string list) \<Rightarrow> recovery \<Rightarrow> ((int \<times> string) list \<times> int) option" where
  "GetRecoveryFiles order s =
     (case parse_all (log_files order s) of
        None \<Rightarrow> None
      | Some ns \<Rightarrow>
          let last_ckpt = fold (\<lambda>(_, n) c. max c (ln_ckpt n)) ns 0;
              e_list = [(ln_time n, p). (p, n) \<leftarrow> ns, ln_min_seq n = -1];
              list = [(ln_time n, p). (p, n) \<leftarrow> ns, ln_min_seq n \<noteq> -1 \<and> ln_min_seq n \<le> last_ckpt \<and> last_ckpt \<le> ln_max_seq n]
          in if e_list = [] then None else Some (sort (list @ [last (sort e_list)]), last_ckpt))"

fun read_files :: "rec_codec \<Rightarrow> int \<Rightarrow> nat \<Rightarrow> (int \<times> string) list \<Rightarrow> recovery \<Rightarrow> (log_event list \<times> recovery) option" where
  "read_files K ckpt idx [] s = Some ([], s)"
| "read_files K ckpt idx ((_, path) # ps) s =
     (case ReadLogsFromFiles K path ckpt idx s of
        None \<Rightarrow> None
      | Some (es, s1) \<Rightarrow> map_option (\<lambda>(es', s2). (es @ es', s2)) (read_files K ckpt (Suc idx) ps s1))"

definition ReadLogs :: "rec_codec \<Rightarrow> (string list \<Rightarrow> string list) \<Rightarrow> recovery \<Rightarrow> (log_event list \<times> recovery) option" where
  "ReadLogs K order s =
     (if \<not> rv_enabled s then Some ([], s)
      else case GetRecoveryFiles order s of
             None \<Rightarrow> None
           | Some (files, ckpt) \<Rightarrow> read_files K ckpt 0 files s)"

section \<open>Frames\<close>

lemma rd64_le_bytes: "rd64 (le_bytes k n) = n mod 256 ^ k"
  by (induction k arbitrary: n) (simp_all add: mod_mult2_eq)

lemma length_le64 [simp]: "length (le64 n) = 8"
proof -
  have "length (le_bytes k n) = k" for k by (induction k arbitrary: n) simp_all
  then show ?thesis by (simp add: le64_def)
qed

lemma rd64_le64 [simp]: "n < 2 ^ 64 \<Longrightarrow> rd64 (le64 n) = n"
  unfolding le64_def rd64_le_bytes by simp

definition frame :: "string \<Rightarrow> string" where
  "frame d = le64 (length d) @ d"

lemma length_frame [simp]: "length (frame d) = 8 + length d"
  by (simp add: frame_def)

lemma frame_not_Nil [simp]: "frame d \<noteq> []"
  using length_frame [of d] by (metis add_is_0 list.size(3) zero_neq_numeral)

lemma parse_items_frames:
  assumes "data = pre @ concat (map frame items)" "length data < 2 ^ 31"
  shows "parse_items data (int (length pre)) = Some items"
  using assms
proof (induction items arbitrary: pre)
  case Nil
  then show ?case by (subst parse_items.simps) simp
next
  case (Cons d items)
  let ?rest = "concat (map frame items)"
  have data: "data = (pre @ frame d) @ ?rest" using Cons.prems(1) by simp
  have len: "length d < 2 ^ 31" "length pre + 8 + length d < 2 ^ 31" using Cons.prems by simp_all
  have d1: "drop (length pre) data = le64 (length d) @ d @ ?rest" by (simp add: Cons.prems(1) frame_def [of d])
  have "drop (length pre + 8) data = drop 8 (drop (length pre) data)" by (simp add: add.commute)
  also have "\<dots> = d @ ?rest" unfolding d1 by simp
  finally have d2: "drop (length pre + 8) data = d @ ?rest" .
  have start: "i32 (int (length pre) + 8) = int (length pre + 8)" using len by simp
  have nxt: "i32 (int (length pre + 8) + int (length d)) = int (length (pre @ frame d))" using len by (simp add: add.assoc)
  have IH: "parse_items data (int (length (pre @ frame d))) = Some items" by (rule Cons.IH [OF data Cons.prems(2)])
  have r: "rd64 (take 8 (drop (length pre) data)) = length d" unfolding d1 using len(1) by simp
  have c: "\<not> (int (length pre) < 0 \<or> int (length data) \<le> int (length pre))" "\<not> length data < length pre + 8"
    using data by simp_all
  show ?case
    by (subst parse_items.simps) (simp only: c if_False Let_def nat_int r start nxt IH bind.simps d2, simp)
qed

corollary ParseRawData_frames: "length (concat (map frame items)) < 2 ^ 31 \<Longrightarrow> ParseRawData (concat (map frame items)) = Some items"
  using parse_items_frames [of _ "[]" items] by (simp add: ParseRawData_def)

section \<open>Log files\<close>

text \<open>The signature stored with a message, the payload of its record, and the record.\<close>

definition logged_sig :: "net_context option \<Rightarrow> signature_info" where
  "logged_sig cx = (case cx of None \<Rightarrow> empty_signature | Some c \<Rightarrow> cx_signature c)"

definition sig_bytes :: "rec_codec \<Rightarrow> net_context option \<Rightarrow> string" where
  "sig_bytes K cx = (case cx of None \<Rightarrow> [] | Some c \<Rightarrow> rk_ser_sig K (cx_signature c))"

definition log_record :: "rec_codec \<Rightarrow> net_context option \<times> request \<Rightarrow> string" where
  "log_record K x = frame (frame (rk_ser_request K (snd x)) @ frame (sig_bytes K (fst x)))"

definition header_record :: "rec_codec \<Rightarrow> system_info_data \<Rightarrow> string" where
  "header_record K info = frame (frame (rk_ser_info K info))"

text \<open>The codec gives a message back, and its record fits the \<open>int\<close> positions of the parser.\<close>

definition readable :: "rec_codec \<Rightarrow> net_context option \<times> request \<Rightarrow> bool" where
  "readable K x \<longleftrightarrow> rk_parse_request K (rk_ser_request K (snd x)) = Some (snd x)
     \<and> rk_parse_sig K (sig_bytes K (fst x)) = Some (logged_sig (fst x)) \<and> length (log_record K x) < 2 ^ 31"

definition log_entry :: "net_context option \<times> request \<Rightarrow> signature_info \<times> request" where
  "log_entry x = (logged_sig (fst x), snd x)"

lemma ParseData_record:
  assumes "readable K x"
  shows "ParseData K (frame (rk_ser_request K (snd x)) @ frame (sig_bytes K (fst x))) = Some [log_entry x]"
proof -
  let ?items = "[rk_ser_request K (snd x), sig_bytes K (fst x)]"
  have "length (concat (map frame ?items)) < 2 ^ 31" using assms by (simp add: readable_def log_record_def)
  from ParseRawData_frames [OF this] show ?thesis using assms
    by (simp add: ParseData_def ParseRawData_def readable_def log_entry_def)
qed

declare read_records.simps [simp del]

lemma read_record:
  assumes "readable K x"
  shows "read_records K (log_record K x @ rest) acc = read_records K rest (acc @ [log_entry x])"
proof -
  let ?b = "frame (rk_ser_request K (snd x)) @ frame (sig_bytes K (fst x))"
  have "length ?b < 2 ^ 64" using assms by (simp add: readable_def log_record_def)
  then have "recovery_Read (rd64 (take 8 (frame ?b @ rest))) (drop 8 (frame ?b @ rest)) = Some (?b, rest)"
    by (simp add: recovery_Read_def frame_def [of ?b])
  then show ?thesis using ParseData_record [OF assms]
    by (subst read_records.simps) (simp add: log_record_def)
qed

lemma read_all_records:
  "\<forall>x \<in> set xs. readable K x \<Longrightarrow> read_records K (concat (map (log_record K) xs) @ rest) acc = read_records K rest (acc @ map log_entry xs)"
  by (induction xs arbitrary: acc) (simp_all add: read_record)

text \<open>A record of which the end is missing is not read.\<close>

lemma read_torn_record:
  assumes "readable K x" "log_record K x = t @ u" "u \<noteq> []"
  shows "read_records K t acc = Some acc"
proof (cases "length t < 8")
  case True
  then show ?thesis by (simp add: read_records.simps)
next
  case False
  let ?b = "frame (rk_ser_request K (snd x)) @ frame (sig_bytes K (fst x))"
  have eq: "le64 (length ?b) @ ?b = t @ u" using assms(2) by (simp add: log_record_def frame_def [of ?b])
  have "take 8 t = take 8 (t @ u)" using False by simp
  also have "\<dots> = le64 (length ?b)" unfolding eq [symmetric] by simp
  finally have "take 8 t = le64 (length ?b)" .
  then have rd: "rd64 (take 8 t) = length ?b" using assms(1) by (simp add: readable_def log_record_def)
  have "length (drop 8 t) < length ?b" using arg_cong [OF eq, of length] assms(3) False by (cases u) simp_all
  then have "recovery_Read (rd64 (take 8 t)) (drop 8 t) = None" unfolding rd by (simp add: recovery_Read_def)
  then show ?thesis by (subst read_records.simps) simp
qed

lemma read_prefix:
  assumes "\<forall>x \<in> set xs. readable K x" "concat (map (log_record K) xs) = t @ u"
  shows "\<exists>k \<le> length xs. read_records K t acc = Some (acc @ take k (map log_entry xs)) \<and> (u = [] \<longrightarrow> k = length xs)"
  using assms
proof (induction xs arbitrary: t acc)
  case Nil
  then show ?case by (simp add: read_records.simps)
next
  case (Cons x xs)
  have eq: "log_record K x @ concat (map (log_record K) xs) = t @ u" using Cons.prems(2) by simp
  have rx: "readable K x" using Cons.prems(1) by simp
  consider (torn) v where "log_record K x = t @ v" "v \<noteq> []" "v @ concat (map (log_record K) xs) = u"
    | (whole) t' where "t = log_record K x @ t'" "concat (map (log_record K) xs) = t' @ u"
    using eq unfolding append_eq_append_conv2 by (metis append_Nil append_Nil2)
  then show ?case
  proof cases
    case torn
    then show ?thesis using read_torn_record [OF rx torn(1,2)] by (intro exI [of _ 0]) auto
  next
    case whole
    have rxs: "\<forall>x \<in> set xs. readable K x" using Cons.prems(1) by simp
    obtain k where "k \<le> length xs" "read_records K t' (acc @ [log_entry x]) = Some ((acc @ [log_entry x]) @ take k (map log_entry xs))"
      "u = [] \<longrightarrow> k = length xs" using Cons.IH [OF rxs whole(2), of "acc @ [log_entry x]"] by (elim exE conjE)
    then show ?thesis using read_record [OF rx] whole(1) by (intro exI [of _ "Suc k"]) simp
  qed
qed

text \<open>What the messages of a run leave in the current file.\<close>

definition log_all :: "rec_codec \<Rightarrow> (net_context option \<times> request) list \<Rightarrow> recovery \<Rightarrow> recovery" where
  "log_all K xs s = fold (\<lambda>(cx, r). recovery_AddRequest K cx r) xs s"

definition current_log :: "recovery \<Rightarrow> string" where
  "current_log s = sm_get [] (rv_file_path s) (rv_files s)"

lemma recovery_Flush_log:
  "rv_buffer (recovery_Flush s) = [] \<and> rv_file_path (recovery_Flush s) = rv_file_path s \<and> rv_enabled (recovery_Flush s) = rv_enabled s
   \<and> current_log (recovery_Flush s) = current_log s @ (if rv_buffer s = [] then [] else frame (rv_buffer s))"
  by (simp add: recovery_Flush_def recovery_Write_def current_log_def frame_def)

lemma WriteLog_log:
  assumes "rv_buffer s = []"
  shows "rv_buffer (WriteLog K cx r s) = [] \<and> rv_file_path (WriteLog K cx r s) = rv_file_path s
   \<and> rv_enabled (WriteLog K cx r s) = rv_enabled s \<and> current_log (WriteLog K cx r s) = current_log s @ log_record K (cx, r)"
proof -
  obtain s2 where w: "WriteLog K cx r s = recovery_Flush s2" and b: "rv_buffer s2 = frame (rk_ser_request K r) @ frame (sig_bytes K cx)"
    and f: "rv_file_path s2 = rv_file_path s" "rv_enabled s2 = rv_enabled s" "current_log s2 = current_log s"
    using assms by (simp add: WriteLog_def AppendData_def sig_bytes_def current_log_def frame_def Let_def)
  show ?thesis unfolding w using recovery_Flush_log [of s2] f by (simp add: b log_record_def)
qed

lemma log_all_log:
  assumes "rv_enabled s" "rv_buffer s = []"
  shows "current_log (log_all K xs s) = current_log s @ concat (map (log_record K) (filter (\<lambda>x. rq_type (snd x) \<in> logged_types) xs))
    \<and> rv_file_path (log_all K xs s) = rv_file_path s"
  using assms
proof (induction xs arbitrary: s)
  case (Cons x xs)
  obtain cx r where x: "x = (cx, r)" by fastforce
  show ?case using Cons.IH [of "recovery_AddRequest K cx r s"] Cons.prems WriteLog_log [OF Cons.prems(2), of K cx r]
    by (simp add: log_all_def recovery_AddRequest_def x)
qed (simp add: log_all_def)

lemma read_header_record:
  assumes "rk_parse_info K (rk_ser_info K info) = Some info" "length (header_record K info) < 2 ^ 31"
  shows "read_header K (header_record K info @ rest) = Some (Some (info, rest))"
proof -
  let ?b = "frame (rk_ser_info K info)"
  have "length ?b < 2 ^ 64" "length (concat (map frame [rk_ser_info K info])) < 2 ^ 31" using assms(2) by (simp_all add: header_record_def)
  moreover from this(1) have "recovery_Read (rd64 (take 8 (frame ?b @ rest))) (drop 8 (frame ?b @ rest)) = Some (?b, rest)"
    by (simp add: recovery_Read_def frame_def [of ?b])
  ultimately show ?thesis using assms(1) ParseRawData_frames [of "[rk_ser_info K info]"] by (simp add: read_header_def header_record_def)
qed

section \<open>File names\<close>

lemma to_string_digits: "(\<forall>c \<in> set (to_string n). is_digit c) \<and> digits_val (to_string n) = n \<and> to_string n \<noteq> []"
proof (induction n rule: to_string.induct)
  case (1 n)
  have d: "of_char (char_of (48 + m) :: char) = (48 + m :: nat)" if "m < 10" for m using that by simp
  show ?case
  proof (cases "n < 10")
    case True
    then show ?thesis using d [of n] by (simp add: to_string.simps [of n] is_digit_def digits_val_def digit_val_def)
  next
    case False
    have "digits_val (ds @ [c]) = 10 * digits_val ds + digit_val c" for ds c by (simp add: digits_val_def)
    then show ?thesis using False 1 d [of "n mod 10"] by (simp add: to_string.simps [of n] is_digit_def digit_val_def)
  qed
qed

lemma digit_not_space:
  "is_digit c \<Longrightarrow> c \<notin> set '' \<newline>'' \<and> of_char c \<notin> {9, 11, 12, 13 :: nat} \<and> c \<noteq> CHR ''-'' \<and> c \<noteq> CHR ''+'' \<and> c \<noteq> CHR ''_'' \<and> c \<noteq> CHR ''/'' \<and> c \<noteq> CHR ''.''"
  by (auto simp: is_digit_def)

lemma stoll_to_string:
  assumes "- (2 ^ 63) \<le> n" "n < 2 ^ 63"
  shows "stoll (to_string_int n) = Some n"
proof -
  have tw: "takeWhile is_digit (to_string m) = to_string m" for m using to_string_digits [of m] by (simp add: takeWhile_eq_all_conv)
  obtain c cs where cs: "to_string (nat n) = c # cs" "is_digit c" using to_string_digits [of "nat n"] by (cases "to_string (nat n)") auto
  show ?thesis
  proof (cases "n < 0")
    case True
    then show ?thesis using assms to_string_digits [of "nat (- n)"] by (simp add: stoll_def to_string_int_def Let_def tw)
  next
    case False
    have "dropWhile (\<lambda>c. c \<in> set '' \<newline>'' \<or> of_char c \<in> {9, 11, 12, 13 :: nat}) (to_string (nat n)) = to_string (nat n)"
      using cs digit_not_space [OF cs(2)] by simp
    moreover have "hd (to_string (nat n)) \<noteq> CHR ''-'' \<and> hd (to_string (nat n)) \<noteq> CHR ''+''" using cs digit_not_space [OF cs(2)] by simp
    ultimately show ?thesis using False assms to_string_digits [of "nat n"] by (simp only: stoll_def to_string_int_def Let_def tw) (simp add: tw)
  qed
qed

lemma to_string_free: "c \<in> {CHR ''_'', CHR ''/'', CHR ''.''} \<Longrightarrow> c \<notin> set (to_string n)"
  using to_string_digits [of n] by (auto simp: is_digit_def)

lemma to_string_int_free: "c \<in> {CHR ''_'', CHR ''/'', CHR ''.''} \<Longrightarrow> c \<notin> set (to_string_int n)"
  using to_string_free [of c] unfolding to_string_int_def by auto

lemma rfind_last: "c \<notin> set b \<Longrightarrow> rfind c (-1) (a @ c # b) = int (length a)"
  by (simp add: rfind_def takeWhile_append takeWhile_eq_all_conv [THEN iffD2])

lemma rfind_from: "a \<noteq> [] \<Longrightarrow> rfind c (int (length a) - 1) (a @ b) = rfind c (-1) a"
  by (cases "b = []") (auto simp: rfind_def Suc_nat_eq_nat_zadd1 nat_diff_distrib Let_def)

lemma substr_middle: "substr (int (length a) + 1) (int (length w)) (a @ c # w @ b) = Some w"
  by (simp add: substr_def nat_add_distrib)

lemma substr_end: "substr (int (length a) + 1) (-1) (a @ c # w) = Some w"
  by (simp add: substr_def nat_add_distrib)

lemma name_fields_join:
  assumes "CHR ''_'' \<notin> set t" "CHR ''_'' \<notin> set m" "CHR ''_'' \<notin> set x" "CHR ''_'' \<notin> set k"
  shows "name_fields (st @ ''_'' @ t @ ''_'' @ m @ ''_'' @ x @ ''_'' @ k) = (stoll t, stoll m, stoll x, stoll k)"
proof -
  let ?u = "CHR ''_''" and ?a2 = "st @ CHR ''_'' # t"
  let ?a3 = "?a2 @ CHR ''_'' # m"
  let ?a4 = "?a3 @ CHR ''_'' # x"
  let ?n = "st @ ''_'' @ t @ ''_'' @ m @ ''_'' @ x @ ''_'' @ k"
  have n: "?n = ?a4 @ ?u # k" "?n = ?a3 @ ?u # x @ (?u # k)" "?n = ?a2 @ ?u # m @ (?u # x @ ?u # k)"
    "?n = st @ ?u # t @ (?u # m @ ?u # x @ ?u # k)" by simp_all
  have p1: "rfind ?u (-1) ?n = int (length ?a4)" unfolding n(1) by (rule rfind_last [OF assms(4)])
  have p2: "rfind ?u (int (length ?a4) - 1) ?n = int (length ?a3)"
    unfolding n(1) by (subst rfind_from, simp, rule rfind_last [OF assms(3)])
  have p3: "rfind ?u (int (length ?a3) - 1) ?n = int (length ?a2)"
    unfolding n(2) by (subst rfind_from, simp, rule rfind_last [OF assms(2)])
  have p4: "rfind ?u (int (length ?a2) - 1) ?n = int (length st)"
    unfolding n(3) by (subst rfind_from, simp, rule rfind_last [OF assms(1)])
  have l: "int (length ?a4) - int (length ?a3) - 1 = int (length x)" "int (length ?a3) - int (length ?a2) - 1 = int (length m)"
    "int (length ?a2) - int (length st) - 1 = int (length t)" by simp_all
  have s: "substr (int (length ?a4) + 1) (-1) ?n = Some k" "substr (int (length ?a3) + 1) (int (length x)) ?n = Some x"
    "substr (int (length ?a2) + 1) (int (length m)) ?n = Some m" "substr (int (length st) + 1) (int (length t)) ?n = Some t"
    unfolding n(1) by (rule substr_end, unfold n(1) [symmetric] n(2), rule substr_middle, unfold n(2) [symmetric] n(3), rule substr_middle,
      unfold n(3) [symmetric] n(4), rule substr_middle)
  show ?thesis unfolding name_fields_def Let_def p1 p2 p3 p4 l s by simp
qed

lemma path_parts:
  assumes "CHR ''/'' \<notin> set f" "dir \<noteq> []"
  shows "path_filename (dir @ ''/'' @ f) = f" "parent_path (dir @ ''/'' @ f) = dir"
  using rfind_last [OF assms(1), of dir] assms(2) by (simp_all add: path_filename_def parent_path_def nat_add_distrib)

lemma stem_extension:
  assumes "CHR ''/'' \<notin> set f" "dir \<noteq> []" "f = st @ ''.'' @ e" "CHR ''.'' \<notin> set e" "st \<noteq> []" "e \<noteq> []"
  shows "stem (dir @ ''/'' @ f) = st \<and> extension (dir @ ''/'' @ f) = ''.'' @ e"
proof -
  have "rfind CHR ''.'' (-1) f = int (length st)" using rfind_last [OF assms(4), of st] assms(3) by simp
  moreover have "hd e \<in> set f" "hd e \<noteq> CHR ''.''" using assms(3,4,6) by (cases e; auto)+
  then have "f \<noteq> ''..''" by auto
  ultimately have "ext_pos f = length st" using assms(5) by (simp add: ext_pos_def)
  then show ?thesis unfolding stem_def extension_def path_parts(1) [OF assms(1,2)] Let_def by (simp add: assms(3))
qed

lemma stem_no_slash: "CHR ''/'' \<notin> set (stem p)"
proof -
  have "CHR ''/'' \<notin> set (path_filename p)"
  proof (cases "CHR ''/'' \<in> set p")
    case True
    then obtain a b where p: "p = a @ CHR ''/'' # b" "CHR ''/'' \<notin> set b" by (meson split_list_last)
    show ?thesis using p rfind_last [OF p(2), of a] by (simp add: path_filename_def nat_add_distrib)
  qed (simp add: path_filename_def rfind_def)
  then show ?thesis by (auto simp: stem_def Let_def dest: in_set_takeD)
qed

section \<open>Properties\<close>

text \<open>C37: the name of a log file keeps what it was made from. For a log path without an extension and
  with a directory, the listings find the file in its directory and read the time, the range of
  sequence numbers and the checkpoint back from its name.\<close>

theorem log_name_roundtrip:
  assumes base: "extension (rv_base_file_path s) = []" "parent_path (rv_file_path s) \<noteq> []"
    and range: "\<forall>n \<in> {time, seq, min_seq, max_seq}. - (2 ^ 63) \<le> n \<and> n < 2 ^ 63"
  shows "parse_name (stem (GenerateFile time seq min_seq max_seq s))
      = Some \<lparr>ln_time = time, ln_min_seq = min_seq, ln_max_seq = max_seq, ln_ckpt = seq\<rparr>
    \<and> extension (GenerateFile time seq min_seq max_seq s) = ''.log''
    \<and> parent_path (GenerateFile time seq min_seq max_seq s) = parent_path (rv_file_path s)"
proof -
  let ?name = "stem (rv_base_file_path s) @ ''_'' @ to_string_int time @ ''_'' @ to_string_int min_seq @ ''_'' @
      to_string_int max_seq @ ''_'' @ to_string_int seq"
  let ?f = "?name @ ''.'' @ ''log''"
  have g: "GenerateFile time seq min_seq max_seq s = parent_path (rv_file_path s) @ ''/'' @ ?f" by (simp add: GenerateFile_def base(1))
  have f: "CHR ''/'' \<notin> set ?f" using stem_no_slash to_string_int_free [of "CHR ''/''"] by simp
  have se: "stem (GenerateFile time seq min_seq max_seq s) = ?name \<and> extension (GenerateFile time seq min_seq max_seq s) = ''.log''"
    unfolding g using stem_extension [OF f base(2) refl] by simp
  have "name_fields ?name = (stoll (to_string_int time), stoll (to_string_int min_seq), stoll (to_string_int max_seq), stoll (to_string_int seq))"
    by (rule name_fields_join) (rule to_string_int_free, simp)+
  then have "parse_name ?name = Some \<lparr>ln_time = time, ln_min_seq = min_seq, ln_max_seq = max_seq, ln_ckpt = seq\<rparr>"
    using range by (simp add: parse_name_def stoll_to_string)
  moreover have "parent_path (GenerateFile time seq min_seq max_seq s) = parent_path (rv_file_path s)"
    unfolding g by (rule path_parts(2) [OF f base(2)])
  ultimately show ?thesis using se by simp
qed


text \<open>C12: the log survives a crash. Whatever messages a replica logs, and wherever behind its header the
  file is cut off, reading it back gives the system information and a prefix of the logged
  messages, in order and marked as recovered, with those at or below the checkpoint left out; an
  intact file gives all of them.\<close>

theorem log_survives_crash:
  assumes codec: "\<forall>x \<in> set xs. readable K x" "rk_parse_info K (rk_ser_info K info) = Some info" "length (header_record K info) < 2 ^ 31"
    and start: "rv_enabled s" "rv_buffer s = []" "current_log s = header_record K info"
    and cut: "current_log (log_all K xs s) = t @ u" "length (header_record K info) \<le> length t"
    and onfile: "sm_get [] path (rv_files s') = t"
  shows "\<exists>k s''. ReadLogsFromFiles K path ckpt 0 s'
      = Some (LogSystem info # replay ckpt (take k (map log_entry (filter (\<lambda>x. rq_type (snd x) \<in> logged_types) xs))), s'')
    \<and> (u = [] \<longrightarrow> k = length (filter (\<lambda>x. rq_type (snd x) \<in> logged_types) xs))"
proof -
  let ?xs = "filter (\<lambda>x. rq_type (snd x) \<in> logged_types) xs"
  have "header_record K info @ concat (map (log_record K) ?xs) = t @ u"
    using log_all_log [OF start(1,2), of K xs] start(3) cut(1) by simp
  then obtain t' where t: "t = header_record K info @ t'" "concat (map (log_record K) ?xs) = t' @ u"
    using cut(2) by (auto simp: append_eq_append_conv2)
  have "\<forall>x \<in> set ?xs. readable K x" using codec(1) by simp
  from read_prefix [OF this t(2), of "[]"] obtain k where
    k: "read_records K t' [] = Some ([] @ take k (map log_entry ?xs))" "u = [] \<longrightarrow> k = length ?xs" by (elim exE conjE)
  have "ReadLogsFromFiles K path ckpt 0 s'
      = Some (LogSystem info # replay ckpt (take k (map log_entry ?xs)), s'\<lparr>rv_files := sm_put path t (rv_files s')\<rparr>)"
    unfolding ReadLogsFromFiles_def Let_def onfile
    using read_header_record [OF codec(2,3), of t'] k(1) by (simp add: t(1))
  then show ?thesis using k(2) by (intro exI conjI)
qed

definition demo_logged :: request where
  "demo_logged = empty_request\<lparr>rq_type := TYPE_PREPARE, rq_seq := 3\<rparr>"

definition demo_rec_codec :: rec_codec where
  "demo_rec_codec = \<lparr>rk_ser_request = (\<lambda>_. ''r''), rk_parse_request = (\<lambda>_. Some demo_logged), rk_ser_sig = (\<lambda>_. ''g''),
     rk_parse_sig = (\<lambda>_. Some empty_signature), rk_ser_info = (\<lambda>_. ''i''), rk_parse_info = (\<lambda>_. Some (1, 1))\<rparr>"

definition demo_recovery :: recovery where
  "demo_recovery = \<lparr>rv_enabled = True, rv_buffer = [], rv_file_path = ''w/log'', rv_base_file_path = ''w/log'', rv_buffer_size = 1024,
     rv_last_ckpt = 0, rv_min_seq = -1, rv_max_seq = -1, rv_system_info = \<lparr>si_primary_id = 1, si_view = 1, si_replicas = []\<rparr>,
     rv_files = [(''w/log'', header_record demo_rec_codec (1, 1))]\<rparr>"

theorem log_survives_crash_witness:
  "\<exists>s''. ReadLogsFromFiles demo_rec_codec ''w/log'' 1 0 (log_all demo_rec_codec [(None, demo_logged)] demo_recovery)
     = Some ([LogSystem (1, 1), LogRequest empty_signature (demo_logged\<lparr>rq_is_recovery := True\<rparr>)], s'')"
proof -
  let ?K = demo_rec_codec and ?s = "log_all demo_rec_codec [(None, demo_logged)] demo_recovery"
  let ?xs = "filter (\<lambda>x. rq_type (snd x) \<in> logged_types) [(None :: net_context option, demo_logged)]"
  have xs: "\<forall>x \<in> set [(None, demo_logged)]. readable ?K x" "rk_parse_info ?K (rk_ser_info ?K (1, 1)) = Some (1, 1)"
    "length (header_record ?K (1, 1)) < 2 ^ 31" "rv_enabled demo_recovery" "rv_buffer demo_recovery = []"
    "current_log demo_recovery = header_record ?K (1, 1)"
    by (simp_all add: readable_def demo_rec_codec_def sig_bytes_def logged_sig_def log_record_def header_record_def demo_recovery_def
        current_log_def sm_get_def)
  have len: "?xs = [(None, demo_logged)]" by (simp add: demo_logged_def logged_types_def)
  note log = log_all_log [OF xs(4,5), of ?K "[(None, demo_logged)]"]
  have "rv_file_path ?s = ''w/log''" using log by (simp add: demo_recovery_def)
  then have "sm_get [] ''w/log'' (rv_files ?s) = current_log ?s" by (simp add: current_log_def)
  moreover have "length (header_record ?K (1, 1)) \<le> length (current_log ?s)" using log unfolding xs(6) by simp
  moreover have "current_log ?s = current_log ?s @ []" by simp
  ultimately have "current_log ?s = current_log ?s @ []" "length (header_record ?K (1, 1)) \<le> length (current_log ?s)"
    "sm_get [] ''w/log'' (rv_files ?s) = current_log ?s" by blast+
  from log_survives_crash [OF xs this, of 1] obtain k s'' where
    "ReadLogsFromFiles ?K ''w/log'' 1 0 ?s = Some (LogSystem (1, 1) # replay 1 (take k (map log_entry ?xs)), s'')" "k = length ?xs"
    by (elim exE conjE) simp
  then show ?thesis unfolding len
    by (simp add: replay_def log_entry_def logged_sig_def) (simp add: demo_logged_def)
qed

theorem log_name_roundtrip_witness:
  "parse_name (stem (GenerateFile 1700 8 (-1) 7 demo_recovery)) = Some \<lparr>ln_time = 1700, ln_min_seq = -1, ln_max_seq = 7, ln_ckpt = 8\<rparr>
   \<and> extension (GenerateFile 1700 8 (-1) 7 demo_recovery) = ''.log''"
proof -
  have "extension (rv_base_file_path demo_recovery) = []" "parent_path (rv_file_path demo_recovery) \<noteq> []"
    by (simp_all add: demo_recovery_def extension_def path_filename_def ext_pos_def rfind_def parent_path_def)
  from log_name_roundtrip [OF this, of 1700 8 "-1" 7] show ?thesis by simp
qed

text \<open>One record that cannot be parsed hides the whole file. Every message read before it is
  dropped, and nothing is replayed, although they were stored and readable.\<close>

theorem corrupt_record_discards_log:
  assumes "\<forall>x \<in> set xs. readable K x" "rk_parse_info K (rk_ser_info K info) = Some info" "length (header_record K info) < 2 ^ 31"
    and "ParseData K b = Some []" "length b < 2 ^ 31"
    and "sm_get [] path (rv_files s) = header_record K info @ concat (map (log_record K) xs) @ frame b @ rest"
  shows "\<exists>s'. ReadLogsFromFiles K path ckpt 0 s = Some ([LogSystem info], s')"
proof -
  have "recovery_Read (rd64 (take 8 (frame b @ rest))) (drop 8 (frame b @ rest)) = Some (b, rest)"
    using assms(5) by (simp add: recovery_Read_def frame_def)
  then have "read_records K (frame b @ rest) acc = Some []" for acc using assms(4) by (subst read_records.simps) simp
  then have "read_records K (concat (map (log_record K) xs) @ frame b @ rest) [] = Some []" using read_all_records [OF assms(1)] by simp
  then show ?thesis using read_header_record [OF assms(2,3)] by (simp add: ReadLogsFromFiles_def Let_def assms(6) replay_def)
qed

theorem corrupt_record_discards_log_witness:
  "\<exists>s'. ReadLogsFromFiles (demo_rec_codec\<lparr>rk_parse_request := (\<lambda>d. if d = ''r'' then Some demo_logged else None)\<rparr>) ''w/log'' 0 0
      (demo_recovery\<lparr>rv_files := [(''w/log'', header_record demo_rec_codec (1, 1) @ log_record demo_rec_codec (None, demo_logged)
         @ frame (frame ''x'' @ frame []) @ [])]\<rparr>)
    = Some ([LogSystem (1, 1)], s')"
proof -
  let ?K = "demo_rec_codec\<lparr>rk_parse_request := (\<lambda>d. if d = ''r'' then Some demo_logged else None)\<rparr>"
  have r: "\<forall>x \<in> set [(None, demo_logged)]. readable ?K x" "rk_parse_info ?K (rk_ser_info ?K (1, 1)) = Some (1, 1)"
    "length (header_record ?K (1, 1)) < 2 ^ 31"
    by (simp_all add: readable_def demo_rec_codec_def sig_bytes_def logged_sig_def log_record_def header_record_def)
  have p: "ParseData ?K (frame ''x'' @ frame []) = Some []"
    using ParseRawData_frames [of "[''x'', []]"] by (simp add: ParseData_def ParseRawData_def demo_rec_codec_def)
  have l: "length (frame ''x'' @ frame []) < 2 ^ 31" by simp
  have f: "sm_get [] ''w/log'' (rv_files (demo_recovery\<lparr>rv_files := [(''w/log'', header_record demo_rec_codec (1, 1)
      @ log_record demo_rec_codec (None, demo_logged) @ frame (frame ''x'' @ frame []) @ [])]\<rparr>))
    = header_record ?K (1, 1) @ concat (map (log_record ?K) [(None, demo_logged)]) @ frame (frame ''x'' @ frame []) @ []"
    by (simp add: sm_get_def header_record_def log_record_def sig_bytes_def demo_rec_codec_def)
  show ?thesis by (rule corrupt_record_discards_log [OF r p l f])
qed

end
