(* ===== verification/Query.thy ===== *)
theory Query
  imports Commitment
begin

text \<open>
  \<open>Query\<close> (platform/consensus/ordering/pbft/query.cpp): reading the committed requests, the
  configuration, and queries of the application.

  The codec, the answer of the primary to a redirected query and the application's query function are
  arguments. A loop that does not end, or a lambda that ends without a return, is \<open>None\<close>.
\<close>

record query_response =
  qr_max_seq :: uint64
  qr_transactions :: "request list"

record query_codec =
  qc_parse_query :: "string \<Rightarrow> (uint64 \<times> uint64) option"
  qc_ser_response :: "query_response \<Rightarrow> string"
  qc_ser_state :: "config_data \<Rightarrow> string"
  qc_ser_custom :: "string option \<Rightarrow> string"

text \<open>An answer on the client's channel, when there is one.\<close>

definition answer_client :: "net_context option \<Rightarrow> string \<Rightarrow> out_msg list" where
  "answer_client cx data =
     (case cx of None \<Rightarrow> [] | Some c \<Rightarrow> (case cx_client c of None \<Rightarrow> [] | Some ch \<Rightarrow> [SendClient ch data]))"

definition GetReplicaState :: "'s message_manager \<Rightarrow> config_data" where
  "GetReplicaState m = cf_config_data (mm_config m)"

definition ProcessGetReplicaState :: "query_codec \<Rightarrow> net_context option \<Rightarrow> 's message_manager \<Rightarrow> int \<times> out_msg list" where
  "ProcessGetReplicaState Q cx m = (0, answer_client cx (qc_ser_state Q (GetReplicaState m)))"

definition copy_txn :: "request \<Rightarrow> request" where
  "copy_txn r = empty_request\<lparr>rq_data := rq_data r, rq_hash := rq_hash r, rq_seq := rq_seq r, rq_proxy_id := rq_proxy_id r\<rparr>"

partial_function (option) query_loop :: "(uint64 \<Rightarrow> request option) \<Rightarrow> uint64 \<Rightarrow> uint64 \<Rightarrow> request list option" where
  "query_loop get i max_seq =
     (if i \<le> max_seq
      then case get i of
             None \<Rightarrow> Some []
           | Some r \<Rightarrow> Option.bind (query_loop get (i + 1) max_seq) (\<lambda>rs. Some (copy_txn r # rs))
      else Some [])"

fun find_primary :: "region_info list \<Rightarrow> replica_info option" where
  "find_primary [] = None"
| "find_primary (g # gs) =
     (case List.find (\<lambda>r. rep_id r = 1) (rg_replica_info g) of Some r \<Rightarrow> Some r | None \<Rightarrow> find_primary gs)"

text \<open>\<open>ask\<close> is what a channel to an address answers to a request, if it answers.\<close>

definition ProcessQuery ::
  "query_codec \<Rightarrow> (string \<times> int \<Rightarrow> request \<Rightarrow> string option) \<Rightarrow> net_context option \<Rightarrow> request \<Rightarrow> 's message_manager
     \<Rightarrow> (int \<times> out_msg list) option" where
  "ProcessQuery Q ask cx r m =
     (if cf_node_kind (mm_config m) = CLIENT
      then map_option (\<lambda>p. (0, case ask (rep_ip p, rep_port p) r of None \<Rightarrow> [] | Some resp \<Rightarrow> answer_client cx resp))
             (find_primary (cd_region (cf_config_data (mm_config m))))
      else case qc_parse_query Q (rq_data r) of
             None \<Rightarrow> Some (-2, [])
           | Some (min_seq, max_seq) \<Rightarrow>
               map_option (\<lambda>resp. (0, answer_client cx (qc_ser_response Q resp)))
                 (if max_seq = 0 \<and> min_seq = 0
                  then Some \<lparr>qr_max_seq = word_of_int (GetNextSeq m) - 1, qr_transactions = []\<rparr>
                  else map_option (\<lambda>ts. \<lparr>qr_max_seq = 0, qr_transactions = ts\<rparr>)
                         (query_loop (\<lambda>i. GetRequest i m) min_seq max_seq)))"

definition ProcessCustomQuery ::
  "query_codec \<Rightarrow> (string \<Rightarrow> string option) option \<Rightarrow> net_context option \<Rightarrow> request \<Rightarrow> int \<times> out_msg list" where
  "ProcessCustomQuery Q custom cx r =
     (case custom of
        None \<Rightarrow> (-1, [])
      | Some f \<Rightarrow> (0, answer_client cx (qc_ser_custom Q (f (rq_data r)))))"

section \<open>The loop\<close>

lemma query_loop_stop:
  "max_seq < i \<or> get i = None \<Longrightarrow> query_loop get i max_seq = Some []"
  by (subst query_loop.simps) (auto simp: not_le)

lemma query_loop_run:
  assumes "\<forall>j < n. get (i + of_nat j) \<noteq> None \<and> i + of_nat j \<le> max_seq"
    and "max_seq < i + of_nat n \<or> get (i + of_nat n) = None"
  shows "query_loop get i max_seq = Some (map (\<lambda>j. copy_txn (the (get (i + of_nat j)))) [0 ..< n])"
  using assms
proof (induction n arbitrary: i)
  case 0
  then show ?case by (simp add: query_loop_stop)
next
  case (Suc n)
  have "\<forall>j < n. get (i + 1 + of_nat j) \<noteq> None \<and> i + 1 + of_nat j \<le> max_seq"
  proof (intro allI impI)
    fix j assume "j < n"
    then show "get (i + 1 + of_nat j) \<noteq> None \<and> i + 1 + of_nat j \<le> max_seq"
      using Suc.prems(1) [rule_format, of "Suc j"] by (simp add: add.assoc)
  qed
  moreover have "max_seq < i + 1 + of_nat n \<or> get (i + 1 + of_nat n) = None" using Suc.prems(2) by (simp add: add.assoc)
  ultimately have IH: "query_loop get (i + 1) max_seq = Some (map (\<lambda>j. copy_txn (the (get (i + 1 + of_nat j)))) [0 ..< n])"
    by (rule Suc.IH)
  obtain r where first: "i \<le> max_seq" "get i = Some r" using Suc.prems(1) [rule_format, of 0] by auto
  have "map (\<lambda>j. copy_txn (the (get (i + of_nat j)))) [0 ..< Suc n]
      = copy_txn (the (get i)) # map (\<lambda>j. copy_txn (the (get (i + 1 + of_nat j)))) [0 ..< n]"
    by (simp add: upt_conv_Cons map_Suc_upt [symmetric] add.assoc del: upt_Suc)
  then show ?case using IH first by (subst query_loop.simps) (simp del: upt_Suc)
qed

lemma query_loop_stops:
  fixes lo hi :: uint64
  assumes "hi \<noteq> - 1 \<or> (\<exists>j. get (lo + of_nat j) = None)"
  shows "\<exists>n. (\<forall>j < n. get (lo + of_nat j) \<noteq> None \<and> lo + of_nat j \<le> hi) \<and> (hi < lo + of_nat n \<or> get (lo + of_nat n) = None)"
proof -
  let ?P = "\<lambda>n. hi < lo + of_nat n \<or> get (lo + of_nat n) = None"
  have "\<exists>n. ?P n"
  proof (cases "hi = - 1")
    case False
    then have "hi < - 1" by (metis word_order.not_eq_extremum)
    then have "unat hi < 2 ^ 64 - 1" by (simp add: word_less_nat_alt unsigned_minus_1_eq_mask mask_eq_exp_minus_1)
    then have "hi < hi + 1" by (simp add: word_less_nat_alt unat_plus_one)
    moreover have "lo + of_nat (unat (hi + 1 - lo)) = hi + 1" by simp
    ultimately show ?thesis by metis
  qed (use assms in auto)
  then have "?P (LEAST n. ?P n)" by (rule LeastI_ex)
  moreover have "\<forall>j < (LEAST n. ?P n). \<not> ?P j" using not_less_Least by blast
  ultimately show ?thesis by (intro exI [of _ "LEAST n. ?P n"]) (auto simp: not_less)
qed

section \<open>Properties\<close>

text \<open>C36: a query for a range of sequence numbers returns, unless its upper bound is the greatest number
  and every number is in use. The answer has the stored requests from the lower bound on, in order
  and without a gap, up to the upper bound or the first number that is not stored.\<close>

theorem query_returns_stored_run:
  assumes "cf_node_kind (mm_config m) \<noteq> CLIENT" "qc_parse_query Q (rq_data r) = Some (lo, hi)" "lo \<noteq> 0 \<or> hi \<noteq> 0"
    and "hi \<noteq> - 1 \<or> (\<exists>j. GetRequest (lo + of_nat j) m = None)"
  shows "\<exists>n. ProcessQuery Q ask cx r m
      = Some (0, answer_client cx (qc_ser_response Q \<lparr>qr_max_seq = 0,
          qr_transactions = map (\<lambda>j. copy_txn (the (GetRequest (lo + of_nat j) m))) [0 ..< n]\<rparr>))
    \<and> (\<forall>j < n. GetRequest (lo + of_nat j) m \<noteq> None \<and> lo + of_nat j \<le> hi)
    \<and> (hi < lo + of_nat n \<or> GetRequest (lo + of_nat n) m = None)"
proof -
  obtain n where n: "\<forall>j < n. GetRequest (lo + of_nat j) m \<noteq> None \<and> lo + of_nat j \<le> hi"
    "hi < lo + of_nat n \<or> GetRequest (lo + of_nat n) m = None"
    using query_loop_stops [of hi "\<lambda>i. GetRequest i m" lo, OF assms(4)] by (elim exE conjE)
  have "ProcessQuery Q ask cx r m = Some (0, answer_client cx (qc_ser_response Q \<lparr>qr_max_seq = 0,
          qr_transactions = map (\<lambda>j. copy_txn (the (GetRequest (lo + of_nat j) m))) [0 ..< n]\<rparr>))"
    using assms(1-3) query_loop_run [OF n] by (auto simp: ProcessQuery_def)
  then show ?thesis using n by (intro exI conjI)
qed

definition demo_query :: query_codec where
  "demo_query = \<lparr>qc_parse_query = (\<lambda>_. Some (1, 5)), qc_ser_response = (\<lambda>q. replicate (length (qr_transactions q)) (CHR ''t'')),
     qc_ser_state = (\<lambda>_. []), qc_ser_custom = (\<lambda>_. [])\<rparr>"

theorem query_returns_stored_run_witness:
  "\<exists>n. ProcessQuery demo_query (\<lambda>_ _. None) (Some \<lparr>cx_signature = empty_signature, cx_client = Some 5\<rparr>) empty_request
       (demo_manager_of [] (new_executor None ()) []) = Some (0, [SendClient 5 (replicate n (CHR ''t''))])
     \<and> (5 < 1 + (of_nat n :: uint64) \<or> GetRequest (1 + of_nat n) (demo_manager_of [] (new_executor None ()) []) = None)"
proof -
  let ?m = "demo_manager_of [] (new_executor None ()) []"
  have "cf_node_kind (mm_config ?m) \<noteq> CLIENT" "qc_parse_query demo_query (rq_data empty_request) = Some (1, 5)"
    "(1 :: uint64) \<noteq> 0 \<or> (5 :: uint64) \<noteq> 0" "(5 :: uint64) \<noteq> - 1 \<or> (\<exists>j. GetRequest (1 + of_nat j) ?m = None)"
    by (simp_all add: demo_manager_of_def demo_config_def demo_query_def)
  from query_returns_stored_run [OF this, of "\<lambda>_ _. None" "Some \<lparr>cx_signature = empty_signature, cx_client = Some 5\<rparr>"]
  show ?thesis by (auto simp: answer_client_def demo_query_def)
qed

end
