(* ===== verification/Consensus_PBFT.thy ===== *)
theory Consensus_PBFT
  imports Performance_Manager Recovery Query
begin

text \<open>
  \<open>ConsensusManagerPBFT\<close> (platform/consensus/ordering/pbft/consensus_manager_pbft.cpp): the object
  that owns the components of a PBFT replica and hands every message to the one it is for. It holds
  messages of the normal case back during a view change, and keeps the requests a backup has
  forwarded until the replica becomes primary itself.

  The components share one \<open>SystemInfo\<close>: the model keeps it in the message manager and lends it to the
  performance manager for a call. \<open>pbft_env\<close> has the codecs and the outside world of one handler
  call; \<open>ConsensusCommit\<close> takes one for each of the calls it makes. \<open>None\<close> is undefined behaviour or a
  loop that does not end.

  A call of \<open>ConsensusCommit\<close> is one step of the model. The code protects each single operation on a
  queue with a mutex, but holds none over the call: with several worker threads, calls can overlap, and
  then the test of the view change, the loops over the queues and the dispatched message interleave. The
  model has the executions in which they do not.
\<close>

section \<open>State\<close>

record 's pbft =
  pb_config :: resdb_config
  pb_ct :: "'s commitment"
  pb_vc :: viewchange_manager
  pb_rm :: "response_manager option"
  pb_pm :: "performance_manager option"
  pb_recovery :: recovery
  pb_pending :: "(net_context \<times> request) list"
  pb_complained :: "(net_context \<times> request) list"

record pbft_env =
  pe_env :: env
  pe_vc :: vc_codec
  pe_rec :: rec_codec
  pe_query :: query_codec
  pe_batch :: batch_codec
  pe_parse_ckpt :: "string \<Rightarrow> checkpoint_data option"
  pe_ask :: "string \<times> int \<Rightarrow> request \<Rightarrow> string option"
  pe_custom :: "(string \<Rightarrow> string option) option"
  pe_data :: "nat \<Rightarrow> string"

type_synonym 's pbft_result = "(int \<times> 's pbft \<times> out_msg list) option"

definition pb_mm :: "'s pbft \<Rightarrow> 's message_manager" where
  "pb_mm s = ct_mm (pb_ct s)"

definition set_mm :: "'s message_manager \<Rightarrow> 's pbft \<Rightarrow> 's pbft" where
  "set_mm m s = s\<lparr>pb_ct := (pb_ct s)\<lparr>ct_mm := m\<rparr>\<rparr>"

definition pbft_GetPrimary :: "'s pbft \<Rightarrow> uint32" where
  "pbft_GetPrimary s = GetPrimaryId (mm_system_info (pb_mm s))"

text \<open>The view is returned as a \<open>uint32_t\<close>.\<close>

definition pbft_GetVersion :: "'s pbft \<Rightarrow> uint32" where
  "pbft_GetVersion s = ucast (GetCurrentView (mm_system_info (pb_mm s)))"

definition pbft_SetPrimary :: "uint32 \<Rightarrow> uint64 \<Rightarrow> 's pbft \<Rightarrow> 's pbft" where
  "pbft_SetPrimary primary version s =
     (let si = mm_system_info (pb_mm s)
      in if GetCurrentView si < version
         then set_mm ((pb_mm s)\<lparr>mm_system_info := SetPrimary primary (SetCurrentView version si)\<rparr>) s
         else s)"

definition pbft_SetNeedCommitQC :: "bool \<Rightarrow> 's pbft \<Rightarrow> 's pbft" where
  "pbft_SetNeedCommitQC b s = s\<lparr>pb_ct := SetNeedCommitQC b (pb_ct s)\<rparr>"

section \<open>The queues\<close>

definition AddPendingRequest :: "net_context \<Rightarrow> request \<Rightarrow> 's pbft \<Rightarrow> 's pbft" where
  "AddPendingRequest cx r s = s\<lparr>pb_pending := pb_pending s @ [(cx, r)]\<rparr>"

definition AddComplainedRequest :: "net_context \<Rightarrow> request \<Rightarrow> 's pbft \<Rightarrow> 's pbft" where
  "AddComplainedRequest cx r s = s\<lparr>pb_complained := pb_complained s @ [(cx, r)]\<rparr>"

definition PopPendingRequest :: "'s pbft \<Rightarrow> ((net_context \<times> request) \<times> 's pbft) option" where
  "PopPendingRequest s =
     (case pb_pending s of [] \<Rightarrow> None | x # xs \<Rightarrow> Some (x, s\<lparr>pb_pending := xs\<rparr>))"

definition PopComplainedRequest :: "'s pbft \<Rightarrow> ((net_context \<times> request) \<times> 's pbft) option" where
  "PopComplainedRequest s =
     (case pb_complained s of [] \<Rightarrow> None | x # xs \<Rightarrow> Some (x, s\<lparr>pb_complained := xs\<rparr>))"

section \<open>Dispatch\<close>

text \<open>The results of the components, with their state stored back.\<close>

definition on_commitment :: "'s pbft \<Rightarrow> 's handler_result \<Rightarrow> 's pbft_result" where
  "on_commitment s = map_option (\<lambda>(ret, c, out). (ret, s\<lparr>pb_ct := c\<rparr>, out))"

definition on_view_change :: "'s pbft \<Rightarrow> (int \<times> 's vc_state \<times> out_msg list) option \<Rightarrow> 's pbft_result" where
  "on_view_change s = map_option (\<lambda>(ret, (v, m), out). (ret, set_mm m (s\<lparr>pb_vc := v\<rparr>), out))"

definition on_performance ::
  "(performance_manager \<Rightarrow> (int \<times> performance_manager) option) \<Rightarrow> 's pbft \<Rightarrow> 's pbft_result" where
  "on_performance f s =
     (case pb_pm s of
        None \<Rightarrow> None
      | Some p \<Rightarrow>
          map_option (\<lambda>(ret, p1). (ret, set_mm ((pb_mm s)\<lparr>mm_system_info := pm_system_info p1\<rparr>) (s\<lparr>pb_pm := Some p1\<rparr>), []))
            (f (p\<lparr>pm_system_info := mm_system_info (pb_mm s)\<rparr>)))"

definition on_response ::
  "(response_manager \<Rightarrow> (int \<times> response_manager \<times> out_msg list) option) \<Rightarrow> 's pbft \<Rightarrow> 's pbft_result" where
  "on_response f s =
     (case pb_rm s of
        None \<Rightarrow> None
      | Some p \<Rightarrow>
          map_option (\<lambda>(ret, p1, out). (ret, s\<lparr>pb_rm := Some p1\<rparr>, out))
            (f (p\<lparr>rm_system_info := mm_system_info (pb_mm s)\<rparr>)))"

text \<open>A new request. A backup has put it in the queue of the commitment; it moves to the replica's own
  queue, and its complaint timer starts.\<close>

definition new_txns :: "pbft_env \<Rightarrow> net_context \<Rightarrow> request \<Rightarrow> 's pbft \<Rightarrow> 's pbft_result" where
  "new_txns P cx r s =
     (case ProcessNewRequest (pe_env P) (Some cx) r (pb_ct s) of
        None \<Rightarrow> None
      | Some (ret, c, out) \<Rightarrow>
          if ret \<noteq> -3 then Some (ret, s\<lparr>pb_ct := c\<rparr>, out)
          else case ct_request_complained c of
                 [] \<Rightarrow> None
               | (cx1, r1) # rest \<Rightarrow>
                   let s1 = AddComplainedRequest cx1 r1 (s\<lparr>pb_ct := c\<lparr>ct_request_complained := rest\<rparr>\<rparr>);
                       (v, m) = AddComplaintTimer (pe_env P) (word_of_int (rq_proxy_id r)) (rq_hash r) (pb_vc s1, pb_mm s1)
                   in Some (ret, set_mm m (s1\<lparr>pb_vc := v\<rparr>), out))"

definition InternalConsensusCommit :: "pbft_env \<Rightarrow> net_context \<Rightarrow> request \<Rightarrow> 's pbft \<Rightarrow> 's pbft_result" where
  "InternalConsensusCommit P cx r s =
     (case rq_type r of
        TYPE_CLIENT_REQUEST \<Rightarrow>
          if IsPerformanceRunning (pb_config s) then on_performance (\<lambda>p. Some (StartEval (pe_data P) p)) s
          else on_response (\<lambda>p. Some (fst (NewUserRequest cx r p), snd (NewUserRequest cx r p), [])) s
      | TYPE_RESPONSE \<Rightarrow>
          if IsPerformanceRunning (pb_config s)
          then on_performance (pm_ProcessResponseMsg (pe_env P) (pe_batch P) cx r) s
          else on_response (ProcessResponseMsg (pe_env P) (pe_batch P) cx r) s
      | TYPE_NEW_TXNS \<Rightarrow> new_txns P cx r s
      | TYPE_PRE_PREPARE \<Rightarrow> on_commitment s (ProcessProposeMsg (pe_env P) (Some cx) r (pb_ct s))
      | TYPE_PREPARE \<Rightarrow> on_commitment s (ProcessPrepareMsg (pe_env P) (Some cx) r (pb_ct s))
      | TYPE_COMMIT \<Rightarrow> on_commitment s (ProcessCommitMsg (pe_env P) (Some cx) r (pb_ct s))
      | TYPE_CHECKPOINT \<Rightarrow>
          map_option (\<lambda>(ret, ck). (ret, set_mm ((pb_mm s)\<lparr>mm_checkpoint := ck\<rparr>) s, []))
            (ProcessCheckPoint (en_crypto (pe_env P)) (pe_parse_ckpt P) r (mm_checkpoint (pb_mm s)))
      | TYPE_VIEWCHANGE \<Rightarrow> on_view_change s (ProcessViewChange (pe_env P) (pe_vc P) r (pb_vc s, pb_mm s))
      | TYPE_NEWVIEW \<Rightarrow> on_view_change s (ProcessNewView (en_crypto (pe_env P)) (pe_vc P) r (pb_vc s, pb_mm s))
      | TYPE_QUERY \<Rightarrow>
          map_option (\<lambda>(ret, out). (ret, s, out)) (ProcessQuery (pe_query P) (pe_ask P) (Some cx) r (pb_mm s))
      | TYPE_REPLICA_STATE \<Rightarrow>
          (let (ret, out) = ProcessGetReplicaState (pe_query P) (Some cx) (pb_mm s) in Some (ret, s, out))
      | TYPE_CUSTOM_QUERY \<Rightarrow>
          (let (ret, out) = ProcessCustomQuery (pe_query P) (pe_custom P) (Some cx) r in Some (ret, s, out))
      | _ \<Rightarrow> Some (0, s, []))"

text \<open>The two loops that empty a queue: the calls use \<open>Ps n\<close>, \<open>Ps (n + 1)\<close> and so on, and the number of
  the next one is returned.\<close>

partial_function (option) drain_pending ::
  "(nat \<Rightarrow> pbft_env) \<Rightarrow> nat \<Rightarrow> 's pbft \<Rightarrow> (nat \<times> 's pbft \<times> out_msg list) option" where
  "drain_pending Ps n s =
     (case PopPendingRequest s of
        None \<Rightarrow> Some (n, s, [])
      | Some ((cx, r), s1) \<Rightarrow>
          Option.bind (InternalConsensusCommit (Ps n) cx r s1) (\<lambda>(ret, s2, out).
            Option.bind (drain_pending Ps (Suc n) s2) (\<lambda>(k, s3, out'). Some (k, s3, out @ out'))))"

partial_function (option) drain_complained ::
  "(nat \<Rightarrow> pbft_env) \<Rightarrow> nat \<Rightarrow> 's pbft \<Rightarrow> ('s pbft \<times> out_msg list) option" where
  "drain_complained Ps n s =
     (case PopComplainedRequest s of
        None \<Rightarrow> Some (s, [])
      | Some ((cx, r), s1) \<Rightarrow>
          Option.bind (InternalConsensusCommit (Ps n) cx r s1) (\<lambda>(ret, s2, out).
            Option.bind (drain_complained Ps (Suc n) s2) (\<lambda>(s3, out'). Some (s3, out @ out'))))"

definition held_types :: "request_type set" where
  "held_types = {TYPE_NEW_TXNS, TYPE_PRE_PREPARE, TYPE_PREPARE, TYPE_COMMIT}"

text \<open>The part of \<open>ConsensusCommit\<close> after the view change test.\<close>

definition commit_and_drain ::
  "(nat \<Rightarrow> pbft_env) \<Rightarrow> nat \<Rightarrow> net_context \<Rightarrow> request \<Rightarrow> 's pbft \<Rightarrow> 's pbft_result" where
  "commit_and_drain Ps n cx r s =
     Option.bind (InternalConsensusCommit (Ps n) cx r s) (\<lambda>(ret, s1, out).
       if cd_enable_viewchange (cf_config_data (pb_config s)) \<and> ret = -4
       then map_option (\<lambda>(s2, out'). (ret, s2, out @ out')) (drain_complained Ps (Suc n) s1)
       else Some (ret, s1, out))"

definition ConsensusCommit :: "(nat \<Rightarrow> pbft_env) \<Rightarrow> net_context \<Rightarrow> request \<Rightarrow> 's pbft \<Rightarrow> 's pbft_result" where
  "ConsensusCommit Ps cx r s =
     (let s1 = s\<lparr>pb_recovery := recovery_AddRequest (pe_rec (Ps 0)) (Some cx) r (pb_recovery s)\<rparr>
      in if cd_enable_viewchange (cf_config_data (pb_config s1))
         then let s2 = s1\<lparr>pb_vc := MayStart (cf_node_kind (mm_config (pb_mm s1))) (pb_vc s1)\<rparr>
              in if IsInViewChange (pb_vc s2)
                 then if rq_type r \<in> held_types then Some (0, AddPendingRequest cx r s2, [])
                      else commit_and_drain Ps 0 cx r s2
                 else Option.bind (drain_pending Ps 0 s2) (\<lambda>(n, s3, out).
                        map_option (\<lambda>(ret, s4, out'). (ret, s4, out @ out')) (commit_and_drain Ps n cx r s3))
         else commit_and_drain Ps 0 cx r s1)"

section \<open>Start\<close>

text \<open>The requests of the log go to the dispatcher, without being logged again; what it returns is
  not used.\<close>

fun replay_log :: "(nat \<Rightarrow> pbft_env) \<Rightarrow> nat \<Rightarrow> log_event list \<Rightarrow> 's pbft \<Rightarrow> ('s pbft \<times> out_msg list) option" where
  "replay_log Ps n [] s = Some (s, [])"
| "replay_log Ps n (LogSystem (view, primary) # es) s =
     replay_log Ps n es (set_mm ((pb_mm s)\<lparr>mm_system_info :=
       SetPrimary (word_of_int primary) (SetCurrentView (word_of_int view) (mm_system_info (pb_mm s)))\<rparr>) s)"
| "replay_log Ps n (LogRequest sig r # es) s =
     Option.bind (InternalConsensusCommit (Ps n) \<lparr>cx_signature = sig, cx_client = None\<rparr> r s) (\<lambda>(_, s1, out).
       map_option (\<lambda>(s2, out'). (s2, out @ out')) (replay_log Ps (Suc n) es s1))"

text \<open>\<open>garbage\<close> are the values found in memory that the constructors leave uninitialised; the arguments
  after \<open>verifier\<close> are those of the recovery: the clock, the path and buffer size of the configuration
  and the files of the disk.\<close>

definition new_pbft ::
  "(nat \<Rightarrow> pbft_env) \<Rightarrow> (string list \<Rightarrow> string list) \<Rightarrow> nat \<times> uint64 \<times> uint64 \<Rightarrow> resdb_config
     \<Rightarrow> 's txn_manager option \<Rightarrow> 's \<Rightarrow> signature_verifier option \<Rightarrow> int \<Rightarrow> string \<Rightarrow> nat \<Rightarrow> (string, string) std_map
     \<Rightarrow> ('s pbft \<times> out_msg list) option" where
  "new_pbft Ps order garbage cfg tm db verifier now path buffer_size files =
     Option.bind (new_system_info cfg) (\<lambda>si.
     Option.bind (new_message_manager cfg tm db (new_checkpoint_manager cfg verifier) si) (\<lambda>m.
     Option.bind (if IsPerformanceRunning cfg then Some None
                  else map_option Some (new_response_manager cfg si verifier (fst garbage))) (\<lambda>rm.
     Option.bind (if IsPerformanceRunning cfg
                  then map_option Some (new_performance_manager cfg si verifier (fst garbage) (fst (snd garbage)) (snd (snd garbage)))
                  else Some None) (\<lambda>pm.
     Option.bind (new_recovery (pe_rec (Ps 0)) order now cfg path buffer_size si files) (\<lambda>rv.
     Option.bind (ReadLogs (pe_rec (Ps 0)) order rv) (\<lambda>(es, rv1).
       replay_log Ps 0 es
         \<lparr>pb_config = cfg, pb_ct = new_commitment m verifier, pb_vc = new_viewchange_manager verifier,
          pb_rm = rm, pb_pm = pm, pb_recovery = rv1, pb_pending = [], pb_complained = []\<rparr>))))))"

section \<open>Well-formedness\<close>

text \<open>The pointers the dispatcher follows are there, the components agree on the configuration, and the
  queues have requests of their kind only.\<close>

definition pbft_wf :: "'s pbft \<Rightarrow> bool" where
  "pbft_wf s \<longleftrightarrow>
     mm_config (pb_mm s) = pb_config s \<and> duplicates (pb_ct s) \<noteq> None \<and> ct_request_complained (pb_ct s) = []
   \<and> (if IsPerformanceRunning (pb_config s) then pb_pm s \<noteq> None else pb_rm s \<noteq> None)
   \<and> (\<forall>x \<in> set (pb_complained s). rq_type (snd x) = TYPE_NEW_TXNS)
   \<and> (\<forall>x \<in> set (pb_pending s). rq_type (snd x) \<in> held_types)"

text \<open>What every handler keeps of the message manager and of the commitment.\<close>

definition mm_keeps :: "'s message_manager \<Rightarrow> 's message_manager \<Rightarrow> bool" where
  "mm_keeps m m' \<longleftrightarrow> mm_config m' = mm_config m
     \<and> (te_duplicate_manager (mm_executor m') = None \<longleftrightarrow> te_duplicate_manager (mm_executor m) = None)"

definition ct_keeps :: "'s commitment \<Rightarrow> 's commitment \<Rightarrow> bool" where
  "ct_keeps c c' \<longleftrightarrow> mm_keeps (ct_mm c) (ct_mm c') \<and> ct_verifier c' = ct_verifier c"

lemma mm_keeps_refl [simp]: "mm_keeps m m"
  by (simp add: mm_keeps_def)

lemma mm_keeps_trans: "mm_keeps a b \<Longrightarrow> mm_keeps b c \<Longrightarrow> mm_keeps a c"
  by (simp add: mm_keeps_def)

lemma fold_commit_duplicates [simp]:
  "te_duplicate_manager (fold executor_Commit xs e) = te_duplicate_manager e"
  by (induction xs arbitrary: e) (simp_all add: executor_Commit_def)

lemma AddConsensusMsg_keeps:
  "AddConsensusMsg pos now sig ro m = Some (code, m') \<Longrightarrow> mm_keeps m m'"
  by (erule AddConsensusMsg_cases) (simp_all add: mm_keeps_def)

lemma add_msg_keeps:
  assumes "add_msg E sig r s = Some (code, s')"
  shows "ct_keeps s s' \<and> ct_request_complained s' = ct_request_complained s"
  using assms AddConsensusMsg_keeps by (auto simp: add_msg_def ct_keeps_def)

lemma check_proposal_keeps:
  assumes "check_proposal E r s = Some (b, s')"
  shows "ct_keeps s s' \<and> ct_request_complained s' = ct_request_complained s"
  using assms
  by (auto simp: check_proposal_def ct_keeps_def mm_keeps_def set_duplicates_def mm_SetDuplicateManager_def
      SetDuplicateManager_def duplicates_def split: handler_splits)

lemma ct_keeps_trans: "ct_keeps a b \<Longrightarrow> ct_keeps b c \<Longrightarrow> ct_keeps a c"
  using mm_keeps_trans by (auto simp: ct_keeps_def)

lemma ct_keeps_mm: "ct_keeps a b \<Longrightarrow> mm_keeps (ct_mm b) m \<Longrightarrow> ct_keeps a (b\<lparr>ct_mm := m\<rparr>)"
  using mm_keeps_trans by (auto simp: ct_keeps_def)

lemma mm_keeps_frame [simp]:
  "mm_keeps m (SetNextSeq k m)" "mm_keeps m (mm_SetHighestPreparedSeq k m)" "mm_keeps m (SendResponse now r m)"
  "mm_keeps m (erase_proposed_all hs m)" "mm_keeps m (m\<lparr>mm_checkpoint := ck\<rparr>)" "mm_keeps m (m\<lparr>mm_system_info := si\<rparr>)"
  by (simp_all add: mm_keeps_def SetNextSeq_def mm_SetHighestPreparedSeq_def SendResponse_def Let_def erase_proposed_all_def)

lemma recovery_msg_keeps:
  assumes "recovery_msg E sig r s = Some (ret, s', out)"
  shows "ct_keeps s s' \<and> ct_request_complained s' = ct_request_complained s \<and> ret \<noteq> -4"
proof -
  obtain code where add: "add_msg E sig r s = Some (code, s')" and ret: "ret = rc_val code"
    using assms by (auto simp: recovery_msg_def)
  show ?thesis using add_msg_keeps [OF add] ret by (cases code) auto
qed

lemma ret_of_neq [simp]: "ret_of code \<noteq> -4" "ret_of code \<noteq> -3"
  by (simp_all add: ret_of_def)

lemma ProcessProposeMsg_keeps:
  assumes "ProcessProposeMsg E cx r s = Some (ret, s', out)"
  shows "ct_keeps s s' \<and> ct_request_complained s' = ct_request_complained s \<and> ret \<noteq> -4"
proof -
  have refl: "ct_keeps s s" by (simp add: ct_keeps_def)
  consider "s' = s" "ret \<noteq> -4" | sig where "recovery_msg E sig r (s\<lparr>ct_mm := SetNextSeq (rq_seq r + 1) (ct_mm s)\<rparr>) = Some (ret, s', out)"
    | "check_proposal E r s = Some (False, s')" "ret \<noteq> -4"
    | sig s1 code where "check_proposal E r s = Some (True, s1)" "add_msg E sig r s1 = Some (code, s')" "ret = ret_of code"
    using assms unfolding ProcessProposeMsg_def Let_def by (auto split: handler_splits)
  then show ?thesis
  proof cases
    case 1
    then show ?thesis using refl by simp
  next
    case 2
    have "ct_keeps s (s\<lparr>ct_mm := SetNextSeq (rq_seq r + 1) (ct_mm s)\<rparr>)" by (rule ct_keeps_mm [OF refl]) simp
    then show ?thesis using recovery_msg_keeps [OF 2] ct_keeps_trans by fastforce
  next
    case 3
    then show ?thesis using check_proposal_keeps [OF 3(1)] by simp
  next
    case 4
    then show ?thesis using check_proposal_keeps [OF 4(1)] add_msg_keeps [OF 4(2)] ct_keeps_trans by auto
  qed
qed

lemma ProcessPrepareMsg_keeps:
  assumes "ProcessPrepareMsg E cx r s = Some (ret, s', out)"
  shows "ct_keeps s s' \<and> ct_request_complained s' = ct_request_complained s \<and> ret \<noteq> -4"
proof -
  have refl: "ct_keeps s s" by (simp add: ct_keeps_def)
  consider "s' = s" "ret \<noteq> -4" | sig where "recovery_msg E sig r s = Some (ret, s', out)"
    | sig code s1 where "add_msg E sig r s = Some (code, s1)" "ret \<noteq> -4"
        "s' = s1 \<or> s' = s1\<lparr>ct_mm := mm_SetHighestPreparedSeq (rq_seq r) (ct_mm s1)\<rparr>"
    using assms unfolding ProcessPrepareMsg_def Let_def by (auto split: handler_splits)
  then show ?thesis
  proof cases
    case 1
    then show ?thesis using refl by simp
  next
    case 2
    then show ?thesis by (rule recovery_msg_keeps)
  next
    case 3
    then show ?thesis using add_msg_keeps [OF 3(1)] ct_keeps_mm [of s s1 "mm_SetHighestPreparedSeq (rq_seq r) (ct_mm s1)"] by auto
  qed
qed

lemma ProcessCommitMsg_keeps:
  assumes "ProcessCommitMsg E cx r s = Some (ret, s', out)"
  shows "ct_keeps s s' \<and> ct_request_complained s' = ct_request_complained s \<and> ret \<noteq> -4"
proof -
  consider "s' = s" "ret \<noteq> -4" | sig where "recovery_msg E sig r s = Some (ret, s', out)"
    | sig code where "add_msg E sig r s = Some (code, s')" "ret \<noteq> -4"
    using assms unfolding ProcessCommitMsg_def Let_def by (auto split: handler_splits)
  then show ?thesis by cases (auto simp: ct_keeps_def dest: recovery_msg_keeps add_msg_keeps)
qed

lemma propose_request_keeps:
  assumes "propose_request E d r s = Some (ret, s', out)" "duplicates s \<noteq> None"
  shows "ct_keeps s s' \<and> ct_request_complained s' = ct_request_complained s \<and> (ret = 0 \<or> ret = -2)
    \<and> mm_system_info (ct_mm s') = mm_system_info (ct_mm s)"
  using assms
  by (auto simp: propose_request_def Let_def ct_keeps_def mm_keeps_def set_duplicates_def mm_SetDuplicateManager_def
      SetDuplicateManager_def duplicates_def AssignNextSeq_def split: handler_splits)

lemma ProcessNewRequest_keeps:
  assumes "ProcessNewRequest E (Some cx) r s = Some (ret, s', out)"
  shows "ct_keeps s s' \<and> mm_system_info (ct_mm s') = mm_system_info (ct_mm s) \<and> ret \<noteq> -4
    \<and> ct_request_complained s' = ct_request_complained s @ (if ret = -3 then [(cx, r)] else [])
    \<and> (ret = -3 \<longrightarrow> self_id s \<noteq> GetCurrentPrimary (ct_mm s) \<and> out = [SendTo r (GetCurrentPrimary (ct_mm s))])"
proof -
  have refl: "ct_keeps s s" by (simp add: ct_keeps_def)
  have resp: "ct_keeps s (s\<lparr>ct_mm := SendResponse (en_now E) x (ct_mm s)\<rparr>)" for x by (rule ct_keeps_mm [OF refl]) simp
  consider "s' = s" "ret = -2" | x where "s' = s\<lparr>ct_mm := SendResponse (en_now E) x (ct_mm s)\<rparr>" "ret = -2"
    | "s' = s\<lparr>ct_request_complained := ct_request_complained s @ [(cx, r)]\<rparr>" "ret = -3"
        "self_id s \<noteq> GetCurrentPrimary (ct_mm s)" "out = [SendTo r (GetCurrentPrimary (ct_mm s))]"
    | d where "duplicates s = Some d" "propose_request E d r s = Some (ret, s', out)"
    using assms unfolding ProcessNewRequest_def by (auto split: handler_splits)
  then show ?thesis
  proof cases
    case 2
    then show ?thesis using resp by (simp add: SendResponse_def Let_def)
  next
    case 4
    then show ?thesis using propose_request_keeps [OF 4(2)] by auto
  qed (use refl in \<open>auto simp: ct_keeps_def\<close>)
qed

lemma push_timer_mm [simp]: "snd (push_timer E k t s) = snd s"
  by (simp add: push_timer_def Let_def split: prod.splits)

lemma AddComplaintTimer_mm [simp]: "snd (AddComplaintTimer E p h s) = snd s"
  by (simp add: AddComplaintTimer_def Let_def split: prod.splits)

lemma SendNewViewMsg_mm: "SendNewViewMsg C K view s = Some (s', out) \<Longrightarrow> snd s' = snd s"
  by (auto simp: SendNewViewMsg_def Let_def split: if_splits option.splits)

lemma ProcessViewChange_mm:
  assumes "ProcessViewChange E K r s = Some (ret, s', out)"
  shows "snd s' = snd s \<and> ret \<noteq> -4"
proof -
  consider "snd s' = snd s" "ret \<noteq> -4"
    | v k v2 m2 where "SendNewViewMsg (en_crypto E) K k (v, snd s) = Some ((v2, m2), out)" "snd s' = m2" "ret = 0"
    | v k t v2 m2 where "push_timer E k t (v, snd s) = (v2, m2)" "snd s' = m2" "ret = 0"
    using assms unfolding ProcessViewChange_def Let_def
    by (simp split: option.splits if_splits prod.splits bool.splits) (force elim: sym)+
  then show ?thesis
  proof cases
    case 2
    then show ?thesis using SendNewViewMsg_mm [OF 2(1)] by simp
  next
    case 3
    then show ?thesis using push_timer_mm [of E k t "(v, snd s)"] by simp
  qed simp
qed

lemma redo_request_keeps: "redo_request r m = Some (m', out) \<Longrightarrow> mm_keeps m m'"
  by (auto simp: redo_request_def split: if_splits option.splits)

lemma redo_requests_keeps: "redo_requests rs m = Some (m', out) \<Longrightarrow> mm_keeps m m'"
  by (induction rs arbitrary: m m' out) (auto split: option.splits prod.splits dest: redo_request_keeps intro: mm_keeps_trans)

lemma SetCurrentViewAndNewPrimary_keeps: "SetCurrentViewAndNewPrimary view m = Some m' \<Longrightarrow> mm_keeps m m'"
  by (auto simp: SetCurrentViewAndNewPrimary_def)

lemma ProcessNewView_keeps:
  assumes "ProcessNewView C K r s = Some (ret, s', out)"
  shows "mm_keeps (snd s) (snd s')
    \<and> (ret = -4 \<longrightarrow> rep_id (cf_self_info (mm_config (snd s'))) = GetCurrentPrimary (snd s'))"
proof -
  consider "s' = s" "ret = -2"
    | m1 m2 k rs a out' where "SetCurrentViewAndNewPrimary k (snd s) = Some m1"
        "redo_requests rs (SetNextSeq a m1) = Some (m2, out')"
        "ret = (if rep_id (cf_self_info (mm_config m2)) = GetCurrentPrimary m2 then -4 else 0)" "snd s' = m2"
    using assms unfolding ProcessNewView_def by (auto split: option.splits if_splits prod.splits)
  then show ?thesis
  proof cases
    case 2
    have "mm_keeps (snd s) (SetNextSeq a m1)"
      by (rule mm_keeps_trans [OF SetCurrentViewAndNewPrimary_keeps [OF 2(1)]]) simp
    then have "mm_keeps (snd s) m2" by (rule mm_keeps_trans [OF _ redo_requests_keeps [OF 2(2)]])
    then show ?thesis using 2(3,4) by (auto split: if_splits)
  qed auto
qed

section \<open>The dispatcher\<close>

text \<open>What one dispatched message keeps, and what the return value \<open>-4\<close> means.\<close>

definition dispatch_ok :: "'s pbft \<Rightarrow> int \<Rightarrow> 's pbft \<Rightarrow> bool" where
  "dispatch_ok s ret s' \<longleftrightarrow> pb_config s' = pb_config s \<and> pb_pending s' = pb_pending s \<and> pb_recovery s' = pb_recovery s
     \<and> ct_keeps (pb_ct s) (pb_ct s') \<and> ct_request_complained (pb_ct s') = ct_request_complained (pb_ct s)
     \<and> (pb_rm s' = None \<longleftrightarrow> pb_rm s = None) \<and> (pb_pm s' = None \<longleftrightarrow> pb_pm s = None)
     \<and> (ret = -4 \<longrightarrow> self_id (pb_ct s') = GetCurrentPrimary (pb_mm s'))
     \<and> (pb_complained s' = pb_complained s
        \<or> (\<exists>x. rq_type (snd x) = TYPE_NEW_TXNS \<and> pb_complained s' = pb_complained s @ [x]
               \<and> self_id (pb_ct s) \<noteq> GetCurrentPrimary (pb_mm s)))"

lemma dispatch_ok_refl [simp]: "dispatch_ok s ret s \<longleftrightarrow> (ret = -4 \<longrightarrow> self_id (pb_ct s) = GetCurrentPrimary (pb_mm s))"
  by (simp add: dispatch_ok_def ct_keeps_def)

lemma on_commitment_ok:
  assumes "on_commitment s x = Some (ret, s', out)"
    and "\<And>c. x = Some (ret, c, out) \<Longrightarrow> ct_keeps (pb_ct s) c \<and> ct_request_complained c = ct_request_complained (pb_ct s) \<and> ret \<noteq> -4"
  shows "dispatch_ok s ret s'"
  using assms by (auto simp: on_commitment_def dispatch_ok_def)

lemma set_mm_ok:
  "mm_keeps (pb_mm s) m \<Longrightarrow> (ret = -4 \<longrightarrow> rep_id (cf_self_info (mm_config m)) = GetCurrentPrimary m)
     \<Longrightarrow> dispatch_ok s ret (set_mm m s)"
  by (simp add: dispatch_ok_def set_mm_def pb_mm_def ct_keeps_def self_id_def)

lemma dispatch_ok_vc [simp]: "dispatch_ok s ret (set_mm m (s\<lparr>pb_vc := v\<rparr>)) = dispatch_ok s ret (set_mm m s)"
  by (simp add: dispatch_ok_def set_mm_def pb_mm_def)

lemma on_view_change_ok:
  assumes "on_view_change s x = Some (ret, s', out)"
    and "\<And>v m. x = Some (ret, (v, m), out) \<Longrightarrow> mm_keeps (pb_mm s) m \<and> (ret = -4 \<longrightarrow> rep_id (cf_self_info (mm_config m)) = GetCurrentPrimary m)"
  shows "dispatch_ok s ret s'"
  using assms set_mm_ok by (fastforce simp: on_view_change_def)

lemma on_performance_ok:
  assumes "on_performance f s = Some (ret, s', out)" "\<And>p q. f p = Some (ret, q) \<Longrightarrow> ret \<noteq> -4"
  shows "dispatch_ok s ret s'"
  using assms by (fastforce simp: on_performance_def dispatch_ok_def set_mm_def pb_mm_def ct_keeps_def split: option.splits)

lemma on_response_ok:
  assumes "on_response f s = Some (ret, s', out)" "\<And>p q. f p = Some (ret, q, out) \<Longrightarrow> ret \<noteq> -4"
  shows "dispatch_ok s ret s'"
  using assms by (fastforce simp: on_response_def dispatch_ok_def ct_keeps_def split: option.splits)

lemma new_txns_ok:
  assumes "new_txns P cx r s = Some (ret, s', out)" "rq_type r = TYPE_NEW_TXNS" "ct_request_complained (pb_ct s) = []"
  shows "dispatch_ok s ret s'"
proof -
  obtain c where c: "ProcessNewRequest (pe_env P) (Some cx) r (pb_ct s) = Some (ret, c, out)"
    and s': "if ret \<noteq> -3 then s' = s\<lparr>pb_ct := c\<rparr>
      else (\<exists>cx1 r1 rest v m. ct_request_complained c = (cx1, r1) # rest
        \<and> AddComplaintTimer (pe_env P) (word_of_int (rq_proxy_id r)) (rq_hash r) (pb_vc s, ct_mm c) = (v, m)
        \<and> s' = set_mm m ((AddComplainedRequest cx1 r1 (s\<lparr>pb_ct := c\<lparr>ct_request_complained := rest\<rparr>\<rparr>))\<lparr>pb_vc := v\<rparr>))"
    using assms(1) unfolding new_txns_def Let_def
    by (auto split: option.splits prod.splits if_splits list.splits simp: AddComplainedRequest_def pb_mm_def)
  note k = ProcessNewRequest_keeps [OF c]
  show ?thesis
  proof (cases "ret = -3")
    case False
    then show ?thesis using s' k by (auto simp: dispatch_ok_def)
  next
    case True
    obtain v m where t: "AddComplaintTimer (pe_env P) (word_of_int (rq_proxy_id r)) (rq_hash r) (pb_vc s, ct_mm c) = (v, m)"
      and e: "s' = set_mm m ((AddComplainedRequest cx r (s\<lparr>pb_ct := c\<lparr>ct_request_complained := []\<rparr>\<rparr>))\<lparr>pb_vc := v\<rparr>)"
      using True s' k assms(3) by auto
    have "m = ct_mm c" using AddComplaintTimer_mm [of "pe_env P" "word_of_int (rq_proxy_id r)" "rq_hash r" "(pb_vc s, ct_mm c)"] t by simp
    then show ?thesis using e k assms(2,3) True
      by (auto simp: dispatch_ok_def set_mm_def AddComplainedRequest_def ct_keeps_def pb_mm_def intro!: exI [of _ cx] exI [of _ r])
  qed
qed

lemma pm_ProcessResponseMsg_ret: "pm_ProcessResponseMsg E B cx r p = Some (ret, q) \<Longrightarrow> ret \<noteq> -4"
  by (auto simp: pm_ProcessResponseMsg_def split: if_splits option.splits prod.splits CollectorResultCode.splits)

lemma ProcessResponseMsg_ret: "ProcessResponseMsg E B cx r p = Some (ret, q, out) \<Longrightarrow> ret \<noteq> -4"
  by (auto simp: ProcessResponseMsg_def split: if_splits option.splits prod.splits CollectorResultCode.splits)

lemma ProcessCheckPoint_ret: "ProcessCheckPoint C parse r ck = Some (ret, ck') \<Longrightarrow> ret \<noteq> -4"
  by (auto simp: ProcessCheckPoint_def Let_def split: option.splits if_splits)

lemma ProcessQuery_ret: "ProcessQuery Q ask cx r m = Some (ret, out) \<Longrightarrow> ret \<noteq> -4"
  by (auto simp: ProcessQuery_def split: option.splits if_splits prod.splits)

lemma InternalConsensusCommit_ok:
  assumes "InternalConsensusCommit P cx r s = Some (ret, s', out)" "ct_request_complained (pb_ct s) = []"
  shows "dispatch_ok s ret s'"
proof (cases "rq_type r")
  case TYPE_CLIENT_REQUEST
  then show ?thesis using assms(1)
    by (auto simp: InternalConsensusCommit_def StartEval_def NewUserRequest_def split: if_splits
        elim!: on_performance_ok on_response_ok)
next
  case TYPE_RESPONSE
  then show ?thesis using assms(1)
    by (auto simp: InternalConsensusCommit_def split: if_splits
        elim!: on_performance_ok on_response_ok dest: pm_ProcessResponseMsg_ret ProcessResponseMsg_ret)
next
  case TYPE_NEW_TXNS
  then show ?thesis using assms new_txns_ok by (simp add: InternalConsensusCommit_def)
next
  case TYPE_PRE_PREPARE
  then have d: "on_commitment s (ProcessProposeMsg (pe_env P) (Some cx) r (pb_ct s)) = Some (ret, s', out)"
    using assms(1) by (simp add: InternalConsensusCommit_def)
  show ?thesis by (rule on_commitment_ok [OF d ProcessProposeMsg_keeps])
next
  case TYPE_PREPARE
  then have d: "on_commitment s (ProcessPrepareMsg (pe_env P) (Some cx) r (pb_ct s)) = Some (ret, s', out)"
    using assms(1) by (simp add: InternalConsensusCommit_def)
  show ?thesis by (rule on_commitment_ok [OF d ProcessPrepareMsg_keeps])
next
  case TYPE_COMMIT
  then have d: "on_commitment s (ProcessCommitMsg (pe_env P) (Some cx) r (pb_ct s)) = Some (ret, s', out)"
    using assms(1) by (simp add: InternalConsensusCommit_def)
  show ?thesis by (rule on_commitment_ok [OF d ProcessCommitMsg_keeps])
next
  case TYPE_CHECKPOINT
  then show ?thesis using assms(1)
    by (auto simp: InternalConsensusCommit_def dest: ProcessCheckPoint_ret intro!: set_mm_ok)
next
  case TYPE_VIEWCHANGE
  then have d: "on_view_change s (ProcessViewChange (pe_env P) (pe_vc P) r (pb_vc s, pb_mm s)) = Some (ret, s', out)"
    using assms(1) by (simp add: InternalConsensusCommit_def)
  show ?thesis by (rule on_view_change_ok [OF d]) (auto dest: ProcessViewChange_mm)
next
  case TYPE_NEWVIEW
  then have d: "on_view_change s (ProcessNewView (en_crypto (pe_env P)) (pe_vc P) r (pb_vc s, pb_mm s)) = Some (ret, s', out)"
    using assms(1) by (simp add: InternalConsensusCommit_def)
  show ?thesis by (rule on_view_change_ok [OF d]) (auto dest: ProcessNewView_keeps)
next
  case TYPE_QUERY
  then show ?thesis using assms(1) by (auto simp: InternalConsensusCommit_def dest: ProcessQuery_ret)
qed (use assms(1) in \<open>auto simp: InternalConsensusCommit_def ProcessGetReplicaState_def ProcessCustomQuery_def split: option.splits\<close>)

lemma dispatch_ok_wf:
  assumes "dispatch_ok s ret s'" "pbft_wf s"
  shows "pbft_wf s'"
  using assms by (auto simp: dispatch_ok_def pbft_wf_def ct_keeps_def mm_keeps_def pb_mm_def duplicates_def)

lemma pbft_wf_complained: "pbft_wf s \<Longrightarrow> ct_request_complained (pb_ct s) = []"
  by (simp add: pbft_wf_def)

lemma InternalConsensusCommit_wf:
  "pbft_wf s \<Longrightarrow> InternalConsensusCommit P cx r s = Some (ret, s', out) \<Longrightarrow> pbft_wf s'"
  by (rule dispatch_ok_wf [OF InternalConsensusCommit_ok]) (simp_all add: pbft_wf_complained)

text \<open>The dispatcher does not look at the pending messages.\<close>

definition with_pending :: "(net_context \<times> request) list \<Rightarrow> 's pbft_result \<Rightarrow> 's pbft_result" where
  "with_pending q = map_option (\<lambda>(ret, s', out). (ret, s'\<lparr>pb_pending := q\<rparr>, out))"

lemma components_pending:
  "on_commitment (s\<lparr>pb_pending := q\<rparr>) x = with_pending q (on_commitment s x)"
  "on_view_change (s\<lparr>pb_pending := q\<rparr>) y = with_pending q (on_view_change s y)"
  "on_performance f (s\<lparr>pb_pending := q\<rparr>) = with_pending q (on_performance f s)"
  "on_response g (s\<lparr>pb_pending := q\<rparr>) = with_pending q (on_response g s)"
  by (auto simp: on_commitment_def on_view_change_def on_performance_def on_response_def with_pending_def
      set_mm_def pb_mm_def option.map_comp intro!: option.map_cong split: option.splits)

lemma new_txns_pending: "new_txns P cx r (s\<lparr>pb_pending := q\<rparr>) = with_pending q (new_txns P cx r s)"
  by (auto simp: new_txns_def with_pending_def set_mm_def pb_mm_def AddComplainedRequest_def Let_def
      split: option.splits list.splits prod.splits)

lemma pb_mm_pending [simp]: "pb_mm (s\<lparr>pb_pending := q\<rparr>) = pb_mm s"
  by (simp add: pb_mm_def)

lemma InternalConsensusCommit_pending:
  "InternalConsensusCommit P cx r (s\<lparr>pb_pending := q\<rparr>) = with_pending q (InternalConsensusCommit P cx r s)"
proof -
  have "map_option (\<lambda>(ret, ck). (ret, set_mm ((pb_mm s)\<lparr>mm_checkpoint := ck\<rparr>) (s\<lparr>pb_pending := q\<rparr>), [])) x
      = with_pending q (map_option (\<lambda>(ret, ck). (ret, set_mm ((pb_mm s)\<lparr>mm_checkpoint := ck\<rparr>) s, [])) x)" for x
    by (cases x) (auto simp: with_pending_def set_mm_def)
  moreover have "map_option (\<lambda>(ret, out). (ret, s\<lparr>pb_pending := q\<rparr>, out)) y
      = with_pending q (map_option (\<lambda>(ret, out). (ret, s, out)) y)" for y
    by (cases y) (auto simp: with_pending_def)
  ultimately show ?thesis
    by (cases "rq_type r")
      (simp_all add: InternalConsensusCommit_def components_pending new_txns_pending, simp_all add: with_pending_def split: prod.splits)
qed

section \<open>The loops\<close>

text \<open>The messages of a list, one after the other.\<close>

fun commit_each ::
  "(nat \<Rightarrow> pbft_env) \<Rightarrow> nat \<Rightarrow> (net_context \<times> request) list \<Rightarrow> 's pbft \<Rightarrow> (nat \<times> 's pbft \<times> out_msg list) option" where
  "commit_each Ps n [] s = Some (n, s, [])"
| "commit_each Ps n ((cx, r) # xs) s =
     Option.bind (InternalConsensusCommit (Ps n) cx r s) (\<lambda>(_, s1, out).
       map_option (\<lambda>(k, s2, out'). (k, s2, out @ out')) (commit_each Ps (Suc n) xs s1))"

lemma drain_pending_each: "drain_pending Ps n s = commit_each Ps n (pb_pending s) (s\<lparr>pb_pending := []\<rparr>)"
proof (induction "pb_pending s" arbitrary: n s)
  case Nil
  then have "s\<lparr>pb_pending := []\<rparr> = s" by simp
  then show ?case using Nil by (subst drain_pending.simps) (simp add: PopPendingRequest_def)
next
  case (Cons x xs)
  obtain cx r where x: "x = (cx, r)" by fastforce
  have pop: "PopPendingRequest s = Some ((cx, r), s\<lparr>pb_pending := xs\<rparr>)" by (simp add: PopPendingRequest_def x flip: Cons(2))
  show ?case
  proof (cases "InternalConsensusCommit (Ps n) cx r s")
    case None
    then show ?thesis using Cons(2) x pop
      by (subst drain_pending.simps) (simp add: InternalConsensusCommit_pending with_pending_def flip: Cons(2))
  next
    case (Some y)
    obtain ret s2 out where y: "y = (ret, s2, out)" by (cases y)
    have "drain_pending Ps (Suc n) (s2\<lparr>pb_pending := xs\<rparr>) = commit_each Ps (Suc n) xs (s2\<lparr>pb_pending := []\<rparr>)"
      using Cons(1) [of "s2\<lparr>pb_pending := xs\<rparr>"] by simp
    then show ?thesis using Some x y pop
      by (subst drain_pending.simps, cases "commit_each Ps (Suc n) xs (s2\<lparr>pb_pending := []\<rparr>)")
        (auto simp: InternalConsensusCommit_pending with_pending_def simp flip: Cons(2))
  qed
qed

text \<open>A replica that is primary and has its verifier handles every new request itself.\<close>

definition leads :: "'s commitment \<Rightarrow> bool" where
  "leads c \<longleftrightarrow> self_id c = GetCurrentPrimary (ct_mm c) \<and> ct_verifier c \<noteq> None \<and> duplicates c \<noteq> None"

lemma ProcessNewRequest_leads:
  assumes "leads c"
  obtains ret c' out where "ProcessNewRequest E (Some cx) r c = Some (ret, c', out)" "ret \<noteq> -3" "leads c'"
proof -
  have pr: "propose_request E d r c \<noteq> None" for d
    by (auto simp: propose_request_def Let_def split: handler_splits)
  have "ProcessNewRequest E (Some cx) r c \<noteq> None"
    using assms pr by (simp add: leads_def ProcessNewRequest_def split: option.split) auto
  then obtain ret c' out where p: "ProcessNewRequest E (Some cx) r c = Some (ret, c', out)" by auto
  note k = ProcessNewRequest_keeps [OF p]
  have "self_id c' = self_id c" "duplicates c' \<noteq> None" "ct_verifier c' \<noteq> None"
    using k assms by (auto simp: ct_keeps_def mm_keeps_def self_id_def duplicates_def leads_def)
  moreover have "ret \<noteq> -3" using k assms by (auto simp: leads_def)
  moreover have "GetCurrentPrimary (ct_mm c') = GetCurrentPrimary (ct_mm c)" using k by (simp add: GetCurrentPrimary_def)
  ultimately show thesis using that [OF p] assms by (simp add: leads_def)
qed

fun handle_complaints ::
  "(nat \<Rightarrow> pbft_env) \<Rightarrow> nat \<Rightarrow> (net_context \<times> request) list \<Rightarrow> 's commitment \<Rightarrow> ('s commitment \<times> out_msg list) option" where
  "handle_complaints Ps n [] c = Some (c, [])"
| "handle_complaints Ps n ((cx, r) # xs) c =
     Option.bind (ProcessNewRequest (pe_env (Ps n)) (Some cx) r c) (\<lambda>(_, c1, out).
       map_option (\<lambda>(c2, out'). (c2, out @ out')) (handle_complaints Ps (Suc n) xs c1))"

lemma drain_complained_leads:
  assumes "leads (pb_ct s)" "\<forall>x \<in> set (pb_complained s). rq_type (snd x) = TYPE_NEW_TXNS"
  shows "\<exists>c out. handle_complaints Ps n (pb_complained s) (pb_ct s) = Some (c, out)
    \<and> drain_complained Ps n s = Some (s\<lparr>pb_ct := c, pb_complained := []\<rparr>, out)"
  using assms
proof (induction "pb_complained s" arbitrary: n s)
  case Nil
  then show ?case by (subst drain_complained.simps) (simp add: PopComplainedRequest_def flip: Nil(1))
next
  case (Cons x xs)
  obtain cx r where x: "x = (cx, r)" by fastforce
  have t: "rq_type r = TYPE_NEW_TXNS" using Cons(2,4) x by (metis list.set_intros(1) snd_conv)
  obtain ret c1 out1 where p: "ProcessNewRequest (pe_env (Ps n)) (Some cx) r (pb_ct s) = Some (ret, c1, out1)" "ret \<noteq> -3" "leads c1"
    using ProcessNewRequest_leads [OF Cons(3)] by blast
  let ?s = "s\<lparr>pb_complained := xs, pb_ct := c1\<rparr>"
  have "\<exists>c out. handle_complaints Ps (Suc n) xs c1 = Some (c, out) \<and> drain_complained Ps (Suc n) ?s = Some (?s\<lparr>pb_ct := c, pb_complained := []\<rparr>, out)"
    using Cons(1) [of ?s "Suc n"] Cons(4) p(3) by (simp flip: Cons(2))
  moreover have "InternalConsensusCommit (Ps n) cx r (s\<lparr>pb_complained := xs\<rparr>) = Some (ret, ?s, out1)"
    using t p by (simp add: InternalConsensusCommit_def new_txns_def)
  moreover have "PopComplainedRequest s = Some ((cx, r), s\<lparr>pb_complained := xs\<rparr>)"
    by (simp add: PopComplainedRequest_def x flip: Cons(2))
  ultimately show ?case using p(1) x
    by (subst drain_complained.simps) (auto simp flip: Cons(2))
qed

lemma dispatch_ok_leads:
  assumes "dispatch_ok s ret s'" "pbft_wf s" "ct_verifier (pb_ct s) \<noteq> None" "ret = -4"
  shows "leads (pb_ct s')"
  using assms dispatch_ok_wf [OF assms(1,2)]
  by (simp add: dispatch_ok_def leads_def pbft_wf_def pb_mm_def ct_keeps_def)

lemma drain_complained_wf: "drain_complained Ps n s = Some y \<Longrightarrow> pbft_wf s \<longrightarrow> pbft_wf (fst y)"
proof (erule drain_complained.raw_induct [rotated], rule impI)
  fix drain Ps n s and y :: "'s pbft \<times> out_msg list"
  assume IH: "\<And>Ps n s y. drain Ps n s = Some y \<Longrightarrow> pbft_wf s \<longrightarrow> pbft_wf (fst y)"
    and body: "(case PopComplainedRequest s of
        None \<Rightarrow> Some (s, [])
      | Some ((cx, r), s1) \<Rightarrow>
          Option.bind (InternalConsensusCommit (Ps n) cx r s1) (\<lambda>(ret, s2, out).
            Option.bind (drain Ps (Suc n) s2) (\<lambda>(s3, out'). Some (s3, out @ out')))) = Some y"
    and wf: "pbft_wf s"
  show "pbft_wf (fst y)"
  proof (cases "pb_complained s")
    case Nil
    then show ?thesis using body wf by (auto simp: PopComplainedRequest_def)
  next
    case (Cons x xs)
    obtain ret s2 out s3 out' where "InternalConsensusCommit (Ps n) (fst x) (snd x) (s\<lparr>pb_complained := xs\<rparr>) = Some (ret, s2, out)"
      "drain Ps (Suc n) s2 = Some (s3, out')" "y = (s3, out @ out')"
      using body Cons by (cases x) (auto simp: PopComplainedRequest_def bind_eq_Some_conv)
    moreover have "pbft_wf (s\<lparr>pb_complained := xs\<rparr>)" using wf Cons by (simp add: pbft_wf_def pb_mm_def)
    ultimately show ?thesis using IH InternalConsensusCommit_wf by fastforce
  qed
qed

lemma commit_each_wf: "commit_each Ps n xs s = Some (k, s', out) \<Longrightarrow> pbft_wf s \<Longrightarrow> pbft_wf s'"
  by (induction Ps n xs s arbitrary: k out rule: commit_each.induct)
    (auto simp: bind_eq_Some_conv dest: InternalConsensusCommit_wf)

lemma commit_and_drain_wf: "commit_and_drain Ps n cx r s = Some (ret, s', out) \<Longrightarrow> pbft_wf s \<Longrightarrow> pbft_wf s'"
  by (auto simp: commit_and_drain_def bind_eq_Some_conv split: if_splits dest: InternalConsensusCommit_wf drain_complained_wf [THEN mp])

section \<open>Properties\<close>

text \<open>A message has arrived: it is logged, and the view change manager is started.\<close>

definition arrive :: "pbft_env \<Rightarrow> net_context \<Rightarrow> request \<Rightarrow> 's pbft \<Rightarrow> 's pbft" where
  "arrive P cx r s = s\<lparr>pb_recovery := recovery_AddRequest (pe_rec P) (Some cx) r (pb_recovery s),
                       pb_vc := MayStart (cf_node_kind (mm_config (pb_mm s))) (pb_vc s)\<rparr>"

fun receive_all :: "((nat \<Rightarrow> pbft_env) \<times> net_context \<times> request) list \<Rightarrow> 's pbft \<Rightarrow> ('s pbft \<times> out_msg list) option" where
  "receive_all [] s = Some (s, [])"
| "receive_all ((Ps, cx, r) # ms) s =
     Option.bind (ConsensusCommit Ps cx r s) (\<lambda>(_, s1, out).
       map_option (\<lambda>(s2, out'). (s2, out @ out')) (receive_all ms s1))"

lemma IsInViewChange_MayStart [simp]: "IsInViewChange (MayStart k v) = IsInViewChange v"
  by (simp add: IsInViewChange_def MayStart_def)

lemma ConsensusCommit_arrive:
  assumes "cd_enable_viewchange (cf_config_data (pb_config s))"
  shows "ConsensusCommit Ps cx r s =
    (if IsInViewChange (pb_vc s)
     then if rq_type r \<in> held_types then Some (0, AddPendingRequest cx r (arrive (Ps 0) cx r s), [])
          else commit_and_drain Ps 0 cx r (arrive (Ps 0) cx r s)
     else Option.bind (commit_each Ps 0 (pb_pending s) ((arrive (Ps 0) cx r s)\<lparr>pb_pending := []\<rparr>)) (\<lambda>(n, s1, out).
            map_option (\<lambda>(ret, s2, out'). (ret, s2, out @ out')) (commit_and_drain Ps n cx r s1)))"
  using assms by (simp add: ConsensusCommit_def Let_def arrive_def pb_mm_def drain_pending_each)

lemma arrive_wf: "pbft_wf s \<Longrightarrow> pbft_wf (arrive P cx r s)"
  by (simp add: pbft_wf_def arrive_def pb_mm_def)

lemma ConsensusCommit_wf:
  assumes "ConsensusCommit Ps cx r s = Some (ret, s', out)" "pbft_wf s"
  shows "pbft_wf s'"
proof (cases "cd_enable_viewchange (cf_config_data (pb_config s))")
  case True
  have a: "pbft_wf (arrive (Ps 0) cx r s)" using assms(2) by (rule arrive_wf)
  then have "pbft_wf ((arrive (Ps 0) cx r s)\<lparr>pb_pending := []\<rparr>)" by (simp add: pbft_wf_def)
  moreover have "rq_type r \<in> held_types \<Longrightarrow> pbft_wf (AddPendingRequest cx r (arrive (Ps 0) cx r s))"
    using a by (auto simp: pbft_wf_def AddPendingRequest_def pb_mm_def)
  ultimately show ?thesis using assms(1) a unfolding ConsensusCommit_arrive [OF True]
    by (auto simp: bind_eq_Some_conv split: if_splits dest!: commit_each_wf commit_and_drain_wf)
next
  case False
  have "pbft_wf (s\<lparr>pb_recovery := recovery_AddRequest (pe_rec (Ps 0)) (Some cx) r (pb_recovery s)\<rparr>)"
    using assms(2) by (simp add: pbft_wf_def pb_mm_def)
  then show ?thesis using assms(1) False by (auto simp: ConsensusCommit_def Let_def dest: commit_and_drain_wf)
qed

lemma receive_all_wf: "receive_all ms s = Some (s', out) \<Longrightarrow> pbft_wf s \<Longrightarrow> pbft_wf s'"
proof (induction ms arbitrary: s out)
  case (Cons x ms)
  obtain Ps cx r where x: "x = (Ps, cx, r)" by (cases x)
  obtain ret s1 out1 out2 where "ConsensusCommit Ps cx r s = Some (ret, s1, out1)" "receive_all ms s1 = Some (s', out2)"
    using Cons.prems(1) x by (auto simp: bind_eq_Some_conv)
  then show ?case using Cons.IH ConsensusCommit_wf Cons.prems(2) by blast
qed simp

lemma set_info_wf: "pbft_wf (set_mm ((pb_mm s)\<lparr>mm_system_info := si\<rparr>) s) = pbft_wf s"
  by (simp add: pbft_wf_def pb_mm_def set_mm_def duplicates_def)

lemma replay_log_wf: "replay_log Ps n es s = Some (s', out) \<Longrightarrow> pbft_wf s \<Longrightarrow> pbft_wf s'"
proof (induction es arbitrary: n s out)
  case (Cons e es)
  show ?case
  proof (cases e)
    case (LogSystem info)
    then show ?thesis using Cons.IH Cons.prems by (cases info) (fastforce simp: set_info_wf)
  next
    case (LogRequest sig r)
    obtain ret s1 out1 out2 where "InternalConsensusCommit (Ps n) \<lparr>cx_signature = sig, cx_client = None\<rparr> r s = Some (ret, s1, out1)"
      "replay_log Ps (Suc n) es s1 = Some (s', out2)"
      using Cons.prems(1) LogRequest by (auto simp: bind_eq_Some_conv)
    then show ?thesis using Cons.IH Cons.prems(2) InternalConsensusCommit_wf by blast
  qed
qed simp

text \<open>Whatever log it finds and whatever messages it receives, as long as a replica runs its pointers, its
  configuration and its queues are in order.\<close>

lemma replica_well_formed:
  assumes "new_pbft Ps order garbage cfg tm db verifier now path buffer_size files = Some (s0, out0)"
    and "receive_all ms s0 = Some (s, out)"
  shows "pbft_wf s"
proof -
  obtain si where "Option.bind (new_message_manager cfg tm db (new_checkpoint_manager cfg verifier) si) (\<lambda>m.
     Option.bind (if IsPerformanceRunning cfg then Some None
                  else map_option Some (new_response_manager cfg si verifier (fst garbage))) (\<lambda>rm.
     Option.bind (if IsPerformanceRunning cfg
                  then map_option Some (new_performance_manager cfg si verifier (fst garbage) (fst (snd garbage)) (snd (snd garbage)))
                  else Some None) (\<lambda>pm.
     Option.bind (new_recovery (pe_rec (Ps 0)) order now cfg path buffer_size si files) (\<lambda>rv.
     Option.bind (ReadLogs (pe_rec (Ps 0)) order rv) (\<lambda>(es, rv1).
       replay_log Ps 0 es
         \<lparr>pb_config = cfg, pb_ct = new_commitment m verifier, pb_vc = new_viewchange_manager verifier,
          pb_rm = rm, pb_pm = pm, pb_recovery = rv1, pb_pending = [], pb_complained = []\<rparr>))))) = Some (s0, out0)"
    using assms(1) unfolding new_pbft_def bind_eq_Some_conv by blast
  then obtain m rm pm rv y where m: "new_message_manager cfg tm db (new_checkpoint_manager cfg verifier) si = Some m"
    and rm: "(if IsPerformanceRunning cfg then Some None else map_option Some (new_response_manager cfg si verifier (fst garbage))) = Some rm"
    and pm: "(if IsPerformanceRunning cfg
                  then map_option Some (new_performance_manager cfg si verifier (fst garbage) (fst (snd garbage)) (snd (snd garbage)))
                  else Some None) = Some pm"
    and y: "(case y of (es, rv1) \<Rightarrow> replay_log Ps 0 es
         \<lparr>pb_config = cfg, pb_ct = new_commitment m verifier, pb_vc = new_viewchange_manager verifier,
          pb_rm = rm, pb_pm = pm, pb_recovery = rv1, pb_pending = [], pb_complained = []\<rparr>) = Some (s0, out0)"
    unfolding bind_eq_Some_conv by blast
  obtain es rv1 where log: "replay_log Ps 0 es \<lparr>pb_config = cfg, pb_ct = new_commitment m verifier,
      pb_vc = new_viewchange_manager verifier, pb_rm = rm, pb_pm = pm, pb_recovery = rv1, pb_pending = [], pb_complained = []\<rparr>
      = Some (s0, out0)" using y by (cases y) simp
  have pointers: "if IsPerformanceRunning cfg then pm \<noteq> None else rm \<noteq> None" using rm pm by (auto split: if_splits)
  have "mm_config m = cfg" using m by (auto simp: new_message_manager_def split: option.splits)
  then have "pbft_wf s0" using pointers by (intro replay_log_wf [OF log])
      (auto simp: pbft_wf_def pb_mm_def new_commitment_def mm_SetDuplicateManager_def SetDuplicateManager_def duplicates_def)
  then show ?thesis using receive_all_wf [OF assms(2)] by simp
qed

text \<open>C15: as long as calls of \<open>ConsensusCommit\<close> do not overlap, messages of the normal case that arrive
  during a view change are answered with nothing, change nothing but the log and the queue of pending
  messages, and are handled in the order of their arrival, before the message itself, when the first
  message after the view change comes. No lock is held across the loop that empties the queue: with
  several worker threads two calls can take messages from it in turn, and nothing is said of that case.\<close>

theorem held_messages_in_order:
  assumes "cd_enable_viewchange (cf_config_data (pb_config s))" "IsInViewChange (pb_vc s)"
    and "\<forall>(Ps, cx, r) \<in> set ms. rq_type r \<in> held_types"
  shows "\<exists>s'. receive_all ms s = Some (s', []) \<and> pb_pending s' = pb_pending s @ map snd ms
    \<and> pb_ct s' = pb_ct s \<and> pb_rm s' = pb_rm s \<and> pb_pm s' = pb_pm s \<and> pb_complained s' = pb_complained s
    \<and> (\<forall>t Ps cx r. pb_pending t = pb_pending s' \<and> pb_config t = pb_config s \<and> \<not> IsInViewChange (pb_vc t) \<longrightarrow>
         ConsensusCommit Ps cx r t =
           Option.bind (commit_each Ps 0 (pb_pending s @ map snd ms) ((arrive (Ps 0) cx r t)\<lparr>pb_pending := []\<rparr>)) (\<lambda>(n, t1, out).
             map_option (\<lambda>(ret, t2, out'). (ret, t2, out @ out')) (commit_and_drain Ps n cx r t1)))"
  using assms
proof (induction ms arbitrary: s)
  case Nil
  then show ?case by (auto simp: ConsensusCommit_arrive)
next
  case (Cons x ms)
  obtain Ps cx r where x: "x = (Ps, cx, r)" by (cases x)
  let ?s = "AddPendingRequest cx r (arrive (Ps 0) cx r s)"
  have step: "ConsensusCommit Ps cx r s = Some (0, ?s, [])" using Cons(2-4) x by (simp add: ConsensusCommit_arrive)
  have f: "pb_config ?s = pb_config s" "IsInViewChange (pb_vc ?s)" "pb_pending ?s = pb_pending s @ [(cx, r)]" "pb_ct ?s = pb_ct s"
    "pb_rm ?s = pb_rm s" "pb_pm ?s = pb_pm s" "pb_complained ?s = pb_complained s"
    using Cons(3) by (simp_all add: AddPendingRequest_def arrive_def)
  show ?case using Cons.IH [of ?s] Cons.prems(1,3) by (simp add: f x step)
qed

text \<open>C16: when a replica that has handled a NEW-VIEW message finds itself primary, which the value \<open>-4\<close>
  says, the loop over the requests it had forwarded to the earlier primary ends: each of them is handled
  once, in the order of its arrival, as a new request is, and none is left.\<close>

theorem new_primary_handles_complaints:
  assumes "pbft_wf s" "ct_verifier (pb_ct s) \<noteq> None" "cd_enable_viewchange (cf_config_data (pb_config s))"
    and "IsInViewChange (pb_vc s)" "rq_type r \<notin> held_types"
    and "InternalConsensusCommit (Ps 0) cx r (arrive (Ps 0) cx r s) = Some (-4, s1, out1)"
  shows "\<exists>c out2. handle_complaints Ps 1 (pb_complained s1) (pb_ct s1) = Some (c, out2)
    \<and> ConsensusCommit Ps cx r s = Some (-4, s1\<lparr>pb_ct := c, pb_complained := []\<rparr>, out1 @ out2)
    \<and> self_id (pb_ct s1) = GetCurrentPrimary (pb_mm s1)"
proof -
  have wf: "pbft_wf (arrive (Ps 0) cx r s)" using assms(1) by (rule arrive_wf)
  have ok: "dispatch_ok (arrive (Ps 0) cx r s) (-4) s1"
    by (rule InternalConsensusCommit_ok [OF assms(6) pbft_wf_complained [OF wf]])
  have "leads (pb_ct s1)" by (rule dispatch_ok_leads [OF ok wf]) (use assms(2) in \<open>simp_all add: arrive_def\<close>)
  moreover have "\<forall>x \<in> set (pb_complained s1). rq_type (snd x) = TYPE_NEW_TXNS"
    using dispatch_ok_wf [OF ok wf] by (simp add: pbft_wf_def)
  ultimately obtain c out2 where c: "handle_complaints Ps 1 (pb_complained s1) (pb_ct s1) = Some (c, out2)"
    "drain_complained Ps 1 s1 = Some (s1\<lparr>pb_ct := c, pb_complained := []\<rparr>, out2)"
    using drain_complained_leads by blast
  have "cd_enable_viewchange (cf_config_data (pb_config (arrive (Ps 0) cx r s)))" using assms(3) by (simp add: arrive_def)
  then have "ConsensusCommit Ps cx r s = Some (-4, s1\<lparr>pb_ct := c, pb_complained := []\<rparr>, out1 @ out2)"
    using assms(4-6) c(2) by (simp add: ConsensusCommit_arrive [OF assms(3)] commit_and_drain_def)
  then show ?thesis using c(1) ok by (auto simp: dispatch_ok_def)
qed

text \<open>Replica 1 of four in view 4, whose primary is replica 4, and a message that opens view 5.\<close>

definition demo_pbft_env :: pbft_env where
  "demo_pbft_env = \<lparr>pe_env = demo_env, pe_vc = demo_codec_vc\<lparr>cv_parse_newview := (\<lambda>_. Some
       \<lparr>nv_view_number = 5, nv_request = [empty_request, empty_request], nv_viewchange_messages = []\<rparr>)\<rparr>,
     pe_rec = demo_rec_codec, pe_query = demo_query, pe_batch = demo_batch_codec, pe_parse_ckpt = (\<lambda>_. None),
     pe_ask = (\<lambda>_ _. None), pe_custom = None, pe_data = (\<lambda>_. [])\<rparr>"

definition demo_net :: net_context where
  "demo_net = the demo_context"

definition demo_pbft :: "(net_context \<times> request) list \<Rightarrow> unit pbft" where
  "demo_pbft complained = \<lparr>pb_config = demo_config [1, 2, 3, 4],
     pb_ct = (demo_replica fresh_collectors)\<lparr>ct_mm := (ct_mm (demo_replica fresh_collectors))
       \<lparr>mm_system_info := \<lparr>si_primary_id = 4, si_view = 4, si_replicas = []\<rparr>\<rparr>\<rparr>,
     pb_vc = (new_viewchange_manager (Some demo_verifier))\<lparr>vc_status := READY_VIEW_CHANGE\<rparr>,
     pb_rm = Some (demo_proxy [] [] (new_collector 1 False False) [] 0), pb_pm = None, pb_recovery = demo_recovery,
     pb_pending = [], pb_complained = complained\<rparr>"

lemma demo_pbft_facts:
  "pb_config (demo_pbft q) = demo_config [1, 2, 3, 4]" "ct_verifier (pb_ct (demo_pbft q)) = Some demo_verifier"
  "IsInViewChange (pb_vc (demo_pbft q))" "cd_enable_viewchange (cf_config_data (demo_config [1, 2, 3, 4]))"
  "mm_config (pb_mm (demo_pbft q)) = demo_config [1, 2, 3, 4]" "pb_pending (demo_pbft q) = []"
  by (simp_all add: demo_pbft_def demo_replica_def new_commitment_def IsInViewChange_def demo_config_def pb_mm_def demo_manager_of_def
      mm_SetDuplicateManager_def SetDuplicateManager_def)

theorem held_messages_in_order_witness:
  "\<exists>s'. receive_all [(\<lambda>_. demo_pbft_env, demo_net, empty_request\<lparr>rq_type := TYPE_PREPARE\<rparr>),
      (\<lambda>_. demo_pbft_env, demo_net, empty_request\<lparr>rq_type := TYPE_COMMIT\<rparr>)] (demo_pbft []) = Some (s', [])
    \<and> map (rq_type \<circ> snd) (pb_pending s') = [TYPE_PREPARE, TYPE_COMMIT]"
  using held_messages_in_order [of "demo_pbft []" "[(\<lambda>_. demo_pbft_env, demo_net, empty_request\<lparr>rq_type := TYPE_PREPARE\<rparr>),
      (\<lambda>_. demo_pbft_env, demo_net, empty_request\<lparr>rq_type := TYPE_COMMIT\<rparr>)]"]
  by (auto simp: demo_pbft_facts held_types_def)

definition demo_newview :: request where
  "demo_newview = empty_request\<lparr>rq_type := TYPE_NEWVIEW\<rparr>"

lemma demo_opens_view:
  assumes "mm_config m = demo_config [1, 2, 3, 4]" "mm_view m = 4" "vc_counter v = 1"
  shows "\<exists>m2. ProcessNewView C (pe_vc demo_pbft_env) r (v, m)
    = Some (-4, (snd (ChangeStatue VC_NONE v), m2), [Broadcast empty_request, Broadcast empty_request])"
proof -
  let ?nv = "\<lparr>nv_view_number = 5, nv_request = [empty_request, empty_request], nv_viewchange_messages = []\<rparr>"
  let ?rs = "[redo_entry C (vc_verifier v) 1 5 False [] 0, redo_entry C (vc_verifier v) 1 5 False [] 1]"
  have rs: "GetPrepareMsg C ?nv False (v, m) = Some ?rs"
    by (simp add: GetPrepareMsg_def assms(1) min_stable_def seq_range_def max_prepared_def upt_rec demo_self)
  have ok: "redo_matches ?rs ?nv"
    by (simp add: redo_matches_def redo_entry_data min_stable_def max_stable_def empty_request_def)
  have primary: "view_primary (demo_config [1, 2, 3, 4]) 5 = Some 1" by (simp add: view_primary_def demo_config_def)
  obtain m1 where m1: "SetCurrentViewAndNewPrimary 5 m = Some m1" "GetCurrentPrimary m1 = 1" "mm_config m1 = demo_config [1, 2, 3, 4]"
    by (simp add: SetCurrentViewAndNewPrimary_def assms(1) primary SetPrimary_def SetCurrentView_def GetCurrentPrimary_def GetPrimaryId_def)
  let ?m2 = "SetNextSeq (redo_max ?rs ?nv + 1) m1"
  have redo: "redo_requests [empty_request, empty_request] ?m2 = Some (?m2, [Broadcast empty_request, Broadcast empty_request])"
    by (simp add: redo_request_def empty_request_def)
  have m2: "GetCurrentPrimary ?m2 = 1" "mm_config ?m2 = demo_config [1, 2, 3, 4]"
    using m1 by (simp_all add: SetNextSeq_def GetCurrentPrimary_def)
  have parse: "cv_parse_newview (pe_vc demo_pbft_env) d = Some ?nv" for d by (simp add: demo_pbft_env_def)
  show ?thesis unfolding ProcessNewView_def parse
    using rs ok m1(1) redo m2 assms by (simp add: demo_self)
qed

lemma demo_becomes_primary:
  obtains s1 where "InternalConsensusCommit demo_pbft_env demo_net demo_newview (arrive demo_pbft_env demo_net demo_newview (demo_pbft q))
      = Some (-4, s1, [Broadcast empty_request, Broadcast empty_request])" "pb_complained s1 = q"
proof -
  let ?s = "arrive demo_pbft_env demo_net demo_newview (demo_pbft q)"
  have "mm_config (pb_mm ?s) = demo_config [1, 2, 3, 4]" "mm_view (pb_mm ?s) = 4" "vc_counter (pb_vc ?s) = 1"
    by (simp_all add: arrive_def pb_mm_def demo_pbft_def demo_replica_def new_commitment_def demo_manager_of_def
        mm_SetDuplicateManager_def SetDuplicateManager_def mm_view_def GetCurrentView_def MayStart_def new_viewchange_manager_def)
  then obtain m2 where nv: "ProcessNewView (en_crypto (pe_env demo_pbft_env)) (pe_vc demo_pbft_env) demo_newview (pb_vc ?s, pb_mm ?s)
      = Some (-4, (snd (ChangeStatue VC_NONE (pb_vc ?s)), m2), [Broadcast empty_request, Broadcast empty_request])"
    using demo_opens_view by blast
  let ?s1 = "set_mm m2 (?s\<lparr>pb_vc := snd (ChangeStatue VC_NONE (pb_vc ?s))\<rparr>)"
  have "rq_type demo_newview = TYPE_NEWVIEW" by (simp add: demo_newview_def)
  then have "InternalConsensusCommit demo_pbft_env demo_net demo_newview ?s = Some (-4, ?s1, [Broadcast empty_request, Broadcast empty_request])"
    unfolding InternalConsensusCommit_def on_view_change_def nv by simp
  moreover have "pb_complained ?s1 = q" by (simp add: set_mm_def arrive_def demo_pbft_def)
  ultimately show thesis by (rule that)
qed

definition demo_complaint :: "net_context \<times> request" where
  "demo_complaint = (demo_net, empty_request\<lparr>rq_type := TYPE_NEW_TXNS\<rparr>)"

theorem new_primary_handles_complaints_witness:
  "\<exists>s out. ConsensusCommit (\<lambda>_. demo_pbft_env) demo_net demo_newview (demo_pbft [demo_complaint]) = Some (-4, s, out)
    \<and> pb_complained (demo_pbft [demo_complaint]) = [demo_complaint] \<and> pb_complained s = []"
proof -
  obtain s1 where s1: "InternalConsensusCommit demo_pbft_env demo_net demo_newview
      (arrive demo_pbft_env demo_net demo_newview (demo_pbft [demo_complaint]))
      = Some (-4, s1, [Broadcast empty_request, Broadcast empty_request])" using demo_becomes_primary by blast
  have "IsPerformanceRunning (demo_config [1, 2, 3, 4]) = False" by (simp add: IsPerformanceRunning_def demo_config_def)
  then have wf: "pbft_wf (demo_pbft [demo_complaint])"
    by (simp add: pbft_wf_def demo_pbft_facts)
      (simp add: demo_pbft_def demo_complaint_def duplicates_def demo_replica_def new_commitment_def mm_SetDuplicateManager_def SetDuplicateManager_def)
  have "\<exists>c out2. handle_complaints (\<lambda>_. demo_pbft_env) 1 (pb_complained s1) (pb_ct s1) = Some (c, out2)
    \<and> ConsensusCommit (\<lambda>_. demo_pbft_env) demo_net demo_newview (demo_pbft [demo_complaint])
        = Some (-4, s1\<lparr>pb_ct := c, pb_complained := []\<rparr>, [Broadcast empty_request, Broadcast empty_request] @ out2)
    \<and> self_id (pb_ct s1) = GetCurrentPrimary (pb_mm s1)"
    by (rule new_primary_handles_complaints [OF wf _ _ _ _ s1])
      (simp_all add: demo_pbft_facts demo_newview_def held_types_def)
  then obtain c out2 where "ConsensusCommit (\<lambda>_. demo_pbft_env) demo_net demo_newview (demo_pbft [demo_complaint])
        = Some (-4, s1\<lparr>pb_ct := c, pb_complained := []\<rparr>, [Broadcast empty_request, Broadcast empty_request] @ out2)"
    by (elim exE conjE)
  moreover have "pb_complained (demo_pbft [demo_complaint]) = [demo_complaint]" by (simp add: demo_pbft_def)
  ultimately show ?thesis by simp
qed

end
