(* ===== verification/Networkstrate.thy ===== *)
theory Networkstrate
  imports Consensus_PBFT
begin

text \<open>
  \<open>ConsensusManager\<close> (platform/networkstrate/consensus_manager.cpp), the base class of
  \<open>ConsensusManagerPBFT\<close>: what happens to the bytes of a packet before the consensus sees a request,
  and the heart beats by which nodes exchange public keys and clients learn the primary.

  The verifier is one object, shared by all components of the replica: \<open>set_verifier\<close> gives each of
  them its new content. \<open>version_\<close> is never initialised; the model has the value found there. Heart
  beats go to a list of addresses of their own. \<open>None\<close> is undefined behaviour.
\<close>

section \<open>State\<close>

record heart_beat_info =
  hi_public_keys :: "certificate_key list"
  hi_node_version :: "int list"
  hi_primary :: uint32
  hi_version :: uint64
  hi_sender :: int
  hi_ip :: string
  hi_port :: int
  hi_hb_version :: int

record node_codec =
  nk_parse_message :: "string \<Rightarrow> (string \<times> signature_info option) option"
  nk_parse_request :: "string \<Rightarrow> request option"
  nk_parse_heart_beat :: "string \<Rightarrow> heart_beat_info option"
  nk_ser_heart_beat :: "heart_beat_info \<Rightarrow> string"

record 's node =
  nd_pbft :: "'s pbft"
  nd_verifier :: "signature_verifier option"
  nd_clients :: "replica_info list"
  nd_version :: uint64
  nd_hb :: "(int, uint64) std_map"
  nd_is_ready :: bool

datatype node_out = NetMsg out_msg | NetHeartBeat request "replica_info list"

definition nd_config :: "'s node \<Rightarrow> resdb_config" where
  "nd_config s = pb_config (nd_pbft s)"

definition set_verifier :: "signature_verifier option \<Rightarrow> 's pbft \<Rightarrow> 's pbft" where
  "set_verifier vo s =
     s\<lparr>pb_ct := (pb_ct s)\<lparr>ct_verifier := vo,
          ct_mm := (ct_mm (pb_ct s))\<lparr>mm_checkpoint := (mm_checkpoint (ct_mm (pb_ct s)))\<lparr>cm_verifier := vo\<rparr>\<rparr>\<rparr>,
       pb_vc := (pb_vc s)\<lparr>vc_verifier := vo\<rparr>, pb_rm := map_option (rm_verifier_update (\<lambda>_. vo)) (pb_rm s),
       pb_pm := map_option (pm_verifier_update (\<lambda>_. vo)) (pb_pm s)\<rparr>"

definition ReplicaExisted :: "replica_info \<Rightarrow> replica_info list \<Rightarrow> bool" where
  "ReplicaExisted info replicas = (\<exists>rep \<in> set replicas. rep_id rep = rep_id info)"

definition GetAllReplicas :: "'s node \<Rightarrow> replica_info list" where
  "GetAllReplicas s = concat (map rg_replica_info (cd_region (cf_config_data (nd_config s))))"

section \<open>Heart beats\<close>

text \<open>Reading the version of a node through \<open>operator[]\<close> adds it.\<close>

definition touch :: "int \<Rightarrow> (int, uint64) std_map \<Rightarrow> (int, uint64) std_map" where
  "touch k hb = sm_put k (sm_get 0 k hb) hb"

definition SendHeartBeat :: "node_codec \<Rightarrow> 's node \<Rightarrow> ('s node \<times> node_out list) option" where
  "SendHeartBeat K s =
     (case nd_verifier s of
        None \<Rightarrow> None
      | Some sv \<Rightarrow>
          let keys = GetAllPublicKeys sv; self = cf_self_info (nd_config s);
              ids = map (\<lambda>k. i32 (ck_node_id (ce_public_key_info k))) keys;
              replica = (cf_node_kind (nd_config s) = REPLICA);
              hb = \<lparr>hi_public_keys = keys, hi_node_version = map (\<lambda>i. sint (sm_get 0 i (nd_hb s))) ids,
                    hi_primary = (if replica then pbft_GetPrimary (nd_pbft s) else 0),
                    hi_version = (if replica then ucast (pbft_GetVersion (nd_pbft s)) else 0),
                    hi_sender = i32 (rep_id self), hi_ip = rep_ip self, hi_port = rep_port self, hi_hb_version = sint (nd_version s)\<rparr>;
              r = empty_request\<lparr>rq_type := TYPE_HEART_BEAT, rq_region_id := cd_self_region_id (cf_config_data (nd_config s)),
                    rq_data := nk_ser_heart_beat K hb\<rparr>
          in Some (s\<lparr>nd_hb := fold touch ids (nd_hb s)\<rparr>, [NetHeartBeat r (GetAllReplicas s @ nd_clients s)]))"

text \<open>The loop over the keys of a heart beat: the verifier, the known clients and the number of replicas.\<close>

fun learn_heart_beat ::
  "crypto \<Rightarrow> bool \<Rightarrow> certificate_key list \<Rightarrow> signature_verifier option \<times> replica_info list \<times> int
     \<Rightarrow> signature_verifier option \<times> replica_info list \<times> int" where
  "learn_heart_beat C same_region [] acc = acc"
| "learn_heart_beat C same_region (pk # pks) (vo, clients, replica_num) =
     (let (ok, vo1) = (case vo of None \<Rightarrow> (True, None)
                                | Some sv \<Rightarrow> (let (b, sv1) = AddPublicKey C sv pk True in (b, Some sv1)));
          info = ce_public_key_info pk;
          rep = \<lparr>rep_id = ck_node_id info, rep_ip = ck_ip info, rep_port = ck_port info\<rparr>;
          acc = (if \<not> ok \<or> \<not> same_region \<or> ck_ip info = [] then (vo1, clients, replica_num)
                 else if ck_type info = REPLICA then (vo1, clients, i32 (replica_num + 1))
                 else (vo1, if ReplicaExisted rep clients then clients else clients @ [rep], replica_num))
      in learn_heart_beat C same_region pks acc)"

text \<open>What a heart beat changes before it is answered, and the number of replicas it has.\<close>

definition heart_beat_state :: "crypto \<Rightarrow> request \<Rightarrow> heart_beat_info \<Rightarrow> 's node \<Rightarrow> 's node \<times> int" where
  "heart_beat_state C r hb s =
     (let cfg = nd_config s; same_region = (rq_region_id r = cd_self_region_id (cf_config_data cfg));
          pb1 = (if same_region \<and> cf_node_kind cfg = CLIENT
                 then pbft_SetPrimary (hi_primary hb) (hi_version hb) (nd_pbft s) else nd_pbft s);
          (vo, clients, n) = learn_heart_beat C same_region (hi_public_keys hb) (nd_verifier s, nd_clients s, 0)
      in (s\<lparr>nd_pbft := (if vo = None then pb1 else set_verifier vo pb1), nd_verifier := vo, nd_clients := clients,
            nd_hb := touch (hi_sender hb) (nd_hb s)\<rparr>, n))"

definition answer_heart_beat :: "node_codec \<Rightarrow> heart_beat_info \<Rightarrow> 's node \<Rightarrow> ('s node \<times> node_out list) option" where
  "answer_heart_beat K hb s =
     (if hi_ip hb \<noteq> [] \<and> hi_hb_version hb > 0 \<and> sm_get 0 (hi_sender hb) (nd_hb s) \<noteq> word_of_int (hi_hb_version hb)
      then SendHeartBeat K (s\<lparr>nd_hb := sm_put (hi_sender hb) (word_of_int (hi_hb_version hb)) (nd_hb s)\<rparr>)
      else Some (s, []))"

definition ProcessHeartBeat ::
  "crypto \<Rightarrow> node_codec \<Rightarrow> request \<Rightarrow> 's node \<Rightarrow> (int \<times> 's node \<times> node_out list) option" where
  "ProcessHeartBeat C K r s =
     (case nk_parse_heart_beat K (rq_data r) of
        None \<Rightarrow> Some (-1, s, [])
      | Some hb \<Rightarrow>
          let (s1, n) = heart_beat_state C r hb s
          in map_option (\<lambda>(s2, out). (0, s2\<lparr>nd_is_ready := (nd_is_ready s2 \<or> GetMinDataReceiveNum (nd_config s) \<le> n)\<rparr>, out))
               (answer_heart_beat K hb s1))"

section \<open>Packets\<close>

definition node_Dispatch ::
  "(nat \<Rightarrow> pbft_env) \<Rightarrow> node_codec \<Rightarrow> net_context \<Rightarrow> request \<Rightarrow> 's node \<Rightarrow> (int \<times> 's node \<times> node_out list) option" where
  "node_Dispatch Ps K cx r s =
     (if rq_type r = TYPE_HEART_BEAT then ProcessHeartBeat (en_crypto (pe_env (Ps 0))) K r s
      else map_option (\<lambda>(ret, pb, out). (ret, s\<lparr>nd_pbft := pb\<rparr>, map NetMsg out)) (ConsensusCommit Ps cx r (nd_pbft s)))"

definition node_Process ::
  "(nat \<Rightarrow> pbft_env) \<Rightarrow> node_codec \<Rightarrow> net_context \<Rightarrow> string \<Rightarrow> 's node \<Rightarrow> (int \<times> 's node \<times> node_out list) option" where
  "node_Process Ps K cx bytes s =
     (case nk_parse_message K bytes of
        None \<Rightarrow> Some (-1, s, [])
      | Some (data, sg) \<Rightarrow>
          (case nk_parse_request K data of
             None \<Rightarrow> Some (-1, s, [])
           | Some r \<Rightarrow>
               if rq_type r = TYPE_HEART_BEAT then node_Dispatch Ps K cx r s
               else if (case (sg, nd_verifier s) of
                          (Some g, Some sv) \<Rightarrow> \<not> VerifyMessage (en_crypto (pe_env (Ps 0))) sv data g
                        | _ \<Rightarrow> False)
               then Some (-2, s, [])
               else node_Dispatch Ps K (cx\<lparr>cx_signature := (case sg of None \<Rightarrow> empty_signature | Some g \<Rightarrow> g)\<rparr>) r s))"

section \<open>Keys\<close>

definition new_manager_verifier ::
  "crypto \<Rightarrow> resdb_config \<Rightarrow> key_info \<Rightarrow> int \<Rightarrow> key_info \<Rightarrow> certificate_key \<Rightarrow> signature_verifier option" where
  "new_manager_verifier C cfg private i admin own =
     (if cf_signature_verifier_enabled cfg then Some (new_verifier C private i admin own) else None)"

lemma learn_heart_beat_keys:
  assumes "learn_heart_beat C b pks (Some sv, clients, n) = (vo, clients', n')" "verifier_inv C own sv"
  shows "\<exists>sv'. vo = Some sv' \<and> verifier_inv C own sv' \<and> sv_admin_public_key sv' = sv_admin_public_key sv"
  using assms
proof (induction pks arbitrary: sv clients n)
  case (Cons pk pks)
  obtain ok sv1 where a: "AddPublicKey C sv pk True = (ok, sv1)" by fastforce
  then have sv1: "verifier_inv C own sv1" "sv_admin_public_key sv1 = sv_admin_public_key sv"
    using AddPublicKey_inv [OF Cons.prems(2), of pk] by (auto simp: AddPublicKey_def split: if_splits)
  let ?info = "ce_public_key_info pk"
  let ?rep = "\<lparr>rep_id = ck_node_id ?info, rep_ip = ck_ip ?info, rep_port = ck_port ?info\<rparr>"
  let ?skip = "\<not> ok \<or> \<not> b \<or> ck_ip ?info = []"
  let ?clients = "if ?skip \<or> ck_type ?info = REPLICA \<or> ReplicaExisted ?rep clients then clients else clients @ [?rep]"
  let ?n = "if \<not> ?skip \<and> ck_type ?info = REPLICA then i32 (n + 1) else n"
  have "learn_heart_beat C b (pk # pks) (Some sv, clients, n) = learn_heart_beat C b pks (Some sv1, ?clients, ?n)"
    using a by (simp add: Let_def)
  then show ?case using Cons.IH [of sv1 ?clients ?n] Cons.prems(1) sv1 by metis
qed auto

lemma SendHeartBeat_frame: "SendHeartBeat K s = Some (s', out) \<Longrightarrow> nd_pbft s' = nd_pbft s \<and> nd_verifier s' = nd_verifier s"
  by (auto simp: SendHeartBeat_def Let_def split: option.splits)

lemma answer_heart_beat_frame:
  "answer_heart_beat K hb s = Some (s', out) \<Longrightarrow> nd_pbft s' = nd_pbft s \<and> nd_verifier s' = nd_verifier s"
  by (auto simp: answer_heart_beat_def split: if_splits dest: SendHeartBeat_frame)

lemma ProcessHeartBeat_frame:
  assumes "ProcessHeartBeat C K r s = Some (ret, s', out)"
  shows "s' = s \<and> ret = -1 \<or> (\<exists>hb. nk_parse_heart_beat K (rq_data r) = Some hb \<and> ret = 0
    \<and> nd_verifier s' = nd_verifier (fst (heart_beat_state C r hb s)) \<and> nd_pbft s' = nd_pbft (fst (heart_beat_state C r hb s)))"
proof (cases "nk_parse_heart_beat K (rq_data r)")
  case (Some hb)
  obtain s1 n where h: "heart_beat_state C r hb s = (s1, n)" by fastforce
  obtain s2 out' where "answer_heart_beat K hb s1 = Some (s2, out')" "nd_pbft s' = nd_pbft s2" "nd_verifier s' = nd_verifier s2" "ret = 0"
    using assms Some h by (auto simp: ProcessHeartBeat_def)
  then show ?thesis using Some h answer_heart_beat_frame by fastforce
qed (use assms in \<open>simp add: ProcessHeartBeat_def\<close>)

lemma heart_beat_state_keys:
  assumes "nd_verifier s = Some sv" "verifier_inv C own sv"
  shows "\<exists>sv'. nd_verifier (fst (heart_beat_state C r hb s)) = Some sv' \<and> verifier_inv C own sv' \<and> sv_admin_public_key sv' = sv_admin_public_key sv"
proof -
  obtain vo clients n where l: "learn_heart_beat C (rq_region_id r = cd_self_region_id (cf_config_data (nd_config s))) (hi_public_keys hb)
      (Some sv, nd_clients s, 0) = (vo, clients, n)" by (metis prod_cases3)
  have "nd_verifier (fst (heart_beat_state C r hb s)) = vo" using l assms(1) by (simp add: heart_beat_state_def Let_def)
  then show ?thesis using learn_heart_beat_keys [OF l assms(2)] by simp
qed

section \<open>Properties\<close>

fun node_run :: "node_codec \<Rightarrow> ((nat \<Rightarrow> pbft_env) \<times> net_context \<times> string) list \<Rightarrow> 's node \<Rightarrow> ('s node \<times> node_out list) option" where
  "node_run K [] s = Some (s, [])"
| "node_run K ((Ps, cx, bytes) # xs) s =
     Option.bind (node_Process Ps K cx bytes s) (\<lambda>(_, s1, out). map_option (\<lambda>(s2, out'). (s2, out @ out')) (node_run K xs s1))"

lemma node_Process_keys:
  assumes "node_Process Ps K cx bytes s = Some (ret, s', out)" "en_crypto (pe_env (Ps 0)) = C"
    and "nd_verifier s = Some sv" "verifier_inv C own sv"
  shows "\<exists>sv'. nd_verifier s' = Some sv' \<and> verifier_inv C own sv' \<and> sv_admin_public_key sv' = sv_admin_public_key sv"
proof -
  consider "nd_verifier s' = nd_verifier s" | r where "ProcessHeartBeat C K r s = Some (ret, s', out)"
    using assms(1,2) by (auto simp: node_Process_def node_Dispatch_def split: option.splits prod.splits if_splits)
  then show ?thesis
  proof cases
    case 2
    then show ?thesis using ProcessHeartBeat_frame [OF 2] heart_beat_state_keys [OF assms(3,4)] assms(3,4) by auto
  qed (use assms in auto)
qed

lemma node_run_keys:
  assumes "node_run K xs s = Some (s', out)" "\<forall>x \<in> set xs. en_crypto (pe_env (fst x 0)) = C"
    and "nd_verifier s = Some sv" "verifier_inv C own sv"
  shows "\<exists>sv'. nd_verifier s' = Some sv' \<and> verifier_inv C own sv' \<and> sv_admin_public_key sv' = sv_admin_public_key sv"
  using assms
proof (induction xs arbitrary: s sv out)
  case (Cons x xs)
  obtain Ps cx bytes where x: "x = (Ps, cx, bytes)" by (cases x)
  obtain ret s1 out1 out2 where one: "node_Process Ps K cx bytes s = Some (ret, s1, out1)" and rest: "node_run K xs s1 = Some (s', out2)"
    using Cons.prems(1) x by (auto simp: bind_eq_Some_conv)
  have c: "en_crypto (pe_env (Ps 0)) = C" using Cons.prems(2) x by simp
  obtain sv1 where sv1: "nd_verifier s1 = Some sv1" "verifier_inv C own sv1" "sv_admin_public_key sv1 = sv_admin_public_key sv"
    using node_Process_keys [OF one c Cons.prems(3,4)] by blast
  then show ?case using Cons.IH [OF rest _ sv1(1,2)] Cons.prems(2) by auto
qed simp

text \<open>C20: whatever packets arrive, heart beats of anyone included, a node verifies messages only under
  keys that are its own or that the administrator's key certified, each filed under the node it
  belongs to.\<close>

theorem node_keys_certified:
  assumes "node_run K xs s = Some (s', out)" "\<forall>x \<in> set xs. en_crypto (pe_env (fst x 0)) = C"
    and "nd_verifier s = Some (new_verifier C private i admin own)"
    and "nd_verifier s' = Some sv" "VerifyMessage C sv msg info"
  shows "\<exists>pk. (pk = own \<or> VerifyWithKey C (cr_serialize_key C (ce_public_key_info pk)) admin (sg_signature (ce_certificate pk)))
          \<and> ck_node_id (ce_public_key_info pk) = sg_node_id info
          \<and> VerifyWithKey C msg (ck_key (ce_public_key_info pk)) (sg_signature info)"
proof -
  have inv: "verifier_inv C own sv" and adm: "sv_admin_public_key sv = admin"
    using node_run_keys [OF assms(1-3) verifier_inv_new] assms(4) by (auto simp: new_verifier_def AddPublicKey_def)
  obtain pk where pk: "sm_find (sg_node_id info) (sv_keys sv) = Some pk"
    and ok: "VerifyWithKey C msg (ck_key (ce_public_key_info pk)) (sg_signature info)"
    using assms(5) by (auto simp: VerifyMessage_def GetPublicKey_def split: if_splits option.splits)
  from inv sm_find_in_set [OF pk] have "ck_node_id (ce_public_key_info pk) = sg_node_id info \<and> (pk = own \<or> certified C sv pk)"
    by (auto simp: verifier_inv_def)
  then show ?thesis using ok adm by (auto simp: certified_def VerifyKey_def)
qed

text \<open>C21: a packet other than a heart beat with a signature that does not verify changes nothing. A packet
  other than a heart beat without a signature is not checked, but whenever the request in it is one of the
  four of the normal case, the dispatcher drops it, at once or after a view change, without an effect.
  Heart beats are handled before the check; \<open>forged_heart_beat_pins_primary\<close> shows what one can do.\<close>

theorem unverified_packet_without_effect:
  assumes "nk_parse_message K bytes = Some (data, sg)" "nk_parse_request K data = Some r" "rq_type r \<noteq> TYPE_HEART_BEAT"
  shows "(case sg of
      Some g \<Rightarrow> \<forall>sv. nd_verifier s = Some sv \<and> \<not> VerifyMessage (en_crypto (pe_env (Ps 0))) sv data g
                 \<longrightarrow> node_Process Ps K cx bytes s = Some (-2, s, [])
    | None \<Rightarrow> node_Process Ps K cx bytes s = node_Dispatch Ps K (cx\<lparr>cx_signature := empty_signature\<rparr>) r s
        \<and> (rq_type r \<in> held_types \<longrightarrow> (\<forall>P t. InternalConsensusCommit P (cx\<lparr>cx_signature := empty_signature\<rparr>) r t
             = Some (-2, t :: 's pbft, []))))"
proof (cases sg)
  case None
  have h: "\<not> has_signature (Some (cx\<lparr>cx_signature := empty_signature\<rparr>))" by (simp add: has_signature_def empty_signature_def)
  have "InternalConsensusCommit P (cx\<lparr>cx_signature := empty_signature\<rparr>) r t = Some (-2, t, [])" if "rq_type r \<in> held_types" for P and t :: "'s pbft"
    using that h by (auto simp: held_types_def InternalConsensusCommit_def new_txns_def on_commitment_def ProcessNewRequest_def
        ProcessProposeMsg_def ProcessPrepareMsg_def ProcessCommitMsg_def)
  then show ?thesis using None assms by (simp add: node_Process_def)
next
  case (Some g)
  then show ?thesis using assms by (simp add: node_Process_def)
qed

text \<open>One packet can pin the primary that a client uses. A heart beat is not checked for a signature:
  one of the client's region with the greatest version makes the client take the primary it names,
  and no later heart beat changes it.\<close>

theorem forged_heart_beat_pins_primary:
  assumes "nk_parse_message K bytes = Some (data, sg)" "nk_parse_request K data = Some r" "rq_type r = TYPE_HEART_BEAT"
    and "nk_parse_heart_beat K (rq_data r) = Some hb" "hi_version hb = - 1" "hi_ip hb = []"
    and "cf_node_kind (nd_config s) = CLIENT" "rq_region_id r = cd_self_region_id (cf_config_data (nd_config s))"
    and "GetCurrentView (mm_system_info (pb_mm (nd_pbft s))) \<noteq> - 1"
  shows "\<exists>s'. node_Process Ps K cx bytes s = Some (0, s', []) \<and> pbft_GetPrimary (nd_pbft s') = hi_primary hb
    \<and> (\<forall>C r2 ret s2 out. ProcessHeartBeat C K r2 s' = Some (ret, s2, out) \<longrightarrow> pbft_GetPrimary (nd_pbft s2) = hi_primary hb)"
proof -
  let ?C = "en_crypto (pe_env (Ps 0))" and ?s1 = "fst (heart_beat_state (en_crypto (pe_env (Ps 0))) r hb s)"
  have keep: "pb_mm (set_verifier vo p) = (pb_mm p)\<lparr>mm_checkpoint := (mm_checkpoint (pb_mm p))\<lparr>cm_verifier := vo\<rparr>\<rparr>" for vo and p :: "'s pbft"
    by (simp add: set_verifier_def pb_mm_def)
  obtain vo clients n where l: "learn_heart_beat ?C True (hi_public_keys hb) (nd_verifier s, nd_clients s, 0) = (vo, clients, n)"
    by (metis prod_cases3)
  have "GetCurrentView (mm_system_info (pb_mm (nd_pbft s))) < - 1" using assms(9) by (metis word_order.not_eq_extremum)
  then have set: "mm_system_info (pb_mm (pbft_SetPrimary (hi_primary hb) (- 1) (nd_pbft s)))
      = SetPrimary (hi_primary hb) (SetCurrentView (- 1) (mm_system_info (pb_mm (nd_pbft s))))"
    by (simp add: pbft_SetPrimary_def Let_def set_mm_def pb_mm_def)
  have info: "mm_system_info (pb_mm (nd_pbft ?s1)) = SetPrimary (hi_primary hb) (SetCurrentView (- 1) (mm_system_info (pb_mm (nd_pbft s))))"
    using l assms(5,7,8) set by (simp add: heart_beat_state_def Let_def keep)
  obtain s' where s': "ProcessHeartBeat ?C K r s = Some (0, s', [])" "nd_pbft s' = nd_pbft ?s1"
    using assms(4,6) by (cases "heart_beat_state ?C r hb s") (auto simp: ProcessHeartBeat_def answer_heart_beat_def)
  have later: "pbft_GetPrimary (nd_pbft s2) = hi_primary hb" if later: "ProcessHeartBeat C K r2 s' = Some (ret, s2, out)" for C r2 ret s2 out
  proof -
    have top: "pbft_SetPrimary p v (nd_pbft s') = nd_pbft s'" for p v
      using info s'(2) by (simp add: pbft_SetPrimary_def Let_def GetCurrentView_def SetPrimary_def SetCurrentView_def)
    have "mm_system_info (pb_mm (nd_pbft (fst (heart_beat_state C r2 hb2 s')))) = mm_system_info (pb_mm (nd_pbft s'))" for hb2
      using top by (simp add: heart_beat_state_def Let_def keep split: prod.splits)
    then have "mm_system_info (pb_mm (nd_pbft s2)) = mm_system_info (pb_mm (nd_pbft s'))"
      using ProcessHeartBeat_frame [OF later] by auto
    then show ?thesis using info s'(2) by (simp add: pbft_GetPrimary_def GetPrimaryId_def SetPrimary_def)
  qed
  have "node_Process Ps K cx bytes s = Some (0, s', [])" using assms(1-3) s'(1) by (simp add: node_Process_def node_Dispatch_def)
  moreover have "pbft_GetPrimary (nd_pbft s') = hi_primary hb" using info s'(2) by (simp add: pbft_GetPrimary_def GetPrimaryId_def SetPrimary_def)
  ultimately show ?thesis using later by blast
qed

text \<open>A client, a replica, and a codec for a heart beat that names replica 3, for a signed and an unsigned
  PREPARE.\<close>

definition demo_heart_beat :: heart_beat_info where
  "demo_heart_beat = \<lparr>hi_public_keys = [], hi_node_version = [], hi_primary = 3, hi_version = - 1, hi_sender = 0, hi_ip = [],
     hi_port = 0, hi_hb_version = 0\<rparr>"

definition demo_node_codec :: node_codec where
  "demo_node_codec = \<lparr>nk_parse_message = (\<lambda>b. Some (b, if b = ''u'' then None else Some empty_signature)),
     nk_parse_request = (\<lambda>d. Some (empty_request\<lparr>rq_type := (if d = ''b'' then TYPE_HEART_BEAT else TYPE_PREPARE)\<rparr>)),
     nk_parse_heart_beat = (\<lambda>_. Some demo_heart_beat), nk_ser_heart_beat = (\<lambda>_. [])\<rparr>"

definition demo_node :: "node_kind \<Rightarrow> unit node" where
  "demo_node kind = \<lparr>nd_pbft = (demo_pbft [])\<lparr>pb_config := (demo_config [1, 2, 3, 4])\<lparr>cf_node_kind := kind\<rparr>\<rparr>,
     nd_verifier = Some (new_verifier demo_crypto \<lparr>ki_key = ''p'', ki_hash_type = HT_ED25519\<rparr> 1 \<lparr>ki_key = ''A'', ki_hash_type = HT_RSA\<rparr> (demo_key 1 ''p'')),
     nd_clients = [], nd_version = 0, nd_hb = [], nd_is_ready = False\<rparr>"

lemma demo_node_view: "GetCurrentView (mm_system_info (pb_mm (nd_pbft (demo_node kind)))) = 4"
  by (simp add: demo_node_def demo_pbft_def pb_mm_def GetCurrentView_def)

lemma demo_processes:
  "\<exists>s'. node_Process (\<lambda>_. demo_pbft_env) demo_node_codec demo_net ''b'' s = Some (0, s', []) \<and> nd_verifier s' = nd_verifier s"
  by (simp add: node_Process_def node_Dispatch_def demo_node_codec_def ProcessHeartBeat_def heart_beat_state_def answer_heart_beat_def
      demo_heart_beat_def Let_def)

theorem forged_heart_beat_pins_primary_witness:
  "\<exists>s'. node_Process (\<lambda>_. demo_pbft_env) demo_node_codec demo_net ''b'' (demo_node CLIENT) = Some (0, s', []) \<and> pbft_GetPrimary (nd_pbft s') = 3"
proof -
  have "\<exists>s'. node_Process (\<lambda>_. demo_pbft_env) demo_node_codec demo_net ''b'' (demo_node CLIENT) = Some (0, s', []) \<and> pbft_GetPrimary (nd_pbft s') = hi_primary demo_heart_beat
    \<and> (\<forall>C r2 ret s2 out. ProcessHeartBeat C demo_node_codec r2 s' = Some (ret, s2, out) \<longrightarrow> pbft_GetPrimary (nd_pbft s2) = hi_primary demo_heart_beat)"
    by (rule forged_heart_beat_pins_primary [where r = "empty_request\<lparr>rq_type := TYPE_HEART_BEAT\<rparr>" and data = "''b''" and sg = "Some empty_signature"])
      (simp_all add: demo_node_view, simp_all add: demo_node_codec_def demo_heart_beat_def nd_config_def demo_node_def demo_config_def empty_request_def)
  then show ?thesis by (auto simp: demo_heart_beat_def)
qed

theorem unverified_packet_without_effect_witness:
  "node_Process (\<lambda>_. demo_pbft_env) demo_node_codec demo_net ''s'' (demo_node REPLICA) = Some (-2, demo_node REPLICA, [])"
proof -
  have "\<not> VerifyMessage (en_crypto (pe_env demo_pbft_env)) sv ''s'' empty_signature" for sv by (simp add: VerifyMessage_def empty_signature_def)
  then show ?thesis
    using unverified_packet_without_effect [where K = demo_node_codec and bytes = "''s''" and data = "''s''" and sg = "Some empty_signature"
        and r = "empty_request\<lparr>rq_type := TYPE_PREPARE\<rparr>" and s = "demo_node REPLICA" and Ps = "\<lambda>_. demo_pbft_env" and cx = demo_net]
    by (simp add: demo_node_codec_def) (simp add: demo_node_def)
qed

theorem node_keys_certified_witness:
  "\<exists>s' sv. node_run demo_node_codec [(\<lambda>_. demo_pbft_env, demo_net, ''b'')] (demo_node CLIENT) = Some (s', []) \<and> nd_verifier s' = Some sv
     \<and> VerifyMessage demo_crypto sv ''m'' \<lparr>sg_hash_type = HT_ED25519, sg_node_id = 1, sg_signature = ''pm''\<rparr>
     \<and> (\<exists>pk :: certificate_key. ck_node_id (ce_public_key_info pk) = 1 \<and> VerifyWithKey demo_crypto ''m'' (ck_key (ce_public_key_info pk)) ''pm'')"
proof -
  let ?sv = "new_verifier demo_crypto \<lparr>ki_key = ''p'', ki_hash_type = HT_ED25519\<rparr> 1 \<lparr>ki_key = ''A'', ki_hash_type = HT_RSA\<rparr> (demo_key 1 ''p'')"
  let ?g = "\<lparr>sg_hash_type = HT_ED25519, sg_node_id = 1, sg_signature = ''pm''\<rparr>"
  have own: "nd_verifier (demo_node CLIENT) = Some ?sv" by (simp add: demo_node_def)
  obtain s' where p: "node_Process (\<lambda>_. demo_pbft_env) demo_node_codec demo_net ''b'' (demo_node CLIENT) = Some (0, s', [])"
    and v: "nd_verifier s' = Some ?sv" using demo_processes [of "demo_node CLIENT"] own by auto
  then have run: "node_run demo_node_codec [(\<lambda>_. demo_pbft_env, demo_net, ''b'')] (demo_node CLIENT) = Some (s', [])" by simp
  have ok: "VerifyMessage demo_crypto ?sv ''m'' ?g"
    by (simp add: VerifyMessage_def GetPublicKey_def new_verifier_def AddPublicKey_def demo_key_def VerifyWithKey_def demo_crypto_def)
  have "\<exists>pk :: certificate_key. ck_node_id (ce_public_key_info pk) = 1 \<and> VerifyWithKey demo_crypto ''m'' (ck_key (ce_public_key_info pk)) ''pm''"
    using node_keys_certified [OF run _ own v ok] by (simp add: demo_pbft_env_def demo_env_def) blast
  then show ?thesis using run v ok by blast
qed

end
