(* ===== verification/Replica_Defined.thy ===== *)
theory Replica_Defined
  imports Consensus_PBFT
begin

text \<open>
  Messages that cannot bring a replica into undefined behaviour. A replica with a verifier that was
  started without a log handles every sequence of messages of the types below to the end, whatever they
  contain: no null pointer is followed, no index is out of range and no loop runs on. Left out are the
  responses, queries, VIEW-CHANGE and NEW-VIEW messages, for which the code has contents that do lead to
  undefined behaviour or a loop without end, and votes with a sender id outside the 128 bits of
  \<open>senders_\<close>.
\<close>

section \<open>Collectors\<close>

text \<open>The main request is there until it is handed to the executor.\<close>

definition co_ok :: "collector \<Rightarrow> bool" where
  "co_ok c \<longleftrightarrow> co_is_committed c \<or> co_status c = EXECUTED
     \<or> (\<forall>mi. aup_Reference (co_main c) = Some mi \<longrightarrow> ri_request mi \<noteq> None)"

definition vote_sender_ok :: "request \<Rightarrow> bool" where
  "vote_sender_ok r \<longleftrightarrow> 0 \<le> rq_sender_id r \<and> rq_sender_id r < 128"

lemma aup_sel:
  "aup_Reference (aup_Clear p) = None"
  "aup_Set x p = (ok, p') \<Longrightarrow> ok \<Longrightarrow> aup_Reference p' = Some x"
  "aup_Reference (snd (aup_Set x (aup_Clear p))) = Some x"
  by (auto simp: aup_Reference_def aup_Clear_def aup_Set_def split: if_splits)

lemma AddMainRequest_returns:
  assumes "co_ok c" "\<not> co_is_committed c" "co_status c \<noteq> EXECUTED"
  shows "\<exists>y c'. AddMainRequest pos cb r sig c = Some y \<and> co_ok (fst (snd y))"
proof -
  define c1 where "c1 = (if co_view c \<noteq> 0 \<and> co_view c < rq_current_view r \<and> \<not> co_is_prepared c
    then c\<lparr>co_main := aup_Clear (co_main c)\<rparr> else c)"
  obtain ok main where m: "aup_Set \<lparr>ri_request = Some r, ri_signature = sig\<rparr> (co_main c1) = (ok, main)" by fastforce
  have c1: "\<forall>mi. aup_Reference (co_main c1) = Some mi \<longrightarrow> ri_request mi \<noteq> None"
    using assms by (auto simp: c1_def co_ok_def aup_sel)
  show ?thesis
  proof (cases ok)
    case True
    then show ?thesis using m aup_sel(2) [OF m]
      by (auto simp: AddMainRequest_def Let_def c1_def [symmetric] co_ok_def split: prod.splits)
  next
    case False
    then show ?thesis using m c1
      by (auto simp: AddMainRequest_def Let_def c1_def [symmetric] co_ok_def split: prod.splits)
  qed
qed

lemma adopt_main_returns:
  assumes "\<forall>mi. aup_Reference (co_main c) = Some mi \<longrightarrow> ri_request mi \<noteq> None"
  shows "\<exists>c'. adopt_main hash c = Some c' \<and> (\<forall>mi. aup_Reference (co_main c') = Some mi \<longrightarrow> ri_request mi \<noteq> None)"
proof (cases "aup_Reference (co_main c)")
  case None
  then show ?thesis by (simp add: adopt_main_def)
next
  case (Some mi)
  then obtain m where m: "ri_request mi = Some m" using assms by auto
  let ?f = "List.find (\<lambda>i. map_option rq_hash (ri_request i) = Some hash) (co_other_main c)"
  have found: "ri_request i \<noteq> None" if "?f = Some i" for i using that by (auto simp: find_Some_iff)
  show ?thesis using Some m found assms
    by (cases ?f) (auto simp: adopt_main_def Let_def aup_sel)
qed

lemma AddPrepare_returns:
  assumes "co_ok c" "\<not> co_is_committed c" "co_status c \<noteq> EXECUTED" "vote_sender_ok r"
  shows "\<exists>y. AddPrepare cb r sig c = Some y \<and> co_ok (fst (snd y))"
proof (cases "statue_val (co_status c) \<le> statue_val READY_PREPARE \<and> \<not> co_is_prepared c")
  case True
  define c1 where "c1 = c\<lparr>co_prepared_proof := co_prepared_proof c @ [\<lparr>ri_request = Some r, ri_signature = sig\<rparr>],
      co_senders := add_sender r (co_senders c)\<rparr>"
  have rec: "record_sender r (c\<lparr>co_prepared_proof := co_prepared_proof c @ [\<lparr>ri_request = Some r, ri_signature = sig\<rparr>]\<rparr>) = Some c1"
    using assms(4) by (simp add: record_sender_def vote_sender_ok_def c1_def)
  obtain st res where cb: "cb r (received_count r c1) (co_status c1) False = (st, res)" by fastforce
  have main: "\<forall>mi. aup_Reference (co_main (c1\<lparr>co_status := st, co_is_prepared := True\<rparr>)) = Some mi \<longrightarrow> ri_request mi \<noteq> None"
    using assms(1-3) by (simp add: co_ok_def c1_def)
  obtain c3 where c3: "adopt_main (rq_hash r) (c1\<lparr>co_status := st, co_is_prepared := True\<rparr>) = Some c3"
    "\<forall>mi. aup_Reference (co_main c3) = Some mi \<longrightarrow> ri_request mi \<noteq> None"
    using adopt_main_returns [OF main] by blast
  show ?thesis
  proof (cases "st = READY_COMMIT")
    case True
    have "AddPrepare cb r sig c =
        Some (0, c3\<lparr>co_prepared_proof := filter_proof (rq_hash r) (co_prepared_proof c3)\<rparr>, Some res, None)"
      using \<open>_ \<and> \<not> co_is_prepared c\<close> rec cb c3(1) True by (simp add: AddPrepare_def)
    then show ?thesis using c3(2) by (simp add: co_ok_def)
  next
    case False
    have "AddPrepare cb r sig c = Some (0, c1\<lparr>co_status := st\<rparr>, Some res, None)"
      using \<open>_ \<and> \<not> co_is_prepared c\<close> rec cb False by (simp add: AddPrepare_def)
    then show ?thesis using main by (simp add: co_ok_def)
  qed
next
  case False
  then show ?thesis using assms(1) by (auto simp: AddPrepare_def)
qed

lemma CollectorCommit_ok: "co_status c = READY_EXECUTE \<Longrightarrow> co_ok (fst (snd (CollectorCommit c)))"
  by (simp add: CollectorCommit_def Let_def co_ok_def split: option.split)

lemma AddVote_returns:
  assumes "co_ok c" "\<not> co_is_committed c" "co_status c \<noteq> EXECUTED" "vote_sender_ok r"
  shows "\<exists>y. AddVote cb r sig c = Some y \<and> co_ok (fst (snd y))"
proof -
  define c0 where "c0 = (if rq_type r = TYPE_COMMIT \<and> rq_data_signature r \<noteq> None \<and> 0 < sg_node_id (data_signature r)
    then c\<lparr>co_commit_certs := co_commit_certs c @ [data_signature r]\<rparr> else c)"
  define c1 where "c1 = c0\<lparr>co_senders := add_sender r (co_senders c0)\<rparr>"
  have rec: "record_sender r c0 = Some c1" using assms(4) by (simp add: record_sender_def vote_sender_ok_def c1_def)
  obtain st res where cb: "cb r (received_count r c1) (co_status c1) False = (st, res)" by fastforce
  obtain k c3 out where cc: "CollectorCommit (c1\<lparr>co_status := st\<rparr>) = (k, c3, out)" by (metis prod_cases3)
  have "co_ok (c1\<lparr>co_status := st\<rparr>)" using assms(1-3) by (auto simp: co_ok_def c1_def c0_def)
  moreover have "st = READY_EXECUTE \<Longrightarrow> co_ok c3" using CollectorCommit_ok [of "c1\<lparr>co_status := st\<rparr>"] cc by simp
  moreover have "AddVote cb r sig c = (if st = READY_EXECUTE then Some (1, c3, Some res, out)
      else Some (0, c1\<lparr>co_status := st\<rparr>, Some res, None))"
    by (simp only: AddVote_def Let_def c0_def [symmetric] rec cb cc option.case prod.case)
  ultimately show ?thesis by simp
qed

lemma AddRequest_returns:
  assumes "co_ok c" "is_main \<or> vote_sender_ok r"
  obtains ret c' res out where "AddRequest pos cb (Some r) sig is_main c = Some (ret, c', res, out)" "co_ok c'"
proof -
  have "\<exists>y. AddRequest pos cb (Some r) sig is_main c = Some y \<and> co_ok (fst (snd y))"
  proof (cases "co_is_committed c \<or> co_status c = EXECUTED \<or> co_seq c \<noteq> rq_seq r")
    case True
    then show ?thesis using assms(1) by (auto simp: AddRequest_def)
  next
    case False
    then show ?thesis using assms AddMainRequest_returns [of c pos cb r sig] AddPrepare_returns [of c r cb sig]
        AddVote_returns [of c r cb sig] by (auto simp: AddRequest_def)
  qed
  then show thesis using that by (metis fst_conv snd_conv prod_cases4)
qed

section \<open>Consensus messages\<close>

definition mm_ok :: "'s message_manager \<Rightarrow> bool" where
  "mm_ok m \<longleftrightarrow> (\<forall>seq. GetCollector seq (mm_pool m) \<noteq> None) \<and> (\<forall>c \<in> set (po_collector (mm_pool m)). co_ok c)
     \<and> word_of_int (cf_checkpoint_water_mark (cm_config (mm_checkpoint m))) \<noteq> (0::uint64)"

lemma mm_ok_frame [simp]:
  "mm_ok (SetNextSeq k m) = mm_ok m" "mm_ok (mm_SetHighestPreparedSeq k m) = mm_ok m"
  "mm_ok (SendResponse now r m) = mm_ok m" "mm_ok (mm_SetDuplicateManager d m) = mm_ok m"
  "mm_ok (m\<lparr>mm_next_seq := k\<rparr>) = mm_ok m" "mm_ok (m\<lparr>mm_system_info := si\<rparr>) = mm_ok m"
  by (simp_all add: mm_ok_def SetNextSeq_def mm_SetHighestPreparedSeq_def SetHighestPreparedSeq_def SendResponse_def Let_def
      mm_SetDuplicateManager_def)

lemma GetCollector_SetCollector_None [simp]:
  "GetCollector seq (SetCollector k c p) = None \<longleftrightarrow> GetCollector seq p = None"
  by (simp add: GetCollector_def SetCollector_def pool_idx_def Let_def)

lemma AddConsensusMsg_defined:
  assumes "mm_ok m" "rq_type r = TYPE_PRE_PREPARE \<or> vote_sender_ok r"
  shows "\<exists>code m'. AddConsensusMsg pos now sig (Some r) m = Some (code, m') \<and> mm_ok m'"
proof (cases "IsValidMsg r m")
  case True
  obtain c where c: "GetCollector (rq_seq r) (mm_pool m) = Some c" using assms(1) by (auto simp: mm_ok_def)
  then have "co_ok c" using assms(1) by (auto simp: mm_ok_def GetCollector_def Let_def split: if_splits)
  then obtain ret c' res out where a: "AddRequest pos (consensus_cb (mm_config m)) (Some r) sig (rq_type r = TYPE_PRE_PREPARE) c
      = Some (ret, c', res, out)" "co_ok c'" using AddRequest_returns assms(2) by blast
  have "set (po_collector (SetCollector (rq_seq r) c' (mm_pool m))) \<subseteq> insert c' (set (po_collector (mm_pool m)))"
    by (simp add: SetCollector_def set_update_subset_insert)
  then have "mm_ok (m\<lparr>mm_pool := SetCollector (rq_seq r) c' (mm_pool m), mm_executor := e\<rparr>)" for e
    using assms(1) a(2) by (auto simp: mm_ok_def)
  moreover have "mm_ok (SetLastCommittedTime p t x) = mm_ok x" for p t and x :: "'a message_manager"
    by (simp add: SetLastCommittedTime_def mm_ok_def)
  ultimately show ?thesis using True c a(1) by (simp add: AddConsensusMsg_def Let_def)
next
  case False
  then show ?thesis using assms(1) by (simp add: AddConsensusMsg_def)
qed

lemma add_msg_defined:
  assumes "mm_ok (ct_mm s)" "rq_type r = TYPE_PRE_PREPARE \<or> vote_sender_ok r"
  obtains code s' where "add_msg E sig r s = Some (code, s')" "mm_ok (ct_mm s')"
  using AddConsensusMsg_defined [OF assms, of "en_pos E" "en_now E" sig] by (force simp: add_msg_def)

text \<open>A call of a handler that returns, and leaves collectors as above behind.\<close>

definition handled :: "'s handler_result \<Rightarrow> bool" where
  "handled x \<longleftrightarrow> (\<exists>ret s out. x = Some (ret, s, out) \<and> mm_ok (ct_mm s))"

lemma recovery_msg_defined:
  assumes "mm_ok (ct_mm s)" "rq_type r = TYPE_PRE_PREPARE \<or> vote_sender_ok r"
  shows "handled (recovery_msg E sig r s)"
  by (rule add_msg_defined [OF assms]) (force simp: handled_def recovery_msg_def)

lemma ProcessCommitMsg_defined:
  assumes "mm_ok (ct_mm s)" "vote_sender_ok r"
  shows "handled (ProcessCommitMsg E cx r s)"
proof -
  obtain code s' where "add_msg E (cx_signature (the cx)) r s = Some (code, s')" "mm_ok (ct_mm s')"
    using add_msg_defined assms by blast
  then show ?thesis using assms recovery_msg_defined [OF assms(1), of r] by (simp add: ProcessCommitMsg_def handled_def Let_def)
qed

lemma ProcessPrepareMsg_defined:
  assumes "mm_ok (ct_mm s)" "vote_sender_ok r"
  shows "handled (ProcessPrepareMsg E cx r s)"
proof -
  obtain code s' where "add_msg E (cx_signature (the cx)) r s = Some (code, s')" "mm_ok (ct_mm s')"
    using add_msg_defined assms by blast
  then show ?thesis using assms recovery_msg_defined [OF assms(1), of r] by (simp add: ProcessPrepareMsg_def handled_def Let_def)
qed

lemma check_proposal_defined:
  assumes "mm_ok (ct_mm s)" "ct_verifier s \<noteq> None" "duplicates s \<noteq> None"
  shows "\<exists>b s'. check_proposal E r s = Some (b, s') \<and> mm_ok (ct_mm s')"
  using assms by (auto simp: check_proposal_def set_duplicates_def split: prod.split)

lemma ProcessProposeMsg_defined:
  assumes "mm_ok (ct_mm s)" "ct_verifier s \<noteq> None" "duplicates s \<noteq> None" "rq_type r = TYPE_PRE_PREPARE"
  shows "handled (ProcessProposeMsg E cx r s)"
proof -
  obtain b s1 where c: "check_proposal E r s = Some (b, s1)" "mm_ok (ct_mm s1)" using check_proposal_defined assms(1-3) by blast
  obtain code s' where "add_msg E (cx_signature (the cx)) r s1 = Some (code, s')" "mm_ok (ct_mm s')"
    using add_msg_defined c(2) assms(4) by blast
  moreover have "handled (recovery_msg E sig r (s\<lparr>ct_mm := SetNextSeq k (ct_mm s)\<rparr>))" for sig k
    by (rule recovery_msg_defined) (simp_all add: assms)
  ultimately show ?thesis using assms(1) c by (simp add: ProcessProposeMsg_def handled_def Let_def split: bool.split)
qed

lemma ProcessNewRequest_defined:
  assumes "mm_ok (ct_mm s)" "ct_verifier s \<noteq> None" "duplicates s \<noteq> None"
  shows "handled (ProcessNewRequest E cx r s)"
proof -
  have "handled (propose_request E d r s)" for d using assms(1)
    by (simp add: propose_request_def handled_def Let_def set_duplicates_def AssignNextSeq_def split: prod.split)
  then show ?thesis using assms by (auto simp: ProcessNewRequest_def handled_def split: option.split)
qed

section \<open>The dispatcher\<close>

definition msg_ok :: "request \<Rightarrow> bool" where
  "msg_ok r \<longleftrightarrow> rq_type r \<notin> {TYPE_RESPONSE, TYPE_VIEWCHANGE, TYPE_NEWVIEW, TYPE_QUERY}
     \<and> (rq_type r \<in> {TYPE_PREPARE, TYPE_COMMIT} \<longrightarrow> vote_sender_ok r)"

definition node_ok :: "'s pbft \<Rightarrow> bool" where
  "node_ok s \<longleftrightarrow> pbft_wf s \<and> ct_verifier (pb_ct s) \<noteq> None \<and> mm_ok (pb_mm s)"

lemma node_ok_pointers:
  assumes "node_ok s"
  shows "mm_ok (ct_mm (pb_ct s))" "ct_verifier (pb_ct s) \<noteq> None" "duplicates (pb_ct s) \<noteq> None"
  using assms by (auto simp: node_ok_def pbft_wf_def pb_mm_def)

lemma on_commitment_defined:
  "handled x \<Longrightarrow> \<exists>ret s' out. on_commitment s x = Some (ret, s', out) \<and> mm_ok (pb_mm s')"
  by (auto simp: handled_def on_commitment_def pb_mm_def)

lemma new_txns_defined:
  assumes "node_ok s"
  shows "\<exists>ret s' out. new_txns P cx r s = Some (ret, s', out) \<and> mm_ok (pb_mm s') \<and> ret \<noteq> -4"
proof -
  obtain ret c out where p: "ProcessNewRequest (pe_env P) (Some cx) r (pb_ct s) = Some (ret, c, out)" "mm_ok (ct_mm c)"
    using ProcessNewRequest_defined [OF node_ok_pointers [OF assms], of "pe_env P" "Some cx" r] by (auto simp: handled_def)
  note k = ProcessNewRequest_keeps [OF p(1)]
  have "ct_request_complained (pb_ct s) = []" using assms by (simp add: node_ok_def pbft_wf_def)
  moreover have "snd (AddComplaintTimer E x h (v, ct_mm c)) = ct_mm c" for E x h v by simp
  ultimately show ?thesis using p k
    by (auto simp: new_txns_def AddComplainedRequest_def set_mm_def pb_mm_def Let_def split: prod.split dest: arg_cong [of _ _ snd])
qed

lemma InternalConsensusCommit_defined:
  assumes "node_ok s" "msg_ok r"
  shows "\<exists>ret s' out. InternalConsensusCommit P cx r s = Some (ret, s', out) \<and> node_ok s' \<and> ret \<noteq> -4 \<and> pb_pending s' = pb_pending s"
proof -
  note p = node_ok_pointers [OF assms(1)]
  have "\<exists>ret s' out. InternalConsensusCommit P cx r s = Some (ret, s', out) \<and> mm_ok (pb_mm s') \<and> ret \<noteq> -4"
  proof (cases "rq_type r")
    case TYPE_CLIENT_REQUEST
    then show ?thesis using assms(1)
      by (auto simp: InternalConsensusCommit_def node_ok_def pbft_wf_def on_performance_def on_response_def StartEval_def
          NewUserRequest_def set_mm_def pb_mm_def Let_def)
  next
    case TYPE_NEW_TXNS
    then show ?thesis using new_txns_defined [OF assms(1)] by (simp add: InternalConsensusCommit_def)
  next
    case TYPE_PRE_PREPARE
    then show ?thesis using on_commitment_defined [OF ProcessProposeMsg_defined [OF p TYPE_PRE_PREPARE], of s "pe_env P" "Some cx"]
      by (auto simp: InternalConsensusCommit_def on_commitment_def dest: ProcessProposeMsg_keeps)
  next
    case TYPE_PREPARE
    then have "vote_sender_ok r" using assms(2) by (simp add: msg_ok_def)
    then show ?thesis using TYPE_PREPARE on_commitment_defined [OF ProcessPrepareMsg_defined [OF p(1)], of r s "pe_env P" "Some cx"]
      by (auto simp: InternalConsensusCommit_def on_commitment_def dest: ProcessPrepareMsg_keeps)
  next
    case TYPE_COMMIT
    then have "vote_sender_ok r" using assms(2) by (simp add: msg_ok_def)
    then show ?thesis using TYPE_COMMIT on_commitment_defined [OF ProcessCommitMsg_defined [OF p(1)], of r s "pe_env P" "Some cx"]
      by (auto simp: InternalConsensusCommit_def on_commitment_def dest: ProcessCommitMsg_keeps)
  next
    case TYPE_CHECKPOINT
    have "mm_ok (m\<lparr>mm_checkpoint := add_ckpt_vote d k (mm_checkpoint m)\<rparr>) = mm_ok m" for d k and m :: "'a message_manager"
      by (simp add: mm_ok_def add_ckpt_vote_def Let_def)
    then show ?thesis using TYPE_CHECKPOINT p(1)
      by (auto simp: InternalConsensusCommit_def ProcessCheckPoint_def set_mm_def pb_mm_def Let_def split: option.split)
        (auto simp: mm_ok_def)
  qed (use p(1) assms(2) in \<open>auto simp: InternalConsensusCommit_def msg_ok_def ProcessGetReplicaState_def ProcessCustomQuery_def
      pb_mm_def split: option.split\<close>)
  then obtain ret s' out where d: "InternalConsensusCommit P cx r s = Some (ret, s', out)" "mm_ok (pb_mm s')" "ret \<noteq> -4" by blast
  have wf: "pbft_wf s" using assms(1) by (simp add: node_ok_def)
  then have ok: "dispatch_ok s ret s'" using InternalConsensusCommit_ok [OF d(1)] by (simp add: pbft_wf_def)
  have "node_ok s'" using dispatch_ok_wf [OF ok wf] d(2) ok p(2) by (simp add: node_ok_def dispatch_ok_def ct_keeps_def)
  then show ?thesis using d ok by (auto simp: dispatch_ok_def)
qed

definition pending_ok :: "'s pbft \<Rightarrow> bool" where
  "pending_ok s \<longleftrightarrow> (\<forall>x \<in> set (pb_pending s). msg_ok (snd x))"

lemma commit_each_defined:
  assumes "node_ok s" "\<forall>x \<in> set xs. msg_ok (snd x)"
  shows "\<exists>k s' out. commit_each Ps n xs s = Some (k, s', out) \<and> node_ok s' \<and> pb_pending s' = pb_pending s"
  using assms
proof (induction xs arbitrary: n s)
  case (Cons x xs)
  obtain cx r where x: "x = (cx, r)" by fastforce
  then have "msg_ok r" using Cons.prems(2) by simp
  then obtain ret s1 out1 where d: "InternalConsensusCommit (Ps n) cx r s = Some (ret, s1, out1)" "node_ok s1" "pb_pending s1 = pb_pending s"
    using InternalConsensusCommit_defined [OF Cons.prems(1)] by metis
  then show ?case using Cons.IH [OF d(2), of "Suc n"] Cons.prems(2) x by auto
qed simp

lemma commit_and_drain_defined:
  assumes "node_ok s" "msg_ok r"
  shows "\<exists>ret s' out. commit_and_drain Ps n cx r s = Some (ret, s', out) \<and> node_ok s' \<and> pb_pending s' = pb_pending s"
proof -
  obtain ret s1 out where "InternalConsensusCommit (Ps n) cx r s = Some (ret, s1, out)" "node_ok s1" "ret \<noteq> -4" "pb_pending s1 = pb_pending s"
    using InternalConsensusCommit_defined [OF assms] by metis
  then show ?thesis by (simp add: commit_and_drain_def)
qed

lemma node_ok_frame [simp]:
  "node_ok (arrive P cx r s) = node_ok s" "node_ok s \<Longrightarrow> node_ok (s\<lparr>pb_pending := []\<rparr>)" "node_ok (s\<lparr>pb_recovery := rv\<rparr>) = node_ok s"
  by (simp_all add: node_ok_def pbft_wf_def arrive_def pb_mm_def)

lemma ConsensusCommit_defined:
  assumes "node_ok s" "pending_ok s" "msg_ok r"
  shows "\<exists>ret s' out. ConsensusCommit Ps cx r s = Some (ret, s', out) \<and> node_ok s' \<and> pending_ok s'"
proof (cases "cd_enable_viewchange (cf_config_data (pb_config s))")
  case True
  let ?s = "arrive (Ps 0) cx r s"
  have p: "pb_pending ?s = pb_pending s" by (simp add: arrive_def)
  show ?thesis
  proof (cases "IsInViewChange (pb_vc s)")
    case in_vc: True
    have "rq_type r \<in> held_types \<Longrightarrow> node_ok (AddPendingRequest cx r ?s)"
      using assms(1) by (auto simp: node_ok_def pbft_wf_def AddPendingRequest_def arrive_def pb_mm_def)
    moreover have "pending_ok (AddPendingRequest cx r ?s)"
      using assms(2,3) by (auto simp: pending_ok_def AddPendingRequest_def p)
    moreover obtain ret s1 out where "commit_and_drain Ps 0 cx r ?s = Some (ret, s1, out)" "node_ok s1" "pb_pending s1 = pb_pending ?s"
      using commit_and_drain_defined [of ?s r] assms(1,3) by (metis node_ok_frame(1))
    ultimately show ?thesis using in_vc assms(2) p by (simp add: ConsensusCommit_arrive [OF True] pending_ok_def)
  next
    case False
    have "node_ok (?s\<lparr>pb_pending := []\<rparr>)" using assms(1) by simp
    then obtain k s1 out where e: "commit_each Ps 0 (pb_pending s) (?s\<lparr>pb_pending := []\<rparr>) = Some (k, s1, out)" "node_ok s1" "pb_pending s1 = []"
      using commit_each_defined [of "?s\<lparr>pb_pending := []\<rparr>" "pb_pending s" Ps 0] assms(2) by (auto simp: pending_ok_def)
    obtain ret s2 out' where "commit_and_drain Ps k cx r s1 = Some (ret, s2, out')" "node_ok s2" "pb_pending s2 = []"
      using commit_and_drain_defined [OF e(2) assms(3)] e(3) by metis
    then show ?thesis using False e(1) by (simp add: ConsensusCommit_arrive [OF True] pending_ok_def)
  qed
next
  case False
  let ?s = "s\<lparr>pb_recovery := recovery_AddRequest (pe_rec (Ps 0)) (Some cx) r (pb_recovery s)\<rparr>"
  have "node_ok ?s" using assms(1) by simp
  then obtain ret s1 out where "commit_and_drain Ps 0 cx r ?s = Some (ret, s1, out)" "node_ok s1" "pb_pending s1 = pb_pending ?s"
    using commit_and_drain_defined [of ?s r] assms(3) by metis
  then show ?thesis using False assms(2) by (simp add: ConsensusCommit_def pending_ok_def)
qed

lemma receive_all_defined:
  assumes "node_ok s" "pending_ok s" "\<forall>(Ps, cx, r) \<in> set ms. msg_ok r"
  shows "\<exists>s' out. receive_all ms s = Some (s', out) \<and> node_ok s'"
  using assms
proof (induction ms arbitrary: s)
  case (Cons x ms)
  obtain Ps cx r where x: "x = (Ps, cx, r)" by (cases x)
  then have "msg_ok r" using Cons.prems(3) by simp
  then obtain ret s1 out where c: "ConsensusCommit Ps cx r s = Some (ret, s1, out)" "node_ok s1" "pending_ok s1"
    using ConsensusCommit_defined [OF Cons.prems(1,2)] by blast
  have "\<exists>s' out. receive_all ms s1 = Some (s', out) \<and> node_ok s'" using Cons.IH [OF c(2,3)] Cons.prems(3) by simp
  then show ?case using c(1) x by auto
qed simp

section \<open>The start\<close>

lemma new_message_manager_ok:
  assumes "unat (GetMaxProcessTxn cfg) < 2 ^ 29" "word_of_int (cf_checkpoint_water_mark cfg) \<noteq> (0::uint64)"
  obtains m where "new_message_manager cfg tm db (new_checkpoint_manager cfg verifier) si = Some m" "mm_config m = cfg" "mm_ok m"
proof -
  obtain j p where p: "new_pool (GetMaxProcessTxn cfg) True (cd_enable_viewchange (cf_config_data cfg)) = Some p" "pool_wf j p"
    "\<forall>s < 2 ^ Suc j. po_collector p ! s = new_collector (of_nat s) True (cd_enable_viewchange (cf_config_data cfg))"
    using new_pool_wf [OF assms(1)] by metis
  have "length (po_collector p) = 2 ^ Suc j" using p(2) by (simp add: pool_wf_def)
  then have "\<forall>c \<in> set (po_collector p). co_ok c"
    using p(3) by (auto simp: in_set_conv_nth co_ok_def new_collector_def aup_Reference_def aup_new_def)
  then show thesis using p(1) GetCollector_wf [OF p(2)] assms(2)
    by (intro that) (auto simp: new_message_manager_def mm_ok_def new_checkpoint_manager_def split: if_splits)
qed


text \<open>Replica 1 of four: a new request, a proposal, votes and a checkpoint message.\<close>

definition demo_start :: resdb_config where
  "demo_start = (demo_config [1, 2, 3, 4])
     \<lparr>cf_config_data := (cf_config_data (demo_config [1, 2, 3, 4]))\<lparr>cd_recovery_enabled := False\<rparr>\<rparr>"

definition demo_received :: "((nat \<Rightarrow> pbft_env) \<times> net_context \<times> request) list" where
  "demo_received = map (\<lambda>t. (\<lambda>_. demo_pbft_env, demo_net, empty_request\<lparr>rq_type := t, rq_seq := 1, rq_sender_id := 1\<rparr>))
     [TYPE_NEW_TXNS, TYPE_PRE_PREPARE, TYPE_PREPARE, TYPE_COMMIT, TYPE_CHECKPOINT]"


end
