(* ===== verification/Geo_Executor.thy ===== *)
theory Geo_Executor
  imports Executor System_Info "HOL-Library.Sublist"
begin

text \<open>
  The two executors of GeoPBFT. \<open>GeoTransactionExecutor\<close>
  (platform/consensus/execution/geo_transaction_executor.cpp) is the transaction manager of the
  local PBFT: it shares every committed batch with the other regions. \<open>GeoGlobalExecutor\<close>
  (platform/consensus/execution/geo_global_executor.cpp) executes one batch of every region for
  every sequence number, in the order of the region ids.

  The two threads are step functions, one per iteration of the outer loop; a queue whose \<open>Pop\<close> times
  out is the empty list. Whether a message reaches a replica is a parameter, as are the codecs.
\<close>

section \<open>Sharing the batches of a region\<close>

record geo_local =
  gl_config :: resdb_config
  gl_system_info :: system_info
  gl_queue :: "request list"
  gl_batch_size :: nat

definition new_geo_local :: "resdb_config \<Rightarrow> system_info \<Rightarrow> geo_local" where
  "new_geo_local cfg si = \<lparr>gl_config = cfg, gl_system_info = si, gl_queue = [], gl_batch_size = 50\<rparr>"

text \<open>The hash is taken before the data is set: it covers the sequence number and the region only.\<close>

definition geo_request ::
  "crypto \<Rightarrow> (batch_user_request \<Rightarrow> string) \<Rightarrow> resdb_config \<Rightarrow> batch_user_request \<Rightarrow> request" where
  "geo_request C ser cfg b =
     (let r = NewRegionRequest TYPE_GEO_REQUEST empty_request (rep_id (cf_self_info cfg))
                (cd_self_region_id (cf_config_data cfg))
      in r\<lparr>rq_seq := br_seq b, rq_proxy_id := br_proxy_id b,
           rq_hash := CalculateHash C (rq_data r @ to_string (unat (br_seq b))
                        @ to_string_int (cd_self_region_id (cf_config_data cfg))),
           rq_data := ser b\<rparr>)"

text \<open>\<open>ExecuteBatch\<close> returns no response: the global executor answers the client.\<close>

definition geo_ExecuteBatch ::
  "crypto \<Rightarrow> (batch_user_request \<Rightarrow> string) \<Rightarrow> batch_user_request \<Rightarrow> geo_local \<Rightarrow> geo_local" where
  "geo_ExecuteBatch C ser b g = g\<lparr>gl_queue := gl_queue g @ [geo_request C ser (gl_config g) b]\<rparr>"

text \<open>\<open>ReplicaCommunicator::SendBatchMessage\<close>: the number of messages that went out. On the long
  connections a message is queued, which always succeeds; \<open>delivered\<close> is what the socket does otherwise.\<close>

definition SendMessageFromPool :: "replica_info list \<Rightarrow> int" where
  "SendMessageFromPool replicas = int (length replicas)"

definition SendMessageInternal :: "(request \<Rightarrow> replica_info \<Rightarrow> bool) \<Rightarrow> request \<Rightarrow> replica_info list \<Rightarrow> int" where
  "SendMessageInternal delivered message replicas = int (length (filter (delivered message) replicas))"

definition SendBatchMessage ::
  "bool \<Rightarrow> (request \<Rightarrow> replica_info \<Rightarrow> bool) \<Rightarrow> request list \<Rightarrow> replica_info \<Rightarrow> int" where
  "SendBatchMessage long_conn delivered messages replica =
     (if long_conn then SendMessageFromPool [replica]
      else sum_list (map (\<lambda>m. SendMessageInternal delivered m [replica]) messages))"

text \<open>The loop over the replicas of one region: the replicas to which a send is tried. \<open>send\<close> is the
  result of \<open>SendBatchMessage\<close>.\<close>

fun send_region :: "(replica_info \<Rightarrow> int) \<Rightarrow> nat \<Rightarrow> nat \<Rightarrow> replica_info list \<Rightarrow> replica_info list" where
  "send_region send f n [] = []"
| "send_region send f n (r # rs) =
     (if n > f then [] else r # send_region send f (if send r \<ge> 0 then n + 1 else n) rs)"

definition SendBatchGeoMessage :: "(replica_info \<Rightarrow> int) \<Rightarrow> geo_local \<Rightarrow> replica_info list" where
  "SendBatchGeoMessage send g =
     (let d = cf_config_data (gl_config g); self = cf_self_info (gl_config g)
      in self # (if rep_id self = uint (GetPrimaryId (gl_system_info g))
           then concat (map (\<lambda>region.
                  if rg_region_id region = cd_self_region_id d then []
                  else send_region send ((length (rg_replica_info region) - 1) div 3) 0 (rg_replica_info region))
                  (cd_region d))
           else []))"

text \<open>One iteration of \<open>SendGeoMessages\<close>: up to \<open>batch_size_\<close> messages, and where they go.\<close>

definition SendGeoMessages_step ::
  "bool \<Rightarrow> (request \<Rightarrow> replica_info \<Rightarrow> bool) \<Rightarrow> geo_local \<Rightarrow> geo_local \<times> (request list \<times> replica_info list) option" where
  "SendGeoMessages_step long_conn delivered g =
     (case gl_queue g of
        [] \<Rightarrow> (g, None)
      | _ \<Rightarrow> let n = max 1 (gl_batch_size g); messages = take n (gl_queue g)
             in (g\<lparr>gl_queue := drop n (gl_queue g)\<rparr>,
                 Some (messages, SendBatchGeoMessage (SendBatchMessage long_conn delivered messages) g)))"

section \<open>The global executor\<close>

record 's geo_executor =
  ge_manager :: "'s txn_manager option"
  ge_db :: 's
  ge_execute_map :: "(uint64 \<times> int, request) std_map"
  ge_next_seq :: uint64
  ge_next_region :: int
  ge_region_size :: nat
  ge_order_queue :: "request list"
  ge_resp_queue :: "batch_user_response list"
  ge_my_region :: int

definition new_geo_executor :: "'s txn_manager option \<Rightarrow> 's \<Rightarrow> resdb_config \<Rightarrow> 's geo_executor" where
  "new_geo_executor tm db cfg =
     \<lparr>ge_manager = tm, ge_db = db, ge_execute_map = [], ge_next_seq = 1, ge_next_region = 1,
      ge_region_size = length (cd_region (cf_config_data cfg)), ge_order_queue = [], ge_resp_queue = [],
      ge_my_region = cd_self_region_id (cf_config_data cfg)\<rparr>"

definition geo_Execute ::
  "(string \<Rightarrow> batch_user_request option) \<Rightarrow> request \<Rightarrow> 's geo_executor \<Rightarrow> 's geo_executor" where
  "geo_Execute parse request g =
     (case parse (rq_data request) of
        None \<Rightarrow> g
      | Some b \<Rightarrow>
          if rq_data request = [] then g
          else case ge_manager g of
            None \<Rightarrow> g
          | Some tm \<Rightarrow>
              let (response, db) = ExecuteBatch (tm_ExecuteData tm) b (ge_db g); g1 = g\<lparr>ge_db := db\<rparr>
              in if rq_region_id request = ge_my_region g
                 then g1\<lparr>ge_resp_queue := ge_resp_queue g @
                        [response\<lparr>rs_createtime := br_createtime b, rs_local_id := br_local_id b,
                                  rs_proxy_id := br_proxy_id b, rs_seq := br_seq b\<rparr>]\<rparr>
                 else g1)"

definition OrderGeoRequest :: "request \<Rightarrow> 's geo_executor \<Rightarrow> int \<times> 's geo_executor" where
  "OrderGeoRequest request g = (0, g\<lparr>ge_order_queue := ge_order_queue g @ [request]\<rparr>)"

definition geo_key :: "request \<Rightarrow> uint64 \<times> int" where
  "geo_key r = (rq_seq r, rq_region_id r)"

definition AddData :: "'s geo_executor \<Rightarrow> 's geo_executor" where
  "AddData g =
     (case ge_order_queue g of
        [] \<Rightarrow> g
      | r # q \<Rightarrow> g\<lparr>ge_order_queue := q, ge_execute_map := sm_put (geo_key r) r (ge_execute_map g)\<rparr>)"

definition GetNextMap :: "'s geo_executor \<Rightarrow> request option \<times> 's geo_executor" where
  "GetNextMap g =
     (case ge_execute_map g of
        [] \<Rightarrow> (None, g)
      | (k, r) # m \<Rightarrow>
          if k = (ge_next_seq g, ge_next_region g)
          then let next_region = i32 (ge_next_region g + 1)
               in (Some r, if next_region > int (ge_region_size g)
                           then g\<lparr>ge_execute_map := m, ge_next_region := 1, ge_next_seq := ge_next_seq g + 1\<rparr>
                           else g\<lparr>ge_execute_map := m, ge_next_region := next_region\<rparr>)
          else (None, g))"

text \<open>The inner loop of \<open>OrderRound\<close>, with the requests it executes.\<close>

lemma geo_Execute_keeps [simp]:
  "ge_execute_map (geo_Execute parse r g) = ge_execute_map g" "ge_manager (geo_Execute parse r g) = ge_manager g"
  "ge_next_seq (geo_Execute parse r g) = ge_next_seq g" "ge_next_region (geo_Execute parse r g) = ge_next_region g"
  "ge_region_size (geo_Execute parse r g) = ge_region_size g" "ge_order_queue (geo_Execute parse r g) = ge_order_queue g"
  "ge_my_region (geo_Execute parse r g) = ge_my_region g"
  by (auto simp: geo_Execute_def Let_def split: option.splits prod.splits)

function geo_loop ::
  "(string \<Rightarrow> batch_user_request option) \<Rightarrow> 's geo_executor \<Rightarrow> 's geo_executor \<times> request list" where
  "geo_loop parse g =
     (case GetNextMap g of
        (None, _) \<Rightarrow> (g, [])
      | (Some r, g1) \<Rightarrow> let (g2, rs) = geo_loop parse (geo_Execute parse r g1) in (g2, r # rs))"
  by pat_completeness auto
termination
  by (relation "measure (\<lambda>(_, g). length (ge_execute_map g))")
    (auto simp: GetNextMap_def Let_def split: list.splits if_splits)

declare geo_loop.simps [simp del]

definition OrderRound_step ::
  "(string \<Rightarrow> batch_user_request option) \<Rightarrow> 's geo_executor \<Rightarrow> 's geo_executor \<times> request list" where
  "OrderRound_step parse g = geo_loop parse (AddData g)"

definition geo_GetResponseMsg :: "'s geo_executor \<Rightarrow> batch_user_response option \<times> 's geo_executor" where
  "geo_GetResponseMsg g =
     (case ge_resp_queue g of [] \<Rightarrow> (None, g) | r # q \<Rightarrow> (Some r, g\<lparr>ge_resp_queue := q\<rparr>))"

text \<open>Runs: the consensus queues requests, the thread iterates, responses are fetched.\<close>

datatype geo_event = GeoOrder request | GeoRound | GeoResponse

fun geo_run ::
  "(string \<Rightarrow> batch_user_request option) \<Rightarrow> geo_event list \<Rightarrow> 's geo_executor \<Rightarrow> 's geo_executor \<times> request list" where
  "geo_run parse [] g = (g, [])"
| "geo_run parse (GeoOrder r # evs) g = geo_run parse evs (snd (OrderGeoRequest r g))"
| "geo_run parse (GeoResponse # evs) g = geo_run parse evs (snd (geo_GetResponseMsg g))"
| "geo_run parse (GeoRound # evs) g =
     (let (g1, rs) = OrderRound_step parse g; (g2, rs') = geo_run parse evs g1 in (g2, rs @ rs'))"

section \<open>Rounds\<close>

text \<open>The \<open>k\<close>-th place of the global order: the regions take turns within every sequence number.\<close>

definition geo_slot :: "nat \<Rightarrow> nat \<Rightarrow> uint64 \<times> int" where
  "geo_slot R k = (of_nat (1 + k div R), 1 + int (k mod R))"

definition next_slot :: "'s geo_executor \<Rightarrow> uint64 \<times> int" where
  "next_slot g = (ge_next_seq g, ge_next_region g)"

lemma div_mod_Suc:
  assumes "0 < (R::nat)"
  shows "Suc k div R = (if Suc (k mod R) = R then Suc (k div R) else k div R)"
    "Suc k mod R = (if Suc (k mod R) = R then 0 else Suc (k mod R))"
  using assms by (auto simp: div_Suc mod_Suc)

lemma GetNextMap_slot:
  assumes "GetNextMap g = (Some r, g1)" "next_slot g = geo_slot R k" "ge_region_size g = R" "0 < R" "R < 2 ^ 31 - 1"
  shows "next_slot g1 = geo_slot R (Suc k) \<and> ge_execute_map g = (geo_slot R k, r) # ge_execute_map g1
    \<and> ge_region_size g1 = R \<and> ge_order_queue g1 = ge_order_queue g \<and> ge_manager g1 = ge_manager g
    \<and> ge_db g1 = ge_db g \<and> ge_my_region g1 = ge_my_region g"
proof -
  have m: "k mod R < R" using assms(4) by simp
  have "k mod R + 2 < 2 ^ 31" using m assms(5) by simp
  then have "int (k mod R) + 2 < 2 ^ 31" by (metis of_nat_add of_nat_less_numeral_power_cancel_iff of_nat_numeral)
  then have i: "i32 (ge_next_region g + 1) = int (k mod R) + 2"
    using assms(2) by (simp add: next_slot_def geo_slot_def)
  show ?thesis using assms m i
    by (auto simp: GetNextMap_def next_slot_def geo_slot_def div_mod_Suc Let_def split: list.splits if_splits)
qed

lemma GetNextMap_None:
  "GetNextMap g = (None, g1) \<longleftrightarrow> g1 = g \<and> (ge_execute_map g = [] \<or> fst (hd (ge_execute_map g)) \<noteq> next_slot g)"
  by (auto simp: GetNextMap_def next_slot_def Let_def split: list.splits)

text \<open>What executing requests does to the database.\<close>

fun geo_apply ::
  "'s txn_manager option \<Rightarrow> (string \<Rightarrow> batch_user_request option) \<Rightarrow> request list \<Rightarrow> 's \<Rightarrow> 's" where
  "geo_apply tm parse [] db = db"
| "geo_apply tm parse (r # rs) db = geo_apply tm parse rs
     (case (parse (rq_data r), tm) of
        (Some b, Some m) \<Rightarrow> if rq_data r = [] then db else snd (ExecuteBatch (tm_ExecuteData m) b db)
      | _ \<Rightarrow> db)"

lemma geo_apply_append: "geo_apply tm parse (rs @ rs') db = geo_apply tm parse rs' (geo_apply tm parse rs db)"
  by (induction tm parse rs db rule: geo_apply.induct) auto

lemma geo_Execute_db: "ge_db (geo_Execute parse r g) = geo_apply (ge_manager g) parse [r] (ge_db g)"
  by (auto simp: geo_Execute_def Let_def split: option.splits prod.splits)

text \<open>The invariant of a run: \<open>popped\<close> are the requests taken from the queue, \<open>es\<close> the executed ones.\<close>

definition geo_inv ::
  "nat \<Rightarrow> 's txn_manager option \<Rightarrow> (string \<Rightarrow> batch_user_request option) \<Rightarrow> 's \<Rightarrow> request list \<Rightarrow> request list
     \<Rightarrow> 's geo_executor \<Rightarrow> bool" where
  "geo_inv R tm parse db popped es g \<longleftrightarrow> ge_region_size g = R \<and> ge_manager g = tm
     \<and> next_slot g = geo_slot R (length es) \<and> map geo_key es = map (geo_slot R) [0 ..< length es]
     \<and> ge_db g = geo_apply tm parse es db \<and> sm_wf (ge_execute_map g)
     \<and> (\<forall>(k, r) \<in> set (ge_execute_map g). k = geo_key r \<and> r \<in> set popped) \<and> set es \<subseteq> set popped
     \<and> (\<forall>r \<in> set popped. geo_key r \<in> fst ` set (ge_execute_map g) \<or> geo_key r \<in> geo_key ` set es)
     \<and> (distinct (map geo_key popped) \<longrightarrow> fst ` set (ge_execute_map g) \<inter> geo_key ` set es = {})"

lemma geo_loop_inv:
  assumes "geo_inv R tm parse db popped es g" "0 < R" "R < 2 ^ 31 - 1" "geo_loop parse g = (g', rs)"
  shows "geo_inv R tm parse db popped (es @ rs) g' \<and> ge_order_queue g' = ge_order_queue g
    \<and> (ge_execute_map g' = [] \<or> fst (hd (ge_execute_map g')) \<noteq> next_slot g')"
  using assms
proof (induction parse g arbitrary: es g' rs rule: geo_loop.induct)
  case (1 parse g)
  show ?case
  proof (cases "GetNextMap g")
    case (Pair ro g1)
    show ?thesis
    proof (cases ro)
      case None
      then show ?thesis using 1(2,5) Pair GetNextMap_None [of g g1] by (simp add: geo_loop.simps [of parse g])
    next
      case (Some r)
      let ?g = "geo_Execute parse r g1"
      obtain g2 rs' where l: "geo_loop parse ?g = (g2, rs')" by fastforce
      have res: "g' = g2" "rs = r # rs'" using 1(5) Pair Some l by (simp_all add: geo_loop.simps [of parse g])
      have inv: "ge_region_size g = R" "next_slot g = geo_slot R (length es)" "sm_wf (ge_execute_map g)"
        using 1(2) by (simp_all add: geo_inv_def)
      note n = GetNextMap_slot [OF Pair [unfolded Some] inv(2,1) 1(3,4)]
      then have key: "geo_key r = geo_slot R (length es)" "r \<in> set popped" using 1(2) by (auto simp: geo_inv_def)
      have "geo_inv R tm parse db popped (es @ [r]) ?g"
        using 1(2) n key by (auto simp: geo_inv_def next_slot_def geo_Execute_db geo_apply_append)
      from 1(1) [OF Pair [symmetric] Some this 1(3,4) l] n res show ?thesis by simp
    qed
  qed
qed

lemma AddData_inv:
  assumes "geo_inv R tm parse db popped es g"
  shows "geo_inv R tm parse db (popped @ take 1 (ge_order_queue g)) es (AddData g)
    \<and> ge_order_queue (AddData g) = drop 1 (ge_order_queue g)"
proof (cases "ge_order_queue g")
  case Nil
  then show ?thesis using assms by (simp add: AddData_def)
next
  case (Cons r q)
  have "set (sm_put (geo_key r) r (ge_execute_map g)) \<subseteq> insert (geo_key r, r) (set (ge_execute_map g))"
    by (rule subsetI) (metis (no_types) assms geo_inv_def insertCI old.prod.exhaust sm_find_eq_set sm_find_put sm_wf_put option.inject)
  then show ?thesis using assms Cons by (auto simp: AddData_def geo_inv_def next_slot_def)
qed

fun ordered :: "geo_event list \<Rightarrow> request list" where
  "ordered [] = []"
| "ordered (GeoOrder r # evs) = r # ordered evs"
| "ordered (_ # evs) = ordered evs"

definition settled :: "'s geo_executor \<Rightarrow> bool" where
  "settled g \<longleftrightarrow> ge_execute_map g = [] \<or> fst (hd (ge_execute_map g)) \<noteq> next_slot g"

lemma geo_queue_inv [simp]:
  "geo_inv R tm parse db popped es (g\<lparr>ge_order_queue := q\<rparr>) = geo_inv R tm parse db popped es g"
  "geo_inv R tm parse db popped es (g\<lparr>ge_resp_queue := p\<rparr>) = geo_inv R tm parse db popped es g"
  "settled (g\<lparr>ge_order_queue := q\<rparr>) = settled g" "settled (g\<lparr>ge_resp_queue := p\<rparr>) = settled g"
  by (simp_all add: geo_inv_def next_slot_def settled_def)

lemma geo_GetResponseMsg_inv [simp]:
  "geo_inv R tm parse db popped es (snd (geo_GetResponseMsg g)) = geo_inv R tm parse db popped es g"
  "settled (snd (geo_GetResponseMsg g)) = settled g" "ge_order_queue (snd (geo_GetResponseMsg g)) = ge_order_queue g"
  by (simp_all add: geo_GetResponseMsg_def split: list.splits)

lemma geo_run_inv:
  assumes "geo_inv R tm parse db popped es g" "settled g" "0 < R" "R < 2 ^ 31 - 1" "geo_run parse evs g = (g', rs)"
  shows "\<exists>popped'. geo_inv R tm parse db popped' (es @ rs) g' \<and> settled g'
    \<and> popped' @ ge_order_queue g' = popped @ ge_order_queue g @ ordered evs"
  using assms(1,2,5)
proof (induction parse evs g arbitrary: popped es rs rule: geo_run.induct)
  case (2 parse r evs g)
  then show ?case using "2.IH" [of popped es rs] by (simp add: OrderGeoRequest_def)
next
  case (4 parse evs g)
  obtain g1 rs1 where l: "OrderRound_step parse g = (g1, rs1)" by fastforce
  obtain g2 rs2 where r: "geo_run parse evs g1 = (g2, rs2)" by fastforce
  let ?p = "popped @ take 1 (ge_order_queue g)"
  have res: "g' = g2" "rs = rs1 @ rs2" using "4.prems"(3) l r by simp_all
  have a: "geo_inv R tm parse db ?p es (AddData g)" "ge_order_queue (AddData g) = drop 1 (ge_order_queue g)"
    using AddData_inv [OF "4.prems"(1)] by simp_all
  have g1: "geo_inv R tm parse db ?p (es @ rs1) g1" "settled g1" "ge_order_queue g1 = drop 1 (ge_order_queue g)"
    using geo_loop_inv [OF a(1) assms(3,4) l [unfolded OrderRound_step_def]] a(2) by (simp_all add: settled_def)
  have "?p @ ge_order_queue g1 = popped @ ge_order_queue g" by (simp add: g1(3))
  then show ?case using "4.IH" [OF l [symmetric] refl g1(1,2) r [folded res(1)]] res by (simp add: append_assoc [symmetric] del: append_assoc)
qed auto

lemma new_geo_executor_inv:
  "geo_inv (length (cd_region (cf_config_data cfg))) tm parse db [] [] (new_geo_executor tm db cfg)
     \<and> settled (new_geo_executor tm db cfg) \<and> ge_order_queue (new_geo_executor tm db cfg) = []"
  by (simp add: new_geo_executor_def geo_inv_def settled_def next_slot_def geo_slot_def)

lemma geo_run_new:
  assumes "geo_run parse evs (new_geo_executor tm db cfg) = (g, es)"
    "0 < length (cd_region (cf_config_data cfg))" "length (cd_region (cf_config_data cfg)) < 2 ^ 31 - 1"
  obtains popped where "geo_inv (length (cd_region (cf_config_data cfg))) tm parse db popped es g" "settled g"
    "popped @ ge_order_queue g = ordered evs"
  using geo_run_inv [OF _ _ assms(2,3,1), of tm db "[]" "[]"] new_geo_executor_inv by fastforce

section \<open>Properties\<close>

text \<open>The operations of a shared batch: all the database depends on. The requests that carry a batch to two
  replicas differ otherwise, in their sender, their certificates and the fields the sender has filled in.\<close>

definition geo_ops :: "(string \<Rightarrow> batch_user_request option) \<Rightarrow> request \<Rightarrow> string list option" where
  "geo_ops parse r =
     (if rq_data r = [] then None
      else map_option (\<lambda>b. map (\<lambda>u. rq_data (ur_request u)) (br_user_requests b)) (parse (rq_data r)))"

lemma ExecuteBatch_ops:
  assumes "map (\<lambda>u. rq_data (ur_request u)) us = map (\<lambda>u. rq_data (ur_request u)) us'"
  shows "ExecuteBatch_loop f us db = ExecuteBatch_loop f us' db"
  using assms
proof (induction us arbitrary: us' db)
  case (Cons u us)
  obtain u' vs where us': "us' = u' # vs" "rq_data (ur_request u') = rq_data (ur_request u)"
    "map (\<lambda>u. rq_data (ur_request u)) us = map (\<lambda>u. rq_data (ur_request u)) vs" using Cons.prems by (cases us') auto
  have "ExecuteBatch_loop f us db' = ExecuteBatch_loop f vs db'" for db' using Cons.IH [OF us'(3)] .
  then show ?case using us' by simp
qed simp

lemma geo_apply_one:
  assumes "geo_ops parse r = geo_ops parse r'"
  shows "geo_apply tm parse [r] db = geo_apply tm parse [r'] db"
proof (cases "geo_ops parse r")
  case None
  then have "rq_data r = [] \<or> parse (rq_data r) = None" "rq_data r' = [] \<or> parse (rq_data r') = None"
    using assms by (auto simp: geo_ops_def split: if_splits)
  then show ?thesis by (auto split: option.split)
next
  case (Some ops)
  then obtain b b' where b: "rq_data r \<noteq> []" "rq_data r' \<noteq> []" "parse (rq_data r) = Some b" "parse (rq_data r') = Some b'"
    "map (\<lambda>u. rq_data (ur_request u)) (br_user_requests b) = map (\<lambda>u. rq_data (ur_request u)) (br_user_requests b')"
    using assms by (cases "parse (rq_data r)"; cases "parse (rq_data r')") (auto simp: geo_ops_def split: if_splits)
  have "ExecuteBatch f b db = ExecuteBatch f b' db" for f unfolding ExecuteBatch_def ExecuteBatch_ops [OF b(5)] ..
  then show ?thesis using b(1-4) by (simp split: option.split)
qed

lemma geo_apply_ops:
  assumes "map (geo_ops parse) es = map (geo_ops parse) es'"
  shows "geo_apply tm parse es db = geo_apply tm parse es' db"
  using assms
proof (induction es arbitrary: es' db)
  case (Cons r es)
  obtain r' rs where es': "es' = r' # rs" "geo_ops parse r = geo_ops parse r'" "map (geo_ops parse) es = map (geo_ops parse) rs"
    using Cons.prems by (cases es') auto
  have "geo_apply tm parse (r # es) db = geo_apply tm parse es (geo_apply tm parse [r] db)" by simp
  also have "\<dots> = geo_apply tm parse rs (geo_apply tm parse [r'] db)"
    unfolding Cons.IH [OF es'(3)] geo_apply_one [OF es'(2)] ..
  finally show ?case unfolding es'(1) by simp
qed simp

lemma same_slots_prefix:
  assumes "map geo_key es = map (geo_slot R) [0 ..< length es]" "map geo_key es' = map (geo_slot R) [0 ..< length es']"
    "\<forall>m\<in>set es. \<forall>m'\<in>set es'. geo_key m = geo_key m' \<longrightarrow> f m = f m'" "length es \<le> length es'"
  shows "prefix (map f es) (map f es')"
proof -
  have "f (es ! i) = f (es' ! i)" if "i < length es" for i
  proof -
    have "geo_key (es ! i) = geo_slot R i" "geo_key (es' ! i) = geo_slot R i"
      using arg_cong [OF assms(1), of "\<lambda>xs. xs ! i"] arg_cong [OF assms(2), of "\<lambda>xs. xs ! i"] that assms(4) by simp_all
    then show ?thesis using assms(3,4) that by (metis nth_mem order_less_le_trans)
  qed
  then have "map f es = take (length es) (map f es')" using assms(4) by (intro nth_equalityI) simp_all
  then show ?thesis by (metis take_is_prefix)
qed

text \<open>Two regions; the batches arrive out of order.\<close>

definition demo_geo_config :: "int \<Rightarrow> resdb_config" where
  "demo_geo_config self = (demo_config [1, 2, 3, 4])\<lparr>cf_config_data := (cf_config_data (demo_config [1, 2, 3, 4]))\<lparr>
     cd_region := [\<lparr>rg_region_id = 1, rg_replica_info = []\<rparr>, \<lparr>rg_region_id = 2, rg_replica_info = []\<rparr>],
     cd_self_region_id := self\<rparr>\<rparr>"

definition demo_geo_msg :: "uint64 \<Rightarrow> int \<Rightarrow> string \<Rightarrow> request" where
  "demo_geo_msg seq region d = empty_request\<lparr>rq_type := TYPE_GEO_REQUEST, rq_seq := seq, rq_region_id := region, rq_data := d\<rparr>"

definition demo_geo_parse :: "string \<Rightarrow> batch_user_request option" where
  "demo_geo_parse d = Some (empty_batch\<lparr>br_user_requests :=
     [\<lparr>ur_request = empty_request\<lparr>rq_data := d\<rparr>, ur_signature = empty_signature, ur_id = 0\<rparr>]\<rparr>)"

definition demo_geo_manager :: "string list txn_manager" where
  "demo_geo_manager = \<lparr>tm_is_out_of_order = False, tm_need_response = True,
     tm_ExecuteData = (\<lambda>d l. (Some d, l @ [d]))\<rparr>"

definition demo_geo_events :: "geo_event list" where
  "demo_geo_events = [GeoOrder (demo_geo_msg 1 2 ''b''), GeoRound, GeoOrder (demo_geo_msg 2 1 ''c''),
     GeoOrder (demo_geo_msg 1 1 ''a''), GeoRound, GeoRound]"

lemmas demo_geo_simps = demo_geo_events_def demo_geo_msg_def demo_geo_parse_def demo_geo_manager_def demo_geo_config_def
  new_geo_executor_def OrderGeoRequest_def OrderRound_step_def AddData_def GetNextMap_def geo_Execute_def geo_key_def
  ExecuteBatch_def empty_request_def empty_batch_def empty_response_def Let_def

lemma demo_geo_run:
  "\<exists>g. geo_run demo_geo_parse demo_geo_events (new_geo_executor (Some demo_geo_manager) [] (demo_geo_config 1))
     = (g, [demo_geo_msg 1 1 ''a'', demo_geo_msg 1 2 ''b'', demo_geo_msg 2 1 ''c''])
     \<and> ge_db g = [''a'', ''b'', ''c''] \<and> ge_order_queue g = []"
  by (simp add: demo_geo_simps geo_loop.simps) (simp add: word_le_nat_alt)

lemma demo_geo_ordered: "ordered demo_geo_events = [demo_geo_msg 1 2 ''b'', demo_geo_msg 2 1 ''c'', demo_geo_msg 1 1 ''a'']"
  by (simp add: demo_geo_events_def)

text \<open>C23: replicas of all regions execute the shared batches alike: whatever order the batches arrive in and
  however the threads interleave, a replica executes one request of every region for every sequence number, in
  the order of sequence numbers and region ids. If the requests two replicas, of whatever regions, order for
  one sequence number and region have the same operations, as the requests of different senders for one
  committed batch do, then the operations one replica has executed are a prefix of those of the other, and
  after equally many batches their databases are the same. That no two of them order different operations for
  one place is a hypothesis on the messages, not something the executor checks.\<close>

theorem geo_replicas_execute_alike:
  assumes run1: "geo_run parse evs1 (new_geo_executor tm db cfg1) = (g1, es1)"
    and run2: "geo_run parse evs2 (new_geo_executor tm db cfg2) = (g2, es2)"
    and regions: "length (cd_region (cf_config_data cfg1)) = R" "length (cd_region (cf_config_data cfg2)) = R"
      "0 < R" "R < 2 ^ 31 - 1"
    and agree: "\<forall>m\<in>set (ordered evs1). \<forall>m'\<in>set (ordered evs2). geo_key m = geo_key m' \<longrightarrow> geo_ops parse m = geo_ops parse m'"
  shows "map geo_key es1 = map (geo_slot R) [0 ..< length es1]
    \<and> (prefix (map (geo_ops parse) es1) (map (geo_ops parse) es2) \<or> prefix (map (geo_ops parse) es2) (map (geo_ops parse) es1))
    \<and> (length es1 = length es2 \<longrightarrow> ge_db g1 = ge_db g2)"
proof -
  let ?o = "map (geo_ops parse)"
  obtain p1 where 1: "geo_inv R tm parse db p1 es1 g1" "p1 @ ge_order_queue g1 = ordered evs1"
    using geo_run_new [OF run1] regions by auto
  obtain p2 where 2: "geo_inv R tm parse db p2 es2 g2" "p2 @ ge_order_queue g2 = ordered evs2"
    using geo_run_new [OF run2] regions by auto
  have keys: "map geo_key es1 = map (geo_slot R) [0 ..< length es1]" "map geo_key es2 = map (geo_slot R) [0 ..< length es2]"
    and dbs: "ge_db g1 = geo_apply tm parse es1 db" "ge_db g2 = geo_apply tm parse es2 db"
    and "set es1 \<subseteq> set p1" "set es2 \<subseteq> set p2"
    using 1(1) 2(1) by (simp_all add: geo_inv_def)
  then have sub: "set es1 \<subseteq> set (ordered evs1)" "set es2 \<subseteq> set (ordered evs2)"
    using 1(2) 2(2) by (metis Un_iff set_append subset_iff)+
  have agree12: "\<forall>m\<in>set es1. \<forall>m'\<in>set es2. geo_key m = geo_key m' \<longrightarrow> geo_ops parse m = geo_ops parse m'"
    using agree sub by blast
  then have agree21: "\<forall>m\<in>set es2. \<forall>m'\<in>set es1. geo_key m = geo_key m' \<longrightarrow> geo_ops parse m = geo_ops parse m'"
    by metis
  have p: "prefix (?o es1) (?o es2) \<or> prefix (?o es2) (?o es1)"
    using same_slots_prefix [OF keys agree12] same_slots_prefix [OF keys(2,1) agree21] nat_le_linear by blast
  moreover have "ge_db g1 = ge_db g2" if "length es1 = length es2"
  proof -
    have "?o es1 = ?o es2" using p that by (metis append_eq_append_conv append_Nil2 length_map prefix_def)
    then show ?thesis unfolding dbs by (rule geo_apply_ops)
  qed
  ultimately show ?thesis using keys(1) by blast
qed

text \<open>The second replica has the batch from another sender.\<close>

theorem geo_replicas_execute_alike_witness:
  "case (geo_run demo_geo_parse demo_geo_events (new_geo_executor (Some demo_geo_manager) [] (demo_geo_config 1)),
         geo_run demo_geo_parse [GeoOrder ((demo_geo_msg 1 1 ''a'')\<lparr>rq_sender_id := 3\<rparr>), GeoRound]
           (new_geo_executor (Some demo_geo_manager) [] (demo_geo_config 2))) of ((g1, es1), (g2, es2)) \<Rightarrow>
     map geo_key es1 = map (geo_slot 2) [0 ..< length es1]
     \<and> (prefix (map (geo_ops demo_geo_parse) es1) (map (geo_ops demo_geo_parse) es2)
        \<or> prefix (map (geo_ops demo_geo_parse) es2) (map (geo_ops demo_geo_parse) es1))
     \<and> (length es1 = length es2 \<longrightarrow> ge_db g1 = ge_db g2)"
proof -
  obtain g1 es1 where r1: "geo_run demo_geo_parse demo_geo_events
      (new_geo_executor (Some demo_geo_manager) [] (demo_geo_config 1)) = (g1, es1)" by fastforce
  obtain g2 es2 where r2: "geo_run demo_geo_parse [GeoOrder ((demo_geo_msg 1 1 ''a'')\<lparr>rq_sender_id := 3\<rparr>), GeoRound]
      (new_geo_executor (Some demo_geo_manager) [] (demo_geo_config 2)) = (g2, es2)" by fastforce
  show ?thesis unfolding r1 r2 prod.case
    by (rule geo_replicas_execute_alike [OF r1 r2])
      (simp_all add: demo_geo_ordered demo_geo_config_def demo_geo_msg_def geo_key_def geo_ops_def)
qed

lemma geo_slot_less:
  assumes "0 < R" "i < j" "1 + j div R < 2 ^ 64"
  shows "geo_slot R i < geo_slot R j"
proof (cases "i div R = j div R")
  case True
  then have "i mod R < j mod R" using assms(2) by (metis div_mult_mod_eq nat_add_left_cancel_less)
  then show ?thesis using True by (simp add: geo_slot_def less_prod_def)
next
  case False
  then have "i div R < j div R" using assms(2) div_le_mono [of i j R] by simp
  then have "(of_nat (1 + i div R) :: uint64) < of_nat (1 + j div R)"
    using assms(3) by (simp add: word_less_nat_alt unat_of_nat del: of_nat_Suc of_nat_add)
  then show ?thesis by (simp add: geo_slot_def less_prod_def)
qed

lemma geo_slot_of_key:
  assumes "s \<noteq> 0" "1 \<le> i" "i \<le> int R"
  obtains j where "(s, i) = geo_slot R j" "1 + j div R < 2 ^ 64"
proof -
  let ?j = "(unat s - 1) * R + nat (i - 1)"
  have R: "nat (i - 1) < R" using assms by linarith
  have s: "0 < unat s" "unat s < 2 ^ 64" using assms(1) unsigned_less [of s] by (simp_all add: unat_gt_0)
  have "?j div R = unat s - 1" "?j mod R = nat (i - 1)" using R by simp_all
  then show ?thesis using that [of ?j] s assms by (simp add: geo_slot_def)
qed

text \<open>C25: on well-formed messages the global order does not stall: once the queue is empty, if every batch
  that was ordered is for a sequence number above 0 and one of the regions, no two are for the same place and the first \<open>N\<close> places of
  the global order are among them, in whatever order they came, then at least \<open>N\<close> batches have been executed.\<close>

theorem geo_rounds_complete:
  assumes run: "geo_run parse evs (new_geo_executor tm db cfg) = (g, es)"
    and regions: "length (cd_region (cf_config_data cfg)) = R" "0 < R" "R < 2 ^ 31 - 1"
    and idle: "ge_order_queue g = []"
    and wf: "\<forall>r\<in>set (ordered evs). rq_seq r \<noteq> 0 \<and> 1 \<le> rq_region_id r \<and> rq_region_id r \<le> int R"
    and dist: "distinct (map geo_key (ordered evs))"
    and all: "\<forall>k<N. geo_slot R k \<in> geo_key ` set (ordered evs)" and small: "1 + N div R < 2 ^ 64"
  shows "N \<le> length es"
proof (rule ccontr)
  assume "\<not> N \<le> length es"
  then have k: "length es < N" by simp
  let ?m = "ge_execute_map g" and ?k = "geo_slot R (length es)"
  obtain p where inv: "geo_inv R tm parse db p es g" and set: "settled g" and p: "p = ordered evs"
    using geo_run_new [OF run] regions idle by auto
  have "map geo_key es = map (geo_slot R) [0 ..< length es]" using inv by (simp add: geo_inv_def)
  then have keys: "geo_key ` set es = geo_slot R ` {0 ..< length es}" by (metis set_map set_upt)
  have wfm: "sm_wf ?m" and nxt: "next_slot g = ?k" and disj: "fst ` set ?m \<inter> geo_key ` set es = {}"
    using inv dist p by (simp_all add: geo_inv_def)
  have less: "geo_slot R i < ?k" if "i < length es" for i
    using geo_slot_less [OF regions(2) that] k small div_le_mono [of "length es" N R] by simp
  have "?k \<in> fst ` set ?m \<or> ?k \<in> geo_key ` set es" using all k inv p by (force simp: geo_inv_def)
  moreover have "?k \<notin> geo_key ` set es" using less unfolding keys by fastforce
  ultimately have km: "?k \<in> fst ` set ?m" by simp
  then obtain h r m' where m: "?m = (h, r) # m'" by (cases ?m) auto
  have "h \<le> ?k" using sm_hd_least [OF wfm m] km by (simp add: sm_find_None_iff)
  have "h = geo_key r" "r \<in> set (ordered evs)" using inv m p by (auto simp: geo_inv_def)
  then obtain j where j: "h = geo_slot R j" "1 + j div R < 2 ^ 64"
    using geo_slot_of_key [of "rq_seq r" "rq_region_id r" R] wf unfolding geo_key_def by metis
  have "h \<notin> geo_key ` set es" using disj m by auto
  then have "length es \<le> j" unfolding keys j(1) by (meson atLeastLessThan_iff imageI le0 not_le)
  then have "?k \<le> h" using geo_slot_less [OF regions(2) _ j(2), of "length es"] j(1) by (cases "length es = j") auto
  then show False using \<open>h \<le> ?k\<close> set m nxt by (simp add: settled_def)
qed

theorem geo_rounds_complete_witness:
  "\<exists>g es. geo_run demo_geo_parse demo_geo_events (new_geo_executor (Some demo_geo_manager) [] (demo_geo_config 1)) = (g, es)
     \<and> 3 \<le> length es"
proof -
  obtain g es where r: "geo_run demo_geo_parse demo_geo_events
      (new_geo_executor (Some demo_geo_manager) [] (demo_geo_config 1)) = (g, es)" and idle: "ge_order_queue g = []"
    using demo_geo_run by blast
  have "3 \<le> length es"
    by (rule geo_rounds_complete [OF r _ _ _ idle, where R = 2])
      (simp_all add: demo_geo_ordered demo_geo_config_def demo_geo_msg_def geo_key_def geo_slot_def empty_request_def
        numeral_3_eq_3 less_Suc_eq)
  then show ?thesis using r by blast
qed

section \<open>Where the batches go\<close>

lemma SendBatchMessage_nonneg: "0 \<le> SendBatchMessage long_conn delivered messages r"
  by (auto simp: SendBatchMessage_def SendMessageFromPool_def SendMessageInternal_def intro!: sum_list_nonneg)

lemma send_region_take:
  assumes "\<And>r. 0 \<le> send r"
  shows "send_region send f n rs = take (Suc f - n) rs"
  using assms by (induction send f n rs rule: send_region.induct) (auto simp: Suc_diff_le)

text \<open>The primary of a region sends a batch to itself and to the first \<open>(n - 1) div 3 + 1\<close> of the \<open>n\<close>
  replicas of every other region. A send that fails is counted like one that succeeds, since the result it
  is judged by is never negative: which replicas are tried does not depend on what was delivered. At most
  \<open>batch_size_\<close> batches are taken from the queue, in order.\<close>

theorem geo_batch_receivers:
  "SendGeoMessages_step long_conn delivered g =
     (if gl_queue g = [] then (g, None)
      else (g\<lparr>gl_queue := drop (max 1 (gl_batch_size g)) (gl_queue g)\<rparr>,
            Some (take (max 1 (gl_batch_size g)) (gl_queue g),
              cf_self_info (gl_config g) #
              (if rep_id (cf_self_info (gl_config g)) = uint (GetPrimaryId (gl_system_info g))
               then concat (map (\<lambda>region. take (Suc ((length (rg_replica_info region) - 1) div 3)) (rg_replica_info region))
                 (filter (\<lambda>region. rg_region_id region \<noteq> cd_self_region_id (cf_config_data (gl_config g)))
                   (cd_region (cf_config_data (gl_config g)))))
               else []))))"
proof -
  have c: "concat (map (\<lambda>r. if P r then [] else f r) rs) = concat (map f (filter (\<lambda>r. \<not> P r) rs))"
    for P and f :: "region_info \<Rightarrow> replica_info list" and rs by (induction rs) auto
  show ?thesis
    by (simp add: SendGeoMessages_step_def SendBatchGeoMessage_def Let_def c
        send_region_take [OF SendBatchMessage_nonneg] split: list.splits)
qed

end
