(* ===== verification/Geo_PBFT.thy ===== *)
theory Geo_PBFT
  imports Consensus_PBFT Geo_Executor
begin

text \<open>
  GeoPBFT: \<open>GeoPBFTCommitment\<close> (platform/consensus/ordering/geo_pbft/geo_pbft_commitment.cpp), which admits
  the batches of all regions to the global order, and \<open>ConsensusManagerGeoPBFT\<close>
  (consensus_manager_geo_pbft.cpp), the PBFT replica with one more message type. The array of sets
  \<open>checklist_\<close> is a function of the index.
\<close>

section \<open>Admission to the global order\<close>

record 's geo_commitment =
  gc_executor :: "'s geo_executor"
  gc_checklist :: "nat \<Rightarrow> uint32 set"
  gc_config :: resdb_config
  gc_verifier :: "signature_verifier option"
  gc_min_seq :: uint64

definition new_geo_commitment ::
  "'s geo_executor \<Rightarrow> resdb_config \<Rightarrow> signature_verifier option \<Rightarrow> 's geo_commitment" where
  "new_geo_commitment ge cfg verifier =
     \<lparr>gc_executor = ge, gc_checklist = (\<lambda>_. {}), gc_config = cfg, gc_verifier = verifier, gc_min_seq = 0\<rparr>"

definition VerifyCerts :: "crypto \<Rightarrow> signature_verifier option \<Rightarrow> batch_user_request \<Rightarrow> bool" where
  "VerifyCerts C vo b =
     (case vo of
        None \<Rightarrow> True
      | Some sv \<Rightarrow> list_all (VerifyMessage C sv (br_hash b))
                     (case br_committed_certs b of None \<Rightarrow> [] | Some sigs \<Rightarrow> sigs))"

definition AddNewReq :: "uint64 \<Rightarrow> uint32 \<Rightarrow> 's geo_commitment \<Rightarrow> bool \<times> 's geo_commitment" where
  "AddNewReq seq region s =
     (if seq < gc_min_seq s then (False, s)
      else let i = unat (seq mod 2 ^ 20); old = gc_checklist s i
           in (region \<notin> old, s\<lparr>gc_checklist := (gc_checklist s)(i := insert region old)\<rparr>))"

definition UpdateSeq :: "uint64 \<Rightarrow> 's geo_commitment \<Rightarrow> 's geo_commitment" where
  "UpdateSeq seq s = (if seq > gc_min_seq s then s\<lparr>gc_min_seq := seq\<rparr> else s)"

definition GeoProcessCcm ::
  "crypto \<Rightarrow> (string \<Rightarrow> batch_user_request option) \<Rightarrow> request \<Rightarrow> 's geo_commitment
     \<Rightarrow> int \<times> 's geo_commitment \<times> out_msg list" where
  "GeoProcessCcm C parse request s =
     (let region = rq_region_id request; (new, s1) = AddNewReq (rq_seq request) (word_of_int region) s
      in if \<not> new then (1, s1, [])
         else case parse (rq_data request) of
           None \<Rightarrow> (-2, s1, [])
         | Some b \<Rightarrow>
             if br_committed_certs b = None \<or> \<not> VerifyCerts C (gc_verifier s1) b then (-2, s1, [])
             else let out = (if region \<noteq> cd_self_region_id (cf_config_data (gc_config s1))
                             then [Broadcast (NewRegionRequest TYPE_GEO_REQUEST request
                                     (rep_id (cf_self_info (gc_config s1))) region)]
                             else []);
                      (ret, ge) = OrderGeoRequest request (gc_executor s1)
                  in (ret, s1\<lparr>gc_executor := ge\<rparr>, out))"

text \<open>One iteration of the response thread.\<close>

definition PostProcessExecutedGeo_step ::
  "(batch_user_response \<Rightarrow> string) \<Rightarrow> 's geo_commitment \<Rightarrow> 's geo_commitment \<times> out_msg list" where
  "PostProcessExecutedGeo_step ser s =
     (case geo_GetResponseMsg (gc_executor s) of
        (None, _) \<Rightarrow> (s, [])
      | (Some resp, ge) \<Rightarrow>
          let r = empty_request\<lparr>rq_seq := rs_seq resp, rq_type := TYPE_RESPONSE,
                    rq_sender_id := rep_id (cf_self_info (gc_config s)), rq_current_view := rs_current_view resp,
                    rq_proxy_id := rs_proxy_id resp, rq_data := ser resp\<rparr>
          in (UpdateSeq (rs_seq resp) (s\<lparr>gc_executor := ge\<rparr>), [SendTo r (rq_proxy_id r)]))"

section \<open>The consensus manager\<close>

record 's geo_pbft =
  gp_pbft :: "'s pbft"
  gp_commitment :: "'s geo_commitment"

text \<open>The base class is constructed first; \<open>verifier\<close> is the one it owns.\<close>

definition new_geo_pbft :: "'s pbft \<Rightarrow> 's geo_executor \<Rightarrow> resdb_config \<Rightarrow> signature_verifier option \<Rightarrow> 's geo_pbft" where
  "new_geo_pbft base ge cfg verifier =
     \<lparr>gp_pbft = pbft_SetNeedCommitQC True base, gp_commitment = new_geo_commitment ge cfg verifier\<rparr>"

definition geo_ConsensusCommit ::
  "crypto \<Rightarrow> (string \<Rightarrow> batch_user_request option) \<Rightarrow> (nat \<Rightarrow> pbft_env) \<Rightarrow> net_context \<Rightarrow> request
     \<Rightarrow> 's geo_pbft \<Rightarrow> (int \<times> 's geo_pbft \<times> out_msg list) option" where
  "geo_ConsensusCommit C parse Ps cx request s =
     (if rq_type request = TYPE_GEO_REQUEST
      then let (ret, c, out) = GeoProcessCcm C parse request (gp_commitment s)
           in Some (ret, s\<lparr>gp_commitment := c\<rparr>, out)
      else map_option (\<lambda>(ret, p, out). (ret, s\<lparr>gp_pbft := p\<rparr>, out)) (ConsensusCommit Ps cx request (gp_pbft s)))"

section \<open>Runs\<close>

text \<open>A message arrives, the order thread iterates, the response thread iterates. A step gives the requests
  it admits to the global order and those it executes.\<close>

datatype geo_step = GsMsg request | GsRound | GsRespond

fun gc_step ::
  "crypto \<Rightarrow> (string \<Rightarrow> batch_user_request option) \<Rightarrow> (batch_user_response \<Rightarrow> string) \<Rightarrow> geo_step
     \<Rightarrow> 's geo_commitment \<Rightarrow> 's geo_commitment \<times> request list \<times> request list" where
  "gc_step C parse ser (GsMsg r) s =
     (let (ret, s1, out) = GeoProcessCcm C parse r s in (s1, if ret = 0 then [r] else [], []))"
| "gc_step C parse ser GsRound s =
     (let (ge, es) = OrderRound_step parse (gc_executor s) in (s\<lparr>gc_executor := ge\<rparr>, [], es))"
| "gc_step C parse ser GsRespond s = (fst (PostProcessExecutedGeo_step ser s), [], [])"

fun gc_run ::
  "crypto \<Rightarrow> (string \<Rightarrow> batch_user_request option) \<Rightarrow> (batch_user_response \<Rightarrow> string) \<Rightarrow> geo_step list
     \<Rightarrow> 's geo_commitment \<Rightarrow> 's geo_commitment \<times> request list \<times> request list" where
  "gc_run C parse ser [] s = (s, [], [])"
| "gc_run C parse ser (x # xs) s =
     (let (s1, a, e) = gc_step C parse ser x s; (s2, as, es) = gc_run C parse ser xs s1 in (s2, a @ as, e @ es))"

text \<open>The place of a request in \<open>checklist_\<close>.\<close>

definition check_slot :: "request \<Rightarrow> nat \<times> uint32" where
  "check_slot r = (unat (rq_seq r mod 2 ^ 20), word_of_int (rq_region_id r))"

definition checked :: "'s geo_commitment \<Rightarrow> nat \<times> uint32 \<Rightarrow> bool" where
  "checked s p \<longleftrightarrow> snd p \<in> gc_checklist s (fst p)"

definition geo_certified :: "crypto \<Rightarrow> (string \<Rightarrow> batch_user_request option) \<Rightarrow> signature_verifier option \<Rightarrow> request \<Rightarrow> bool" where
  "geo_certified C parse vo r \<longleftrightarrow> (\<exists>b sigs. parse (rq_data r) = Some b \<and> br_committed_certs b = Some sigs
     \<and> (\<forall>sv. vo = Some sv \<longrightarrow> list_all (VerifyMessage C sv (br_hash b)) sigs))"

lemma GeoProcessCcm_cases:
  assumes "GeoProcessCcm C parse r s = (ret, s', out)"
  shows "gc_verifier s' = gc_verifier s \<and> gc_config s' = gc_config s \<and> gc_min_seq s' = gc_min_seq s
    \<and> (\<forall>p. checked s' p \<longleftrightarrow> checked s p \<or> p = check_slot r \<and> gc_min_seq s \<le> rq_seq r)
    \<and> (if ret = 0 then \<not> checked s (check_slot r) \<and> gc_min_seq s \<le> rq_seq r
         \<and> geo_certified C parse (gc_verifier s) r \<and> gc_executor s' = snd (OrderGeoRequest r (gc_executor s))
       else gc_executor s' = gc_executor s \<and> out = [])"
  using assms
  by (auto simp: GeoProcessCcm_def AddNewReq_def VerifyCerts_def OrderGeoRequest_def check_slot_def checked_def
      geo_certified_def Let_def split: if_splits option.splits)

lemma PostProcessExecutedGeo_step_keeps:
  assumes "PostProcessExecutedGeo_step ser s = (s', out)"
  shows "gc_verifier s' = gc_verifier s \<and> (\<forall>p. checked s' p = checked s p)
    \<and> gc_executor s' = snd (geo_GetResponseMsg (gc_executor s)) \<and> gc_min_seq s \<le> gc_min_seq s'"
  using assms
  by (auto simp: PostProcessExecutedGeo_step_def UpdateSeq_def geo_GetResponseMsg_def checked_def Let_def
      split: list.splits if_splits)

text \<open>The executor inside the commitment runs as the executor alone does on the admitted requests.\<close>

lemma gc_run_executor:
  assumes "gc_run C parse ser steps s = (s', as, es)"
  shows "\<exists>evs. geo_run parse evs (gc_executor s) = (gc_executor s', es) \<and> ordered evs = as"
  using assms
proof (induction steps arbitrary: s as es)
  case Nil
  then show ?case by (intro exI [of _ "[]"]) simp
next
  case (Cons x steps)
  obtain s1 a e where st: "gc_step C parse ser x s = (s1, a, e)" by (metis prod_cases3)
  obtain as' es' where rn: "gc_run C parse ser steps s1 = (s', as', es')" and res: "as = a @ as'" "es = e @ es'"
    using Cons.prems st by (auto split: prod.splits)
  obtain evs where IH: "geo_run parse evs (gc_executor s1) = (gc_executor s', es')" "ordered evs = as'"
    using Cons.IH [OF rn] by blast
  show ?case
  proof (cases x)
    case (GsMsg r)
    obtain ret t out where p: "GeoProcessCcm C parse r s = (ret, t, out)" by (metis prod_cases3)
    have t: "t = s1" "a = (if ret = 0 then [r] else [])" "e = []" using st GsMsg p by simp_all
    show ?thesis
    proof (cases "ret = 0")
      case True
      then show ?thesis using GeoProcessCcm_cases [OF p] IH res t by (intro exI [of _ "GeoOrder r # evs"]) simp
    next
      case False
      then show ?thesis using GeoProcessCcm_cases [OF p] IH res t by (intro exI [of _ evs]) simp
    qed
  next
    case GsRound
    then show ?thesis using st IH res
      by (intro exI [of _ "GeoRound # evs"]) (auto split: prod.splits)
  next
    case GsRespond
    then show ?thesis using st IH res PostProcessExecutedGeo_step_keeps [of ser s "fst (PostProcessExecutedGeo_step ser s)"]
      by (intro exI [of _ "GeoResponse # evs"]) (simp add: prod_eq_iff)
  qed
qed

lemma gc_step_keeps:
  assumes "gc_step C parse ser x s = (s1, a, e)"
  shows "gc_verifier s1 = gc_verifier s \<and> (\<forall>p. checked s p \<longrightarrow> checked s1 p)"
proof (cases x)
  case (GsMsg r)
  obtain ret t out where p: "GeoProcessCcm C parse r s = (ret, t, out)" by (metis prod_cases3)
  then show ?thesis using GsMsg assms GeoProcessCcm_cases [OF p] by simp
next
  case GsRound
  then show ?thesis using assms by (auto simp: checked_def split: prod.splits)
next
  case GsRespond
  then show ?thesis using assms PostProcessExecutedGeo_step_keeps [of ser s s1] by (metis gc_step.simps(3) fst_conv surj_pair)
qed

lemma gc_run_keeps:
  assumes "gc_run C parse ser steps s = (s', as, es)"
  shows "gc_verifier s' = gc_verifier s \<and> (\<forall>p. checked s p \<longrightarrow> checked s' p)"
  using assms
proof (induction steps arbitrary: s as es)
  case (Cons x steps)
  obtain s1 a e where st: "gc_step C parse ser x s = (s1, a, e)" by (metis prod_cases3)
  then show ?case using Cons gc_step_keeps [OF st] by (auto split: prod.splits)
qed simp

lemma gc_step_admits:
  assumes "gc_step C parse ser x s = (s1, a, e)"
  shows "a = [] \<or> (\<exists>r. x = GsMsg r \<and> a = [r] \<and> geo_certified C parse (gc_verifier s) r
    \<and> \<not> checked s (check_slot r) \<and> checked s1 (check_slot r))"
proof (cases x)
  case (GsMsg r)
  obtain ret t out where p: "GeoProcessCcm C parse r s = (ret, t, out)" by (metis prod_cases3)
  then show ?thesis using GsMsg assms GeoProcessCcm_cases [OF p] by (cases "ret = 0") (simp_all del: split_paired_All)
qed (use assms in \<open>auto split: prod.splits\<close>)

lemma gc_run_admits:
  assumes "gc_run C parse ser steps s = (s', as, es)"
  shows "(\<forall>r\<in>set as. GsMsg r \<in> set steps \<and> geo_certified C parse (gc_verifier s) r \<and> \<not> checked s (check_slot r))
    \<and> distinct (map check_slot as)"
  using assms
proof (induction steps arbitrary: s as es)
  case (Cons x steps)
  obtain s1 a e where st: "gc_step C parse ser x s = (s1, a, e)" by (metis prod_cases3)
  obtain as' es' where rn: "gc_run C parse ser steps s1 = (s', as', es')" and res: "as = a @ as'"
    using Cons.prems st by (auto split: prod.splits)
  have IH: "\<forall>r\<in>set as'. GsMsg r \<in> set steps \<and> geo_certified C parse (gc_verifier s) r
      \<and> \<not> checked s (check_slot r) \<and> \<not> checked s1 (check_slot r)" "distinct (map check_slot as')"
    using Cons.IH [OF rn] gc_step_keeps [OF st] by (auto simp del: split_paired_All)
  from gc_step_admits [OF st] show ?case
  proof
    assume "a = []"
    then show ?thesis using IH res by auto
  next
    assume "\<exists>r. x = GsMsg r \<and> a = [r] \<and> geo_certified C parse (gc_verifier s) r
      \<and> \<not> checked s (check_slot r) \<and> checked s1 (check_slot r)"
    then obtain r where r: "x = GsMsg r" "a = [r]" "geo_certified C parse (gc_verifier s) r"
      "\<not> checked s (check_slot r)" "checked s1 (check_slot r)" by blast
    then have "check_slot r \<notin> check_slot ` set as'" using IH(1) by auto
    then show ?thesis using IH r res by auto
  qed
qed simp

section \<open>Properties\<close>

text \<open>C24: whatever messages arrive in whatever order, and however the threads interleave, a replica of GeoPBFT
  executes batches in the order of sequence numbers and regions without a gap, each of them received in a
  message whose batch has a certificate, every signature of which verifies for the hash of the batch. No two
  messages of one region are admitted whose sequence numbers agree modulo \<open>2 ^ 20\<close>.\<close>

theorem geo_executed_certified:
  assumes "gc_run C parse ser steps (new_geo_commitment (new_geo_executor tm db cfg) cfg vo) = (s, as, es)"
    and "length (cd_region (cf_config_data cfg)) = R" "0 < R" "R < 2 ^ 31 - 1"
  shows "map geo_key es = map (geo_slot R) [0 ..< length es] \<and> set es \<subseteq> set as
    \<and> (\<forall>r\<in>set es. GsMsg r \<in> set steps \<and> geo_certified C parse vo r) \<and> distinct (map check_slot as)"
proof -
  let ?s = "new_geo_commitment (new_geo_executor tm db cfg) cfg vo"
  have sel: "gc_executor ?s = new_geo_executor tm db cfg" "gc_verifier ?s = vo" by (simp_all add: new_geo_commitment_def)
  obtain evs where run: "geo_run parse evs (new_geo_executor tm db cfg) = (gc_executor s, es)" and as: "ordered evs = as"
    using gc_run_executor [OF assms(1)] sel by auto
  obtain popped where inv: "geo_inv R tm parse db popped es (gc_executor s)"
    and popped: "popped @ ge_order_queue (gc_executor s) = as"
    using geo_run_new [OF run] assms(2-4) as by auto
  have sub: "set es \<subseteq> set as" and keys: "map geo_key es = map (geo_slot R) [0 ..< length es]"
    using inv popped by (auto simp: geo_inv_def)
  then show ?thesis using gc_run_admits [OF assms(1)] sel(2) by (metis subsetD)
qed

definition demo_geo_cert_parse :: "string \<Rightarrow> batch_user_request option" where
  "demo_geo_cert_parse d = Some (empty_batch\<lparr>br_hash := ''m'', br_committed_certs :=
     (if d = ''x'' then None else Some [\<lparr>sg_hash_type = HT_ED25519, sg_node_id = 9, sg_signature = ''qm''\<rparr>])\<rparr>)"

definition demo_geo_steps :: "geo_step list" where
  "demo_geo_steps = [GsMsg (demo_geo_msg 1 2 ''b''), GsMsg (demo_geo_msg 1 1 ''a''), GsRound, GsRound]"

lemma demo_geo_cert: "VerifyMessage demo_crypto demo_verifier ''m'' \<lparr>sg_hash_type = HT_ED25519, sg_node_id = 9, sg_signature = ''qm''\<rparr>"
  by (simp add: VerifyMessage_def demo_verifier_def demo_crypto_def GetPublicKey_def VerifyWithKey_def demo_key_def)

lemma demo_geo_gc_run:
  "\<exists>s. gc_run demo_crypto demo_geo_cert_parse (\<lambda>_. []) demo_geo_steps
     (new_geo_commitment (new_geo_executor (Some demo_geo_manager) [] (demo_geo_config 1)) (demo_geo_config 1) (Some demo_verifier))
     = (s, [demo_geo_msg 1 2 ''b'', demo_geo_msg 1 1 ''a''], [demo_geo_msg 1 1 ''a'', demo_geo_msg 1 2 ''b''])"
  by (simp add: demo_geo_steps_def new_geo_commitment_def GeoProcessCcm_def AddNewReq_def VerifyCerts_def demo_geo_cert
      demo_geo_cert_parse_def demo_geo_simps geo_loop.simps)

theorem geo_executed_certified_witness:
  "map geo_key [demo_geo_msg 1 1 ''a'', demo_geo_msg 1 2 ''b''] = [geo_slot 2 0, geo_slot 2 1]
   \<and> geo_certified demo_crypto demo_geo_cert_parse (Some demo_verifier) (demo_geo_msg 1 1 ''a'')
   \<and> distinct (map check_slot [demo_geo_msg 1 2 ''b'', demo_geo_msg 1 1 ''a''])"
proof -
  obtain s where r: "gc_run demo_crypto demo_geo_cert_parse (\<lambda>_. []) demo_geo_steps
     (new_geo_commitment (new_geo_executor (Some demo_geo_manager) [] (demo_geo_config 1)) (demo_geo_config 1) (Some demo_verifier))
     = (s, [demo_geo_msg 1 2 ''b'', demo_geo_msg 1 1 ''a''], [demo_geo_msg 1 1 ''a'', demo_geo_msg 1 2 ''b''])"
    using demo_geo_gc_run by blast
  have "length (cd_region (cf_config_data (demo_geo_config 1))) = 2" by (simp add: demo_geo_config_def)
  from geo_executed_certified [OF r this] show ?thesis by simp
qed

text \<open>C40: a message blocks its place for good, even when it is refused. Once any message of a region has
  reached the checklist, no later message of this region with a sequence number that agrees with it modulo
  \<open>2 ^ 20\<close> is ordered, with whatever certificate: a forged message without certificate keeps the batch of the
  region out, and every region is locked out after \<open>2 ^ 20\<close> sequence numbers.\<close>

theorem geo_place_blocked:
  assumes "gc_min_seq s \<le> rq_seq m" "GeoProcessCcm C parse m s = (ret, s1, out)"
    and "gc_run C parse ser steps s1 = (s2, as, es)" "check_slot r = check_slot m"
  shows "\<exists>s3. GeoProcessCcm C parse r s2 = (1, s3, []) \<and> gc_executor s3 = gc_executor s2"
proof -
  have "checked s1 (check_slot m)" using GeoProcessCcm_cases [OF assms(2)] assms(1) by (simp del: split_paired_All)
  then have "checked s2 (check_slot r)" using gc_run_keeps [OF assms(3)] assms(4) by (simp del: split_paired_All)
  then show ?thesis
    by (auto simp: checked_def check_slot_def GeoProcessCcm_def AddNewReq_def Let_def)
qed

theorem geo_place_blocked_witness:
  "\<exists>ret s1 s3. GeoProcessCcm demo_crypto demo_geo_cert_parse (demo_geo_msg 1 2 ''x'')
        (new_geo_commitment (new_geo_executor (Some demo_geo_manager) [] (demo_geo_config 1)) (demo_geo_config 1) (Some demo_verifier))
        = (ret, s1, []) \<and> ret = -2
     \<and> GeoProcessCcm demo_crypto demo_geo_cert_parse (demo_geo_msg 1 2 ''b'') s1 = (1, s3, [])
     \<and> gc_executor s3 = gc_executor s1"
proof -
  let ?s = "new_geo_commitment (new_geo_executor (Some demo_geo_manager) [] (demo_geo_config 1)) (demo_geo_config 1) (Some demo_verifier)"
  obtain s1 where m: "GeoProcessCcm demo_crypto demo_geo_cert_parse (demo_geo_msg 1 2 ''x'') ?s = (-2, s1, [])"
    by (simp add: GeoProcessCcm_def AddNewReq_def new_geo_commitment_def demo_geo_cert_parse_def demo_geo_msg_def Let_def
        empty_batch_def)
  have "check_slot (demo_geo_msg 1 2 ''b'') = check_slot (demo_geo_msg 1 2 ''x'')" "gc_min_seq ?s \<le> rq_seq (demo_geo_msg 1 2 ''x'')"
    by (simp_all add: check_slot_def demo_geo_msg_def new_geo_commitment_def)
  from geo_place_blocked [OF this(2) m gc_run.simps(1) this(1)] show ?thesis using m by blast
qed

end
