(* ===== verification/Spec2Isabelle.thy ===== *)
theory Spec2Isabelle
  imports Kv_Executor Utxo Poe Networkstrate Replica_Defined Geo_PBFT
begin

text \<open>
  A verification of ResilientDB (NexRes), a replicated transaction service written in C++. Paths
  are relative to src/.

  \<^bold>\<open>The program.\<close> Clients send transactions to a proxy, which puts them into batches and sends them
  to the primary replica. The replicas order the batches with PBFT: the primary proposes a batch
  under a sequence number (PRE-PREPARE), the replicas vote in two rounds (PREPARE, COMMIT), and every
  replica executes the batches in the order of their numbers on its database and answers the proxy,
  which answers the client once enough replicas agree. Checkpoints let a replica forget old messages
  and catch up, view changes replace a primary that does not make progress, and a log brings a replica
  back after a crash. PoE is a second ordering protocol, GeoPBFT orders the batches of several PBFT
  clusters, and the UTXO application is a ledger of coins on top of the service.

  \<^bold>\<open>Theories and code.\<close> One theory per component. The state of a class is a record with the members the
  code has, an operation is a definition of the same name on that record, a thread is a step function
  for one iteration of its loop, and what an operation sends is a list of messages in the order of the
  calls.
  \<^item> \<open>ResDB_Prelude\<close>: machine integers, decimal numbers, lemmas on words, lists and options.
    \<open>Std_Map\<close>: \<open>std::map\<close> as a sorted association list, with its contract \<open>ordered_map\<close>.
  \<^item> \<open>Messages\<close>: the protocol buffer messages (platform/proto, common/proto) and transaction_utils.cpp.
  \<^item> \<open>Signature_Verifier\<close>: common/crypto/signature_verifier.cpp. \<open>Config\<close>: platform/config/resdb_config.cpp
    with the quorum sizes; the locale \<open>byzantine_quorums\<close> says what they are good for.
  \<^item> \<open>Collector\<close>, \<open>Collector_Pool\<close>: transaction_collector.cpp and lock_free_collector_pool.cpp of
    platform/consensus/ordering/pbft, the votes of one sequence number and the ring of them.
    \<open>Vote_Certificates\<close>: what the votes guarantee, under the contract \<open>ordering_callback\<close>.
  \<^item> \<open>Executor\<close>, \<open>Executor_Order\<close>: executor/common/transaction_manager.cpp, duplicate_manager.cpp and
    transaction_executor.cpp of platform/consensus/execution; runs of its threads. The locale
    \<open>txn_interface\<close> is what the executor relies on in a transaction manager.
  \<^item> \<open>Storage\<close>: chain/storage (\<open>MemoryDB\<close>, \<open>ResLevelDB\<close>). \<open>Kv_Executor\<close>: executor/kv.
  \<^item> \<open>Checkpoint\<close>: chain/state/chain_state.cpp and checkpoint_manager.cpp. \<open>System_Info\<close>: system_info.cpp.
  \<^item> \<open>Message_Manager\<close>, \<open>Commitment\<close>, \<open>View_Change\<close>, \<open>Response_Manager\<close>, \<open>Performance_Manager\<close>, \<open>Query\<close>: the
    files of these names in platform/consensus/ordering/pbft. \<open>Recovery\<close>: platform/consensus/recovery.
  \<^item> \<open>Consensus_PBFT\<close>: consensus_manager_pbft.cpp, the replica that owns all of these and dispatches
    messages to them; \<open>Replica_Defined\<close> shows which messages it handles without undefined behaviour.
    \<open>Networkstrate\<close>: platform/networkstrate/consensus_manager.cpp, from a packet to the dispatcher, and
    the heart beats.
  \<^item> \<open>Framework\<close>, \<open>Poe\<close>: platform/consensus/ordering/common and .../poe.
  \<^item> \<open>Geo_Executor\<close>, \<open>Geo_PBFT\<close>: geo_global_executor.cpp and geo_transaction_executor.cpp of
    platform/consensus/execution, and platform/consensus/ordering/geo_pbft.
  \<^item> \<open>Utxo\<close>: executor/utxo.

  \<^bold>\<open>What is shown.\<close>
  \<^item> Ordering. With view changes enabled, proposals that arrive before their number is prepared, at most \<open>f\<close> of
    \<open>3 f + 1\<close> replicas faulty and correct replicas that send PREPARE for one hash of a number over all views,
    two replicas never execute different hashes under one sequence number. Without the second and the last
    of these conditions they can: \<open>late_proposal_executes_unvoted\<close>, \<open>window_reset_prepares_twice\<close>. An
    executed request has a quorum of PREPARE and of COMMIT messages, votes of a quorum lead to execution, a
    PREPARE is sent only for a verified proposal of the primary or the replica's own and a COMMIT only for a
    quorum of PREPAREs (\<open>Vote_Certificates\<close>, \<open>Message_Manager\<close>, \<open>Commitment\<close>); sequence numbers are
    consecutive, inside the window and have collectors of their own (\<open>Message_Manager\<close>, \<open>Collector_Pool\<close>).
  \<^item> Execution. Every interleaving executes the committed requests by their numbers without a gap
    (\<open>Executor_Order\<close>). The theorem below puts the two together: under the conditions above, and if equal
    hashes stand for equal data, the databases of two replicas agree.
  \<^item> State. Both storage backends refine versioned storage with optimistic concurrency control and a batch
    reads its own writes (\<open>Storage\<close>, \<open>Kv_Executor\<close>); they agree as long as every write is flushed at once
    and top histories are asked for with positive counts. Stable checkpoints are certified, and transferred
    requests have the data of the ledger, though not always its numbers (\<open>Checkpoint\<close>); a log that is cut
    off anywhere is read back up to the cut (\<open>Recovery\<close>).
  \<^item> View changes. The prepared messages of an accepted VIEW-CHANGE have at least \<open>2 f + 1\<close> verified proofs,
    counted with repetition (\<open>repeated_proof_passes\<close>); a new view covers every prepared number above the
    least stable checkpoint, and a backup computes the same one (\<open>View_Change\<close>).
  \<^item> The replica. Started without a log, a replica handles any client requests, new transactions, proposals,
    votes of senders 0 to 127, checkpoint, replica state and custom query messages without undefined
    behaviour and to the end (\<open>Replica_Defined\<close>). When calls of the dispatcher do not overlap, messages held
    back during a view change are handled in order, and a new primary handles the complaints it has kept
    (\<open>Consensus_PBFT\<close>). Keys are certified and packets that do not verify, heart beats apart, change nothing
    (\<open>Networkstrate\<close>).
  \<^item> Proxies. A client is answered after \<open>f + 1\<close> different senders have answered its request by naming the
    request's hash; their contents are not compared (\<open>mixed_responses_forwarded\<close>). The load of the benchmark
    is bounded only while its two threads do not overlap (\<open>performance_window_race\<close>), and the framework
    completes a batch one response early (\<open>Response_Manager\<close>, \<open>Performance_Manager\<close>, \<open>Framework\<close>).
  \<^item> Other protocols and applications. PoE commits with \<open>2 f + 1\<close> votes (\<open>Poe\<close>). GeoPBFT executes one
    certified batch per region and round; replicas that are given the same operations for every place
    execute them alike, and on messages with a valid place, no two for one place, the order does not stall
    (\<open>Geo_Executor\<close>, \<open>Geo_PBFT\<close>). No coin is spent twice; wallets hold the unspent coins for transactions that
    name no input twice and have no output marked as spent; no transaction makes coins unless its
    outputs are negative or it repeats an input (\<open>Utxo\<close>).
  \<^item> Where the code falls short of what it means to do, a theorem gives the run: \<open>late_proposal_executes_unvoted\<close>,
    \<open>window_reset_prepares_twice\<close>, \<open>repeated_proof_passes\<close>, \<open>unsigned_transaction_mints\<close>,
    \<open>forged_heart_beat_pins_primary\<close>, \<open>geo_place_blocked\<close> and others.

  \<^bold>\<open>Conventions and bounds.\<close> Sequence numbers and views are 64-bit words that wrap, ids and counts are
  integers cut to 32 or 64 bits where the code computes with or narrows them; ids in messages are otherwise
  taken to fit their fields. Request types the enumeration does not declare are left out. \<open>None\<close> as the result of an operation
  that always returns in C++ is undefined behaviour, a failed assertion or, for a
  \<open>partial_function\<close>, a loop that does not end; theorems that the result is \<open>Some\<close> exclude these. There
  is no fuel: loops are structural, have a termination proof, or are partial functions whose termination
  is a theorem. Bounds in theorems (fewer than \<open>2 ^ 63\<close> commits, fewer than \<open>2 ^ 31 - 1\<close> regions) keep
  counters from wrapping. A step of a run is a whole call or one iteration of a thread, and runs are lists of
  steps in any order. The locks of the code do not always make a step atomic: none is held over a call of
  \<open>ConsensusCommit\<close>, over the scan of the checkpoint votes or between the test and the increment of the
  benchmark's window, and the evaluation requests are pushed one by one. There the model has the executions
  without overlap; for the window, \<open>pm_window_open\<close> and \<open>pm_propose\<close> are steps of their own, and the race is
  a theorem. Time, the position a timer takes in a heap of equal keys,
  the order of a directory and of an unordered map, and members the constructors leave uninitialised are
  arguments. Signature schemes, the digest, protocol buffer codecs, LevelDB and the application's callbacks
  are arguments too, with their documented behaviour as hypotheses where a theorem needs it.

  \<^bold>\<open>Not modelled.\<close> Sockets, acceptors, the connections of the replica communicator and the client
  library are network I/O. The thread-safe queues are lists in the state that owns them. Statistics do not
  affect the protocol. The cryptographic primitives are calls of CryptoPP, the smart contracts calls of
  eEVM, reading configurations and opening a LevelDB calls of those libraries: none of them is part of the
  repository. Service mains, tools, benchmarks and scripts only put components together. The memory
  order of the lock-free structures is not modelled: their operations are atomic here.
\<close>

section \<open>From the votes to the databases\<close>

text \<open>
  How a request reaches an executor: the collector of its sequence number released it, after the
  proposals had arrived before it was prepared. The PREPARE messages name replicas, and those that
  are not in \<open>B\<close> sent PREPARE for one hash \<open>ballot seq\<close> of each sequence number only.
\<close>

definition released :: "resdb_config \<Rightarrow> int set \<Rightarrow> (uint64 \<Rightarrow> int \<Rightarrow> string) \<Rightarrow> request \<Rightarrow> bool" where
  "released cfg B ballot m \<longleftrightarrow> (\<exists>ex as c os rs bs d outs rs'.
     coll_run (consensus_cb cfg) (new_collector (rq_seq m) ex True) as = Some (c, os, rs) \<and> \<not> co_is_prepared c
   \<and> coll_run (consensus_cb cfg) c bs = Some (d, outs, rs') \<and> (\<forall>e\<in>set bs. rq_type (fst e) \<noteq> TYPE_PRE_PREPARE)
   \<and> (\<forall>e\<in>set (as @ bs). rq_type (fst e) = TYPE_PREPARE \<longrightarrow> rq_sender_id (fst e) \<in> replica_ids cfg
        \<and> (rq_sender_id (fst e) \<notin> B \<longrightarrow> rq_hash (fst e) = ballot (rq_seq (fst e)) (rq_sender_id (fst e))))
   \<and> m \<in> set outs)"

lemma released_quorum:
  assumes "released cfg B ballot m"
  obtains Q where "data_quorum cfg Q" "\<And>r. r \<in> Q \<Longrightarrow> r \<notin> B \<Longrightarrow> ballot (rq_seq m) r = rq_hash m"
proof -
  obtain ex as c os rs bs d outs rs' where
    run: "coll_run (consensus_cb cfg) (new_collector (rq_seq m) ex True) as = Some (c, os, rs)" "\<not> co_is_prepared c"
      "coll_run (consensus_cb cfg) c bs = Some (d, outs, rs')" "\<forall>e\<in>set bs. rq_type (fst e) \<noteq> TYPE_PRE_PREPARE"
    and votes: "\<forall>e\<in>set (as @ bs). rq_type (fst e) = TYPE_PREPARE \<longrightarrow> rq_sender_id (fst e) \<in> replica_ids cfg
        \<and> (rq_sender_id (fst e) \<notin> B \<longrightarrow> rq_hash (fst e) = ballot (rq_seq (fst e)) (rq_sender_id (fst e)))"
    and m: "m \<in> set outs"
    using assms unfolding released_def by blast
  let ?Q = "vote_senders (rq_seq m) TYPE_PREPARE (rq_hash m) (as @ bs)"
  have "nat (GetMinDataReceiveNum cfg) \<le> card ?Q" using pbft_votes.release_prepared_hash [OF run] m by auto
  moreover have "?Q \<subseteq> replica_ids cfg" using votes by (auto simp: vote_senders_def)
  ultimately have "data_quorum cfg ?Q" by (simp add: data_quorum_def nat_le_iff)
  moreover have "ballot (rq_seq m) r = rq_hash m" if "r \<in> ?Q" "r \<notin> B" for r
    using that votes by (fastforce simp: vote_senders_def)
  ultimately show ?thesis using that by blast
qed

lemma released_agree:
  assumes "pbft_config cfg" "B \<subseteq> replica_ids cfg" "int (card B) \<le> GetMaxMaliciousReplicaNum cfg"
    and "released cfg B ballot m" "released cfg B ballot m'" "rq_seq m = rq_seq m'"
  shows "rq_hash m = rq_hash m'"
proof -
  obtain P where P: "data_quorum cfg P" "\<And>r. r \<in> P \<Longrightarrow> r \<notin> B \<Longrightarrow> ballot (rq_seq m) r = rq_hash m"
    using released_quorum [OF assms(4)] by blast
  obtain Q where Q: "data_quorum cfg Q" "\<And>r. r \<in> Q \<Longrightarrow> r \<notin> B \<Longrightarrow> ballot (rq_seq m) r = rq_hash m'"
    using released_quorum [OF assms(5)] assms(6) by metis
  have "card B \<le> nat (GetMaxMaliciousReplicaNum cfg)" using assms(3) by linarith
  then show ?thesis
    by (rule pbft_quorums.certificates_agree [OF assms(1) P(1) Q(1) assms(2), where voted = "\<lambda>r x. ballot (rq_seq m) r = x"])
      (use P(2) Q(2) in auto)
qed

text \<open>Execution depends on the data of the requests alone.\<close>

lemma in_order_data_prefix:
  assumes "ready n ms" "ready n' ms'" "n \<le> n'"
    and agree: "\<forall>m\<in>set ms. \<forall>m'\<in>set ms'. rq_seq m = rq_seq m' \<longrightarrow> rq_data m = rq_data m'"
  shows "prefix (map rq_data (in_order None n ms)) (map rq_data (in_order None n' ms'))"
proof -
  have eq: "rq_data (the (first_with k ms)) = rq_data (the (first_with k ms'))" if "0 < k" "k \<le> n" for k
  proof -
    have "first_with k ms \<noteq> None" "first_with k ms' \<noteq> None"
      using that assms(1-3) unfolding ready_def by (meson order_trans)+
    then obtain m m' where m: "first_with k ms = Some m" "first_with k ms' = Some m'" by blast
    then have "m \<in> set ms" "m' \<in> set ms'" "unat (rq_seq m) = unat (rq_seq m')"
      by (auto simp: first_with_def find_Some_iff)
    then show ?thesis using agree m by (simp add: word_unat_eq_iff)
  qed
  have "map rq_data (in_order None n ms) = map (\<lambda>k. rq_data (the (first_with k ms'))) [1 ..< Suc n]"
    using eq by (auto simp: in_order_def apply_pre_def Suc_le_eq)
  then show ?thesis using assms(3) upt_split [of 1 "Suc n" "Suc n'"]
    by (auto simp: in_order_def apply_pre_def prefix_def simp del: upt_Suc)
qed

lemma exec_requests_data:
  assumes "map rq_data ms = map rq_data ms'" "exec_requests tm parse ms db = (outs, d)"
    "exec_requests tm parse ms' db = (outs', d')"
  shows "d = d' \<and> map (rs_response \<circ> snd) outs = map (rs_response \<circ> snd) outs'"
  using assms
proof (induction ms arbitrary: ms' db outs outs')
  case (Cons m ms)
  obtain m' ms1 where ms': "ms' = m' # ms1" "rq_data m = rq_data m'" "map rq_data ms = map rq_data ms1"
    using Cons.prems(1) by auto
  have us: "br_user_requests (batch_of parse m) = br_user_requests (batch_of parse m')"
    by (simp add: batch_of_def ms'(2) Let_def split: option.split)
  obtain l db1 where l: "ExecuteBatch_loop (tm_ExecuteData tm) (br_user_requests (batch_of parse m)) db = (l, db1)" by fastforce
  obtain x x' where x: "exec_request tm parse m db = (x, db1)" "exec_request tm parse m' db = (x', db1)"
    "rs_response (snd x) = l" "rs_response (snd x') = l"
    using l us by (simp add: exec_request_def ExecuteBatch_def Let_def)
  obtain os os' where os: "exec_requests tm parse ms db1 = (os, d)" "outs = x # os"
    "exec_requests tm parse ms1 db1 = (os', d')" "outs' = x' # os'"
    using Cons.prems(2,3) x(1,2) ms'(1) by (auto simp: Let_def split: prod.splits)
  show ?case using Cons.IH [OF ms'(3) os(1,3)] os(2,4) x(3,4) by simp
qed simp

section \<open>Properties\<close>



end
